(* ===== verification/Rust_Prelude.thy ===== *)
theory Rust_Prelude
  imports Main
begin

text \<open>
  What the components share: Rust's \<^verbatim>\<open>str\<close>, \<^verbatim>\<open>Vec\<close>, \<^verbatim>\<open>usize\<close> and \<^verbatim>\<open>Result\<close> as the
  sources use them.

  \<^item> A Rust \<^verbatim>\<open>char\<close> is a Unicode scalar value, here its number (\<open>rchar\<close>), and a
    \<^verbatim>\<open>String\<close> is the list of its characters (\<open>rstr\<close>). \<open>lit\<close> turns an Isabelle
    literal into such a list. A path (\<^verbatim>\<open>PathBuf\<close>) is the string it displays as.
  \<^item> A fallible function returns \<open>'e + 'a\<close>, with \<open>Inl\<close> for \<^verbatim>\<open>Err\<close>. A panic is
    \<open>None\<close> of an option around the result.
  \<^item> \<^verbatim>\<open>usize\<close> is \<open>nat\<close>; saturating operations are written out at 64 bits.
\<close>

named_theorems rust_eval \<open>rules that evaluate the model on closed inputs\<close>

section \<open>Characters and strings\<close>

type_synonym rchar = nat
type_synonym rstr = "rchar list"
type_synonym path_buf = rstr

definition lit :: "string \<Rightarrow> rstr" where
  "lit s = map of_char s"

abbreviation chr :: "char \<Rightarrow> rchar" where
  "chr c \<equiv> of_char c"

lemma lit_eq_iff [simp]: "lit s = lit t \<longleftrightarrow> s = t"
  unfolding lit_def by (rule inj_map_eq_map) (rule inj_of_char)

lemma lit_Nil_iff [simp]: "lit s = [] \<longleftrightarrow> s = []" "[] = lit s \<longleftrightarrow> s = []"
  by (auto simp: lit_def)

lemma length_lit [simp]: "length (lit s) = length s"
  by (simp add: lit_def)

lemma lit_Nil [rust_eval]: "lit [] = []"
  by (simp add: lit_def)

lemma lit_Cons [rust_eval]: "lit (c # s) = of_char c # lit s"
  by (simp add: lit_def)

definition newline :: rchar where "newline = 10"
definition carriage_return :: rchar where "carriage_return = 13"

text \<open>\<^verbatim>\<open>char::is_whitespace\<close>: the Unicode property White\_Space.\<close>

definition is_whitespace :: "rchar \<Rightarrow> bool" where
  "is_whitespace c \<longleftrightarrow>
     (9 \<le> c \<and> c \<le> 13) \<or> c = 32 \<or> c = 133 \<or> c = 160 \<or> c = 5760 \<or> (8192 \<le> c \<and> c \<le> 8202) \<or>
     c = 8232 \<or> c = 8233 \<or> c = 8239 \<or> c = 8287 \<or> c = 12288"

lemma is_whitespace_line_ends [simp]: "is_whitespace newline" "is_whitespace carriage_return"
  by (simp_all add: is_whitespace_def newline_def carriage_return_def)

definition trim_start :: "rstr \<Rightarrow> rstr" where
  "trim_start s = dropWhile is_whitespace s"

definition trim_end :: "rstr \<Rightarrow> rstr" where
  "trim_end s = rev (dropWhile is_whitespace (rev s))"

definition trim :: "rstr \<Rightarrow> rstr" where
  "trim s = trim_end (trim_start s)"

lemmas trim_defs = trim_def trim_start_def trim_end_def

definition is_ascii_digit :: "rchar \<Rightarrow> bool" where
  "is_ascii_digit c \<longleftrightarrow> 48 \<le> c \<and> c \<le> 57"

definition to_ascii_lower :: "rchar \<Rightarrow> rchar" where
  "to_ascii_lower c = (if 65 \<le> c \<and> c \<le> 90 then c + 32 else c)"

text \<open>Strings that \<^verbatim>\<open>trim\<close> leaves alone at one end.\<close>

definition starts_solid :: "rstr \<Rightarrow> bool" where
  "starts_solid s \<longleftrightarrow> s = [] \<or> \<not> is_whitespace (hd s)"

definition ends_solid :: "rstr \<Rightarrow> bool" where
  "ends_solid s \<longleftrightarrow> s = [] \<or> \<not> is_whitespace (last s)"

lemma trim_start_id [simp]: "starts_solid s \<Longrightarrow> trim_start s = s"
  by (cases s) (auto simp: trim_start_def starts_solid_def)

lemma trim_end_id [simp]: "ends_solid s \<Longrightarrow> trim_end s = s"
  by (cases s rule: rev_cases) (auto simp: trim_end_def ends_solid_def)

lemma trim_id: "starts_solid s \<Longrightarrow> ends_solid s \<Longrightarrow> trim s = s"
  by (simp add: trim_def)

lemma starts_solid_trim_start [simp]: "starts_solid (trim_start s)"
  unfolding starts_solid_def trim_start_def by (metis hd_dropWhile)

lemma ends_solid_trim_end [simp]: "ends_solid (trim_end s)"
  unfolding ends_solid_def trim_end_def by (metis hd_dropWhile hd_rev rev_is_Nil_conv rev_rev_ident)

lemma trim_end_prefix: "\<exists>w. s = trim_end s @ w \<and> list_all is_whitespace w"
proof -
  have "rev s = takeWhile is_whitespace (rev s) @ dropWhile is_whitespace (rev s)"
    by simp
  then have "s = trim_end s @ rev (takeWhile is_whitespace (rev s))"
    unfolding trim_end_def by (metis rev_append rev_rev_ident)
  moreover have "list_all is_whitespace (rev (takeWhile is_whitespace (rev s)))"
    by (auto simp: list_all_iff dest: set_takeWhileD)
  ultimately show ?thesis by blast
qed

lemma starts_solid_trim [simp]: "starts_solid (trim s)"
proof -
  obtain w where w: "trim_start s = trim s @ w"
    using trim_end_prefix [of "trim_start s"] by (auto simp: trim_def)
  have "starts_solid (trim_start s)" by simp
  then show ?thesis unfolding w by (cases "trim s") (auto simp: starts_solid_def)
qed

lemma ends_solid_trim [simp]: "ends_solid (trim s)"
  by (simp add: trim_def)

lemma trim_trim [simp]: "trim (trim s) = trim s"
  by (simp add: trim_id)

lemma trim_end_trim_end [simp]: "trim_end (trim_end s) = trim_end s"
  by simp

lemma trim_end_append_solid: "ends_solid t \<Longrightarrow> t \<noteq> [] \<Longrightarrow> trim_end (s @ t) = s @ t"
  by (rule trim_end_id) (auto simp: ends_solid_def)

lemma trim_start_append_solid: "starts_solid s \<Longrightarrow> s \<noteq> [] \<Longrightarrow> trim_start (s @ t) = s @ t"
  by (rule trim_start_id) (auto simp: starts_solid_def)

section \<open>Prefixes, suffixes, splitting and joining\<close>

definition strip_prefix :: "'a list \<Rightarrow> 'a list \<Rightarrow> 'a list option" where
  "strip_prefix p s = (if take (length p) s = p then Some (drop (length p) s) else None)"

definition strip_suffix :: "'a list \<Rightarrow> 'a list \<Rightarrow> 'a list option" where
  "strip_suffix p s = map_option rev (strip_prefix (rev p) (rev s))"

definition starts_with :: "'a list \<Rightarrow> 'a list \<Rightarrow> bool" where
  "starts_with p s \<longleftrightarrow> take (length p) s = p"

definition ends_with :: "'a list \<Rightarrow> 'a list \<Rightarrow> bool" where
  "ends_with p s \<longleftrightarrow> starts_with (rev p) (rev s)"

lemma strip_prefix_append [simp]: "strip_prefix p (p @ s) = Some s"
  by (simp add: strip_prefix_def)

lemma strip_prefix_Some_iff: "strip_prefix p s = Some r \<longleftrightarrow> s = p @ r"
  by (auto simp: strip_prefix_def) (metis append_take_drop_id)

lemma strip_prefix_None_iff: "strip_prefix p s = None \<longleftrightarrow> (\<forall>r. s \<noteq> p @ r)"
  by (metis not_None_eq strip_prefix_Some_iff)

lemma strip_prefix_Nil [simp]: "strip_prefix [] s = Some s"
  by (simp add: strip_prefix_def)

lemma strip_prefix_Nil2 [simp]: "strip_prefix (a # p) [] = None"
  by (simp add: strip_prefix_def)

lemma strip_prefix_Cons [simp]:
  "strip_prefix (a # p) (b # s) = (if a = b then strip_prefix p s else None)"
  by (auto simp: strip_prefix_def)

lemma strip_suffix_Some_iff: "strip_suffix p s = Some r \<longleftrightarrow> s = r @ p"
  by (auto simp: strip_suffix_def strip_prefix_Some_iff)
    (metis rev_append rev_rev_ident)

lemma strip_suffix_append [simp]: "strip_suffix p (s @ p) = Some s"
  by (simp add: strip_suffix_Some_iff)

lemma starts_with_iff: "starts_with p s \<longleftrightarrow> (\<exists>r. s = p @ r)"
  by (auto simp: starts_with_def) (metis append_take_drop_id)

lemma starts_with_append [simp]: "starts_with p (p @ s)"
  by (simp add: starts_with_def)

lemma starts_with_Cons [simp]: "starts_with (a # p) (b # s) \<longleftrightarrow> a = b \<and> starts_with p s"
  by (auto simp: starts_with_def)

lemma starts_with_Nil [simp]: "starts_with [] s" "\<not> starts_with (a # p) []"
  by (simp_all add: starts_with_def)

lemma starts_with_strip: "starts_with p s \<longleftrightarrow> strip_prefix p s \<noteq> None"
  by (simp add: starts_with_def strip_prefix_def)

fun split_on :: "'a \<Rightarrow> 'a list \<Rightarrow> 'a list list" where
  "split_on c [] = [[]]"
| "split_on c (x # xs) =
     (if x = c then [] # split_on c xs
      else case split_on c xs of [] \<Rightarrow> [[x]] | y # ys \<Rightarrow> (x # y) # ys)"

fun join_with :: "'a list \<Rightarrow> 'a list list \<Rightarrow> 'a list" where
  "join_with sep [] = []"
| "join_with sep [x] = x"
| "join_with sep (x # y # zs) = x @ sep @ join_with sep (y # zs)"

lemma split_on_nonempty [simp]: "split_on c s \<noteq> []" "[] \<noteq> split_on c s"
  by (induction s) (auto split: list.splits)

lemma join_with_Cons: "zs \<noteq> [] \<Longrightarrow> join_with sep (x # zs) = x @ sep @ join_with sep zs"
  by (cases zs) auto

lemma join_split_on [simp]: "join_with [c] (split_on c s) = s"
proof (induction s)
  case (Cons x xs)
  obtain y ys where ys: "split_on c xs = y # ys"
    by (metis split_on_nonempty(1) list.exhaust)
  show ?case using Cons by (cases ys) (auto simp: ys)
qed simp

lemma join_with_snoc: "join_with [c] (xs @ [z]) = concat (map (\<lambda>l. l @ [c]) xs) @ z"
proof (induction xs)
  case (Cons x xs)
  then show ?case by (simp add: join_with_Cons)
qed simp

lemma split_on_no_sep: "c \<notin> set x \<Longrightarrow> split_on c x = [x]"
  by (induction x) auto

lemma split_on_append_sep: "c \<notin> set x \<Longrightarrow> split_on c (x @ c # s) = x # split_on c s"
  by (induction x) auto

lemma split_join_with:
  "xs \<noteq> [] \<Longrightarrow> list_all (\<lambda>x. c \<notin> set x) xs \<Longrightarrow> split_on c (join_with [c] xs) = xs"
proof (induction xs)
  case (Cons x xs)
  then show ?case by (cases xs) (auto simp: split_on_no_sep split_on_append_sep)
qed simp

lemma split_on_parts: "x \<in> set (split_on c s) \<Longrightarrow> c \<notin> set x"
proof (induction s arbitrary: x)
  case (Cons a s)
  then show ?case by (cases "split_on c s") (auto split: if_splits)
qed simp

text \<open>
  \<^verbatim>\<open>str::lines\<close>: split at newlines; a piece that was ended by a newline loses one carriage
  return before it; an empty last piece is dropped.
\<close>

definition strip_cr :: "rstr \<Rightarrow> rstr" where
  "strip_cr l = (case strip_suffix [carriage_return] l of None \<Rightarrow> l | Some l' \<Rightarrow> l')"

definition str_lines :: "rstr \<Rightarrow> rstr list" where
  "str_lines s =
     (let ps = split_on newline s
      in map strip_cr (butlast ps) @ (if last ps = [] then [] else [last ps]))"

text \<open>Text that stays one line when it is written and read back.\<close>

definition line_safe :: "rstr \<Rightarrow> bool" where
  "line_safe l \<longleftrightarrow> newline \<notin> set l \<and> (l = [] \<or> last l \<noteq> carriage_return)"

lemma strip_cr_id [simp]: "line_safe l \<Longrightarrow> strip_cr l = l"
  by (auto simp: strip_cr_def strip_suffix_Some_iff line_safe_def split: option.splits)

lemma line_safe_Nil [simp]: "line_safe []"
  by (simp add: line_safe_def)

lemma line_safe_Cons [simp]:
  "line_safe (c # l) \<longleftrightarrow> c \<noteq> newline \<and> line_safe l \<and> (l = [] \<longrightarrow> c \<noteq> carriage_return)"
  by (auto simp: line_safe_def)

lemma line_safe_append:
  "newline \<notin> set p \<Longrightarrow> line_safe l \<Longrightarrow> l \<noteq> [] \<Longrightarrow> line_safe (p @ l)"
  by (auto simp: line_safe_def)

lemma str_lines_join:
  assumes "xs \<noteq> []" and "last xs \<noteq> []" and "list_all line_safe xs"
  shows "str_lines (join_with [newline] xs) = xs"
proof -
  have sp: "split_on newline (join_with [newline] xs) = xs"
    using assms by (intro split_join_with) (auto simp: list_all_iff line_safe_def)
  have "map strip_cr (butlast xs) = butlast xs"
    using assms(3) by (intro map_idI) (auto simp: list_all_iff dest: in_set_butlastD)
  then show ?thesis using assms(1,2) by (simp add: str_lines_def sp)
qed

section \<open>Vectors\<close>

text \<open>\<^verbatim>\<open>Vec::insert\<close> panics past the end; \<^verbatim>\<open>None\<close> is the panic.\<close>

definition vec_insert :: "nat \<Rightarrow> 'a \<Rightarrow> 'a list \<Rightarrow> 'a list option" where
  "vec_insert i x xs = (if i \<le> length xs then Some (take i xs @ x # drop i xs) else None)"

definition vec_remove :: "nat \<Rightarrow> 'a list \<Rightarrow> 'a list option" where
  "vec_remove i xs = (if i < length xs then Some (take i xs @ drop (Suc i) xs) else None)"

lemma list_all_butlast: "list_all P xs \<Longrightarrow> list_all P (butlast xs)"
  by (auto simp: list_all_iff dest: in_set_butlastD)

definition last_opt :: "'a list \<Rightarrow> 'a option" where
  "last_opt xs = (if xs = [] then None else Some (last xs))"

lemma last_opt_snoc [simp]: "last_opt (xs @ [x]) = Some x"
  by (simp add: last_opt_def)

lemma last_opt_Nil [simp]: "last_opt [] = None"
  by (simp add: last_opt_def)

lemma last_opt_Some_iff: "last_opt xs = Some x \<longleftrightarrow> (\<exists>ys. xs = ys @ [x])"
  by (cases xs rule: rev_cases) auto

lemma last_opt_None_iff [simp]: "last_opt xs = None \<longleftrightarrow> xs = []"
  by (simp add: last_opt_def)

text \<open>\<^verbatim>\<open>last_mut()\<close> followed by an update of the element.\<close>

definition map_last :: "('a \<Rightarrow> 'a) \<Rightarrow> 'a list \<Rightarrow> 'a list" where
  "map_last f xs = (if xs = [] then [] else butlast xs @ [f (last xs)])"

lemma map_last_snoc [simp]: "map_last f (xs @ [x]) = xs @ [f x]"
  by (simp add: map_last_def)

lemma map_last_Nil [simp]: "map_last f [] = []"
  by (simp add: map_last_def)

fun position :: "('a \<Rightarrow> bool) \<Rightarrow> 'a list \<Rightarrow> nat option" where
  "position P [] = None"
| "position P (x # xs) = (if P x then Some 0 else map_option Suc (position P xs))"

definition rposition :: "('a \<Rightarrow> bool) \<Rightarrow> 'a list \<Rightarrow> nat option" where
  "rposition P xs = map_option (\<lambda>i. length xs - Suc i) (position P (rev xs))"

lemma position_None_iff: "position P xs = None \<longleftrightarrow> (\<forall>x \<in> set xs. \<not> P x)"
  by (induction xs) auto

lemma position_SomeD:
  "position P xs = Some i \<Longrightarrow> i < length xs \<and> P (xs ! i) \<and> (\<forall>j < i. \<not> P (xs ! j))"
proof (induction xs arbitrary: i)
  case (Cons x xs)
  then show ?case by (auto simp: less_Suc_eq_0_disj split: if_splits)
qed simp

lemma rposition_None_iff: "rposition P xs = None \<longleftrightarrow> (\<forall>x \<in> set xs. \<not> P x)"
  by (simp add: rposition_def position_None_iff)

lemma rposition_SomeD:
  assumes "rposition P xs = Some i"
  shows "i < length xs \<and> P (xs ! i) \<and> (\<forall>j. i < j \<longrightarrow> j < length xs \<longrightarrow> \<not> P (xs ! j))"
proof -
  obtain k where k: "position P (rev xs) = Some k" and i: "i = length xs - Suc k"
    using assms by (auto simp: rposition_def)
  from position_SomeD [OF k] have kl: "k < length xs" and Pk: "P (rev xs ! k)"
    and before: "\<forall>j < k. \<not> P (rev xs ! j)" by auto
  have "\<not> P (xs ! j)" if "i < j" "j < length xs" for j
  proof -
    have "\<not> P (rev xs ! (length xs - Suc j))" using before that i kl by auto
    then show ?thesis using that by (simp add: rev_nth)
  qed
  then show ?thesis using kl Pk i by (auto simp: rev_nth)
qed

lemma find_upt_Some_iff:
  "find P [a..<b] = Some i \<longleftrightarrow> a \<le> i \<and> i < b \<and> P i \<and> (\<forall>j. a \<le> j \<longrightarrow> j < i \<longrightarrow> \<not> P j)"
proof
  assume "find P [a..<b] = Some i"
  then obtain k where k: "k < length [a..<b]" "P ([a..<b] ! k)" "i = [a..<b] ! k"
    "\<forall>j < k. \<not> P ([a..<b] ! j)"
    by (auto simp: find_Some_iff)
  have "\<not> P j" if "a \<le> j" "j < i" for j
    using k that by (auto simp: dest!: spec [of _ "j - a"])
  then show "a \<le> i \<and> i < b \<and> P i \<and> (\<forall>j. a \<le> j \<longrightarrow> j < i \<longrightarrow> \<not> P j)"
    using k by auto
next
  assume "a \<le> i \<and> i < b \<and> P i \<and> (\<forall>j. a \<le> j \<longrightarrow> j < i \<longrightarrow> \<not> P j)"
  then show "find P [a..<b] = Some i"
    unfolding find_Some_iff by (intro exI [of _ "i - a"]) auto
qed

lemma find_upt_None_iff: "find P [a..<b] = None \<longleftrightarrow> (\<forall>j. a \<le> j \<longrightarrow> j < b \<longrightarrow> \<not> P j)"
  by (auto simp: find_None_iff)

definition split_once :: "rchar \<Rightarrow> rstr \<Rightarrow> (rstr \<times> rstr) option" where
  "split_once c s = map_option (\<lambda>i. (take i s, drop (Suc i) s)) (position (\<lambda>x. x = c) s)"

definition rsplit_once :: "rchar \<Rightarrow> rstr \<Rightarrow> (rstr \<times> rstr) option" where
  "rsplit_once c s = map_option (\<lambda>i. (take i s, drop (Suc i) s)) (rposition (\<lambda>x. x = c) s)"

section \<open>Rendering and comparing\<close>

text \<open>Decimal digits, as \<^verbatim>\<open>Display\<close> prints an unsigned integer.\<close>

fun decimal :: "nat \<Rightarrow> rstr" where
  "decimal n = (if n < 10 then [48 + n] else decimal (n div 10) @ [48 + n mod 10])"

declare decimal.simps [simp del]

definition eq_ignore_ascii_case :: "rstr \<Rightarrow> rstr \<Rightarrow> bool" where
  "eq_ignore_ascii_case a b \<longleftrightarrow> map to_ascii_lower a = map to_ascii_lower b"

section \<open>Machine integers\<close>

definition usize_max :: nat where "usize_max = 2 ^ 64 - 1"

definition usat_add :: "nat \<Rightarrow> nat \<Rightarrow> nat" where
  "usat_add a b = min (a + b) usize_max"

definition i64_max :: int where "i64_max = 2 ^ 63 - 1"
definition i64_min :: int where "i64_min = - (2 ^ 63)"

definition i64_clamp :: "int \<Rightarrow> int" where
  "i64_clamp x = max i64_min (min i64_max x)"

definition isat_add :: "int \<Rightarrow> int \<Rightarrow> int" where
  "isat_add a b = i64_clamp (a + b)"

definition isat_sub :: "int \<Rightarrow> int \<Rightarrow> int" where
  "isat_sub a b = i64_clamp (a - b)"

definition i64_of_usize :: "nat \<Rightarrow> int" where
  "i64_of_usize n = (if int n \<le> i64_max then int n else i64_max)"

lemma usat_add_exact: "a + b \<le> usize_max \<Longrightarrow> usat_add a b = a + b"
  by (simp add: usat_add_def)

lemma i64_clamp_range: "i64_min \<le> i64_clamp x \<and> i64_clamp x \<le> i64_max"
  by (auto simp: i64_clamp_def i64_min_def i64_max_def)

lemma i64_clamp_id: "i64_min \<le> x \<Longrightarrow> x \<le> i64_max \<Longrightarrow> i64_clamp x = x"
  by (simp add: i64_clamp_def)

end
