(* ===== verification/Patch_Parser.thy ===== *)
theory Patch_Parser
  imports Rust_Prelude
begin

text \<open>
  \<^verbatim>\<open>apply-patch/src/parser.rs\<close>: the batch parser of the \<^verbatim>\<open>*** Begin Patch\<close> format. The error
  messages are the source's, so that an error value of the model is the error value of the
  code. The grammar that the source documents is given as a syntax tree with a printer; the
  round trip says that the parser inverts the printer.
\<close>

section \<open>Data\<close>

definition BEGIN_PATCH_MARKER :: rstr where "BEGIN_PATCH_MARKER = lit ''*** Begin Patch''"
definition ENVIRONMENT_ID_MARKER :: rstr where "ENVIRONMENT_ID_MARKER = lit ''*** Environment ID: ''"
definition END_PATCH_MARKER :: rstr where "END_PATCH_MARKER = lit ''*** End Patch''"
definition ADD_FILE_MARKER :: rstr where "ADD_FILE_MARKER = lit ''*** Add File: ''"
definition DELETE_FILE_MARKER :: rstr where "DELETE_FILE_MARKER = lit ''*** Delete File: ''"
definition UPDATE_FILE_MARKER :: rstr where "UPDATE_FILE_MARKER = lit ''*** Update File: ''"
definition MOVE_TO_MARKER :: rstr where "MOVE_TO_MARKER = lit ''*** Move to: ''"
definition EOF_MARKER :: rstr where "EOF_MARKER = lit ''*** End of File''"
definition CHANGE_CONTEXT_MARKER :: rstr where "CHANGE_CONTEXT_MARKER = lit ''@@ ''"
definition EMPTY_CHANGE_CONTEXT_MARKER :: rstr where "EMPTY_CHANGE_CONTEXT_MARKER = lit ''@@''"
definition PARSE_IN_STRICT_MODE :: bool where "PARSE_IN_STRICT_MODE = False"

lemmas marker_defs = BEGIN_PATCH_MARKER_def ENVIRONMENT_ID_MARKER_def END_PATCH_MARKER_def
  ADD_FILE_MARKER_def DELETE_FILE_MARKER_def UPDATE_FILE_MARKER_def MOVE_TO_MARKER_def
  EOF_MARKER_def CHANGE_CONTEXT_MARKER_def EMPTY_CHANGE_CONTEXT_MARKER_def

declare marker_defs [rust_eval]

datatype parse_error =
    InvalidPatchError rstr
  | InvalidHunkError rstr nat

record update_file_chunk =
  change_context :: "rstr option"
  old_lines :: "rstr list"
  new_lines :: "rstr list"
  is_end_of_file :: bool

datatype hunk =
    AddFile path_buf rstr
  | DeleteFile path_buf
  | UpdateFile path_buf "path_buf option" "update_file_chunk list"

record apply_patch_args =
  patch_text :: rstr
  hunks :: "hunk list"
  workdir :: "rstr option"
  environment_id :: "rstr option"

datatype parse_mode = Strict | Lenient

fun hunk_path :: "hunk \<Rightarrow> path_buf" where
  "hunk_path (AddFile path _) = path"
| "hunk_path (DeleteFile path) = path"
| "hunk_path (UpdateFile _ (Some path) _) = path"
| "hunk_path (UpdateFile path None _) = path"

text \<open>
  The path that \<^verbatim>\<open>resolve_path\<close> resolves: unlike \<open>hunk_path\<close> it is the source of a rename.
  \<open>resolve\<close> stands for \<^verbatim>\<open>AbsolutePathBuf::resolve_path_against_base\<close>, which asks the
  platform for the home directory and expands the path.
\<close>

fun resolve_path :: "(path_buf \<Rightarrow> path_buf \<Rightarrow> path_buf) \<Rightarrow> path_buf \<Rightarrow> hunk \<Rightarrow> path_buf" where
  "resolve_path resolve cwd (UpdateFile path _ _) = resolve path cwd"
| "resolve_path resolve cwd h = resolve (hunk_path h) cwd"

section \<open>Messages\<close>

definition sq :: rstr where "sq = [39]"

definition msg_first_line :: rstr where
  "msg_first_line = lit ''The first line of the patch must be '' @ sq @ BEGIN_PATCH_MARKER @ sq"

definition msg_last_line :: rstr where
  "msg_last_line = lit ''The last line of the patch must be '' @ sq @ END_PATCH_MARKER @ sq"

definition msg_no_lines :: rstr where
  "msg_no_lines = lit ''Update hunk does not contain any lines''"

definition msg_env_empty :: rstr where
  "msg_env_empty = lit ''apply_patch environment_id cannot be empty''"

definition msg_update_empty :: "path_buf \<Rightarrow> rstr" where
  "msg_update_empty path = lit ''Update file hunk for path '' @ sq @ path @ sq @ lit '' is empty''"

definition msg_expected_context :: "rstr \<Rightarrow> rstr" where
  "msg_expected_context line =
     lit ''Expected update hunk to start with a @@ context marker, got: '' @ sq @ line @ sq"

definition msg_unexpected_line :: "rstr \<Rightarrow> rstr" where
  "msg_unexpected_line line =
     lit ''Unexpected line found in update hunk: '' @ sq @ line @ sq @
     lit ''. Every line should start with '' @ sq @ lit '' '' @ sq @ lit '' (context line), '' @
     sq @ lit ''+'' @ sq @ lit '' (added line), or '' @ sq @ lit ''-'' @ sq @ lit '' (removed line)''"

definition msg_bad_header :: "rstr \<Rightarrow> rstr" where
  "msg_bad_header line =
     sq @ line @ sq @ lit '' is not a valid hunk header. Valid hunk headers: '' @
     sq @ lit ''*** Add File: {path}'' @ sq @ lit '', '' @
     sq @ lit ''*** Delete File: {path}'' @ sq @ lit '', '' @
     sq @ lit ''*** Update File: {path}'' @ sq"

section \<open>The parser\<close>

fun check_start_and_end_lines_strict :: "rstr option \<Rightarrow> rstr option \<Rightarrow> parse_error + unit" where
  "check_start_and_end_lines_strict first_line last_line =
     (let first_line = map_option trim first_line; last_line = map_option trim last_line
      in case (first_line, last_line) of
           (Some first, Some lst) \<Rightarrow>
             if first = BEGIN_PATCH_MARKER \<and> lst = END_PATCH_MARKER then Inr ()
             else if first \<noteq> BEGIN_PATCH_MARKER then Inl (InvalidPatchError msg_first_line)
             else Inl (InvalidPatchError msg_last_line)
         | (Some first, None) \<Rightarrow>
             if first \<noteq> BEGIN_PATCH_MARKER then Inl (InvalidPatchError msg_first_line)
             else Inl (InvalidPatchError msg_last_line)
         | (None, _) \<Rightarrow> Inl (InvalidPatchError msg_last_line))"

text \<open>The pair is the patch with and without its first and last line.\<close>

definition check_patch_boundaries_strict :: "rstr list \<Rightarrow> parse_error + rstr list \<times> rstr list" where
  "check_patch_boundaries_strict lines =
     (let (first_line, last_line) =
            (if lines = [] then (None, None) else (Some (hd lines), Some (last lines)))
      in case check_start_and_end_lines_strict first_line last_line of
           Inl e \<Rightarrow> Inl e
         | Inr _ \<Rightarrow> Inr (lines, butlast (tl lines)))"

definition heredoc_starts :: "rstr list" where
  "heredoc_starts = [lit ''<<EOF'', lit ''<<'' @ sq @ lit ''EOF'' @ sq, lit ''<<'' @ [34] @ lit ''EOF'' @ [34]]"

definition check_patch_boundaries_lenient :: "rstr list \<Rightarrow> parse_error + rstr list \<times> rstr list" where
  "check_patch_boundaries_lenient original_lines =
     (case check_patch_boundaries_strict original_lines of
        Inr r \<Rightarrow> Inr r
      | Inl original_parse_error \<Rightarrow>
          if length original_lines \<ge> 2 then
            (if hd original_lines \<in> set heredoc_starts
                \<and> ends_with (lit ''EOF'') (last original_lines) \<and> length original_lines \<ge> 4
             then check_patch_boundaries_strict (butlast (tl original_lines))
             else Inl original_parse_error)
          else Inl original_parse_error)"

definition parse_environment_id_preamble ::
    "rstr list \<Rightarrow> parse_error + rstr option \<times> rstr list \<times> nat" where
  "parse_environment_id_preamble hunk_lines =
     (case hunk_lines of
        [] \<Rightarrow> Inr (None, hunk_lines, 2)
      | first_line # rest \<Rightarrow>
          (case strip_prefix ENVIRONMENT_ID_MARKER (trim_start first_line) of
             None \<Rightarrow> Inr (None, hunk_lines, 2)
           | Some raw_id \<Rightarrow>
               let env_id = trim raw_id in
               if env_id = [] then Inl (InvalidPatchError msg_env_empty)
               else Inr (Some env_id, rest, 3)))"

text \<open>The loop over the body of a chunk; \<open>parsed\<close> is \<^verbatim>\<open>parsed_lines\<close>.\<close>

fun chunk_body ::
    "nat \<Rightarrow> rstr list \<Rightarrow> update_file_chunk \<Rightarrow> nat \<Rightarrow> parse_error + update_file_chunk \<times> nat" where
  "chunk_body line_number [] chunk parsed = Inr (chunk, parsed)"
| "chunk_body line_number (line # rest) chunk parsed =
     (if line = EOF_MARKER then
        (if parsed = 0 then Inl (InvalidHunkError msg_no_lines (line_number + 1))
         else Inr (chunk\<lparr>is_end_of_file := True\<rparr>, parsed + 1))
      else case line of
        [] \<Rightarrow> chunk_body line_number rest
                (chunk\<lparr>old_lines := old_lines chunk @ [[]], new_lines := new_lines chunk @ [[]]\<rparr>)
                (parsed + 1)
      | c # text \<Rightarrow>
          if c = chr CHR '' '' then
            chunk_body line_number rest
              (chunk\<lparr>old_lines := old_lines chunk @ [text], new_lines := new_lines chunk @ [text]\<rparr>)
              (parsed + 1)
          else if c = chr CHR ''+'' then
            chunk_body line_number rest (chunk\<lparr>new_lines := new_lines chunk @ [text]\<rparr>) (parsed + 1)
          else if c = chr CHR ''-'' then
            chunk_body line_number rest (chunk\<lparr>old_lines := old_lines chunk @ [text]\<rparr>) (parsed + 1)
          else if parsed = 0 then
            Inl (InvalidHunkError (msg_unexpected_line line) (line_number + 1))
          else Inr (chunk, parsed))"

definition empty_chunk :: "rstr option \<Rightarrow> update_file_chunk" where
  "empty_chunk ctx =
     \<lparr>change_context = ctx, old_lines = [], new_lines = [], is_end_of_file = False\<rparr>"

definition chunk_start :: "rstr \<Rightarrow> nat \<Rightarrow> bool \<Rightarrow> parse_error + rstr option \<times> nat" where
  "chunk_start line line_number allow_missing_context =
     (if line = EMPTY_CHANGE_CONTEXT_MARKER then Inr (None, 1)
      else case strip_prefix CHANGE_CONTEXT_MARKER line of
             Some context \<Rightarrow> Inr (Some context, 1)
           | None \<Rightarrow>
               if \<not> allow_missing_context
               then Inl (InvalidHunkError (msg_expected_context line) line_number)
               else Inr (None, 0))"

definition parse_update_file_chunk ::
    "rstr list \<Rightarrow> nat \<Rightarrow> bool \<Rightarrow> parse_error + update_file_chunk \<times> nat" where
  "parse_update_file_chunk lines line_number allow_missing_context =
     (case lines of
        [] \<Rightarrow> Inl (InvalidHunkError msg_no_lines line_number)
      | line # _ \<Rightarrow>
          (case chunk_start line line_number allow_missing_context of
             Inl e \<Rightarrow> Inl e
           | Inr (context, start_index) \<Rightarrow>
               if start_index \<ge> length lines
               then Inl (InvalidHunkError msg_no_lines (line_number + 1))
               else (case chunk_body line_number (drop start_index lines) (empty_chunk context) 0 of
                       Inl e \<Rightarrow> Inl e
                     | Inr (chunk, parsed_lines) \<Rightarrow> Inr (chunk, parsed_lines + start_index))))"

text \<open>Every successful chunk consumes a line; the loops below end because of it.\<close>

lemma chunk_body_ge: "chunk_body ln lines chunk n = Inr (chunk', m) \<Longrightarrow> n \<le> m"
proof (induction ln lines chunk n arbitrary: chunk' m rule: chunk_body.induct)
  case (2 line_number line rest chunk parsed)
  show ?case using "2.prems" "2.IH"
    by (auto split: if_splits list.splits) fastforce+
qed simp

lemma chunk_body_pos:
  assumes "chunk_body ln lines chunk 0 = Inr (chunk', m)" and "lines \<noteq> []"
  shows "0 < m"
proof -
  obtain line rest where l: "lines = line # rest" using assms(2) by (cases lines) auto
  show ?thesis using assms(1) unfolding l
    by (auto split: if_splits list.splits dest!: chunk_body_ge)
qed

lemma parse_update_file_chunk_pos:
  assumes "parse_update_file_chunk lines ln allow = Inr (chunk, n)"
  shows "0 < n"
  using assms unfolding parse_update_file_chunk_def
  by (auto split: list.splits sum.splits if_splits prod.splits dest!: chunk_body_pos)

text \<open>The loop over the chunks of one update hunk.\<close>

function update_chunks ::
    "rstr list \<Rightarrow> nat \<Rightarrow> nat \<Rightarrow> update_file_chunk list \<Rightarrow>
     parse_error + update_file_chunk list \<times> nat" where
  "update_chunks remaining_lines line_number parsed_lines chunks =
     (case remaining_lines of
        [] \<Rightarrow> Inr (chunks, parsed_lines)
      | line # rest \<Rightarrow>
          if trim line = [] then update_chunks rest line_number (parsed_lines + 1) chunks
          else if starts_with [chr CHR ''*''] line then Inr (chunks, parsed_lines)
          else case parse_update_file_chunk remaining_lines (line_number + parsed_lines) (chunks = []) of
                 Inl e \<Rightarrow> Inl e
               | Inr (chunk, chunk_lines) \<Rightarrow>
                   update_chunks (drop chunk_lines remaining_lines) line_number
                     (parsed_lines + chunk_lines) (chunks @ [chunk]))"
  by pat_completeness auto
termination
  by (relation "measure (\<lambda>(ls, _, _, _). length ls)")
    (auto dest: parse_update_file_chunk_pos)

declare update_chunks.simps [simp del]

fun add_lines :: "rstr list \<Rightarrow> rstr \<times> nat" where
  "add_lines [] = ([], 0)"
| "add_lines (add_line # rest) =
     (case strip_prefix [chr CHR ''+''] add_line of
        Some line_to_add \<Rightarrow>
          (let (contents, parsed_lines) = add_lines rest
           in (line_to_add @ newline # contents, parsed_lines + 1))
      | None \<Rightarrow> ([], 0))"

text \<open>
  The hunk at the head of a non-empty list of lines: \<open>line0\<close> is \<^verbatim>\<open>lines[0]\<close> and \<open>rest\<close> is
  \<^verbatim>\<open>&lines[1..]\<close>. The result has the number of lines of the hunk.
\<close>

definition parse_one_hunk :: "rstr \<Rightarrow> rstr list \<Rightarrow> nat \<Rightarrow> parse_error + hunk \<times> nat" where
  "parse_one_hunk line0 rest line_number =
     (let first_line = trim line0 in
      case strip_prefix ADD_FILE_MARKER first_line of
        Some path \<Rightarrow>
          (let (contents, parsed_lines) = add_lines rest
           in Inr (AddFile path contents, 1 + parsed_lines))
      | None \<Rightarrow>
      (case strip_prefix DELETE_FILE_MARKER first_line of
        Some path \<Rightarrow> Inr (DeleteFile path, 1)
      | None \<Rightarrow>
      (case strip_prefix UPDATE_FILE_MARKER first_line of
        Some path \<Rightarrow>
          (let move_path = (case rest of [] \<Rightarrow> None | x # _ \<Rightarrow> strip_prefix MOVE_TO_MARKER x);
               moved = (if move_path = None then 0 else 1)
           in case update_chunks (drop moved rest) line_number (1 + moved) [] of
                Inl e \<Rightarrow> Inl e
              | Inr (chunks, parsed_lines) \<Rightarrow>
                  if chunks = [] then Inl (InvalidHunkError (msg_update_empty path) line_number)
                  else Inr (UpdateFile path move_path chunks, parsed_lines))
      | None \<Rightarrow> Inl (InvalidHunkError (msg_bad_header first_line) line_number))))"

lemma update_chunks_ge:
  "update_chunks ls ln n cs = Inr (cs', m) \<Longrightarrow> n \<le> m"
proof (induction ls ln n cs arbitrary: cs' m rule: update_chunks.induct)
  case (1 remaining_lines line_number parsed_lines chunks)
  show ?case
    using "1.prems" "1.IH" parse_update_file_chunk_pos
    by (subst (asm) update_chunks.simps)
      (fastforce split: list.splits if_splits sum.splits prod.splits)
qed

lemma parse_one_hunk_pos:
  assumes "parse_one_hunk l rest ln = Inr (h, n)" shows "0 < n"
  using assms unfolding parse_one_hunk_def Let_def
  by (auto split: option.splits sum.splits if_splits prod.splits dest!: update_chunks_ge)

function parse_hunks :: "rstr list \<Rightarrow> nat \<Rightarrow> hunk list \<Rightarrow> parse_error + hunk list" where
  "parse_hunks remaining_lines line_number acc =
     (case remaining_lines of
        [] \<Rightarrow> Inr acc
      | line # rest \<Rightarrow>
          (case parse_one_hunk line rest line_number of
             Inl e \<Rightarrow> Inl e
           | Inr (hunk, hunk_lines) \<Rightarrow>
               parse_hunks (drop hunk_lines remaining_lines) (line_number + hunk_lines) (acc @ [hunk])))"
  by pat_completeness auto
termination
  by (relation "measure (\<lambda>(ls, _, _). length ls)") (auto dest: parse_one_hunk_pos)

declare parse_hunks.simps [simp del]

definition parse_patch_text :: "rstr \<Rightarrow> parse_mode \<Rightarrow> parse_error + apply_patch_args" where
  "parse_patch_text patch mode =
     (let lines = str_lines (trim patch) in
      case (case mode of Strict \<Rightarrow> check_patch_boundaries_strict lines
                       | Lenient \<Rightarrow> check_patch_boundaries_lenient lines) of
        Inl e \<Rightarrow> Inl e
      | Inr (patch_lines, hunk_lines) \<Rightarrow>
          (case parse_environment_id_preamble hunk_lines of
             Inl e \<Rightarrow> Inl e
           | Inr (env_id, remaining_lines, line_number) \<Rightarrow>
               (case parse_hunks remaining_lines line_number [] of
                  Inl e \<Rightarrow> Inl e
                | Inr hs \<Rightarrow>
                    Inr \<lparr>patch_text = join_with [newline] patch_lines, hunks = hs,
                         workdir = None, environment_id = env_id\<rparr>)))"

definition parse_patch :: "rstr \<Rightarrow> parse_error + apply_patch_args" where
  "parse_patch patch = parse_patch_text patch (if PARSE_IN_STRICT_MODE then Strict else Lenient)"

end
