(* ===== verification/Patch_Grammar.thy ===== *)
theory Patch_Grammar
  imports Patch_Parser
begin

text \<open>
  The patch grammar of the header comment of \<^verbatim>\<open>apply-patch/src/parser.rs\<close> as a syntax tree:
  what a tree denotes (\<open>hunk_of\<close>), how it is written (\<open>patch_lines_of\<close>, \<open>render_patch\<close>),
  and that the batch parser reads it back.
\<close>

section \<open>Syntax, meaning, printing\<close>

datatype diff_line = Keep rstr | Plus rstr | Minus rstr

datatype chunk_syntax = Chunk "rstr option" "diff_line list" bool

datatype hunk_syntax =
    SAdd path_buf "rstr list"
  | SDelete path_buf
  | SUpdate path_buf "path_buf option" "chunk_syntax list"

fun diff_old :: "diff_line \<Rightarrow> rstr list" where
  "diff_old (Keep l) = [l]"
| "diff_old (Plus l) = []"
| "diff_old (Minus l) = [l]"

fun diff_new :: "diff_line \<Rightarrow> rstr list" where
  "diff_new (Keep l) = [l]"
| "diff_new (Plus l) = [l]"
| "diff_new (Minus l) = []"

fun chunk_of :: "chunk_syntax \<Rightarrow> update_file_chunk" where
  "chunk_of (Chunk ctx ls eof) =
     \<lparr>change_context = ctx, old_lines = concat (map diff_old ls),
      new_lines = concat (map diff_new ls), is_end_of_file = eof\<rparr>"

fun hunk_of :: "hunk_syntax \<Rightarrow> hunk" where
  "hunk_of (SAdd path ls) = AddFile path (concat (map (\<lambda>l. l @ [newline]) ls))"
| "hunk_of (SDelete path) = DeleteFile path"
| "hunk_of (SUpdate path move cs) = UpdateFile path move (map chunk_of cs)"

fun diff_text :: "diff_line \<Rightarrow> rstr" where
  "diff_text (Keep l) = chr CHR '' '' # l"
| "diff_text (Plus l) = chr CHR ''+'' # l"
| "diff_text (Minus l) = chr CHR ''-'' # l"

fun context_text :: "rstr option \<Rightarrow> rstr" where
  "context_text None = EMPTY_CHANGE_CONTEXT_MARKER"
| "context_text (Some c) = CHANGE_CONTEXT_MARKER @ c"

fun chunk_text :: "chunk_syntax \<Rightarrow> rstr list" where
  "chunk_text (Chunk ctx ls eof) =
     context_text ctx # map diff_text ls @ (if eof then [EOF_MARKER] else [])"

fun move_text :: "path_buf option \<Rightarrow> rstr list" where
  "move_text None = []"
| "move_text (Some p) = [MOVE_TO_MARKER @ p]"

fun hunk_text :: "hunk_syntax \<Rightarrow> rstr list" where
  "hunk_text (SAdd path ls) = (ADD_FILE_MARKER @ path) # map (\<lambda>l. chr CHR ''+'' # l) ls"
| "hunk_text (SDelete path) = [DELETE_FILE_MARKER @ path]"
| "hunk_text (SUpdate path move cs) =
     (UPDATE_FILE_MARKER @ path) # move_text move @ concat (map chunk_text cs)"

fun env_text :: "rstr option \<Rightarrow> rstr list" where
  "env_text None = []"
| "env_text (Some e) = [ENVIRONMENT_ID_MARKER @ e]"

definition body_lines :: "rstr option \<Rightarrow> hunk_syntax list \<Rightarrow> rstr list" where
  "body_lines env hs = env_text env @ concat (map hunk_text hs)"

definition patch_lines_of :: "rstr option \<Rightarrow> hunk_syntax list \<Rightarrow> rstr list" where
  "patch_lines_of env hs = BEGIN_PATCH_MARKER # body_lines env hs @ [END_PATCH_MARKER]"

definition render_patch :: "rstr option \<Rightarrow> hunk_syntax list \<Rightarrow> rstr" where
  "render_patch env hs = join_with [newline] (patch_lines_of env hs)"

section \<open>Well-formed trees\<close>

text \<open>Text that follows a marker on its line: not empty and not ended by white space.\<close>

definition header_ok :: "rstr \<Rightarrow> bool" where
  "header_ok p \<longleftrightarrow> p \<noteq> [] \<and> ends_solid p \<and> newline \<notin> set p"

fun diff_ok :: "diff_line \<Rightarrow> bool" where
  "diff_ok (Keep l) = line_safe l"
| "diff_ok (Plus l) = line_safe l"
| "diff_ok (Minus l) = line_safe l"

fun chunk_ok :: "chunk_syntax \<Rightarrow> bool" where
  "chunk_ok (Chunk ctx ls eof) = (pred_option header_ok ctx \<and> ls \<noteq> [] \<and> list_all diff_ok ls)"

fun hunk_ok :: "hunk_syntax \<Rightarrow> bool" where
  "hunk_ok (SAdd path ls) = (header_ok path \<and> list_all line_safe ls)"
| "hunk_ok (SDelete path) = header_ok path"
| "hunk_ok (SUpdate path move cs) =
     (header_ok path \<and> pred_option header_ok move \<and> cs \<noteq> [] \<and> list_all chunk_ok cs)"

definition env_ok :: "rstr option \<Rightarrow> bool" where
  "env_ok env = pred_option (\<lambda>e. header_ok e \<and> starts_solid e) env"

definition patch_ok :: "rstr option \<Rightarrow> hunk_syntax list \<Rightarrow> bool" where
  "patch_ok env hs \<longleftrightarrow> env_ok env \<and> list_all hunk_ok hs"

lemma header_ok_line_safe: "header_ok p \<Longrightarrow> line_safe p"
  by (auto simp: header_ok_def ends_solid_def line_safe_def)

section \<open>Markers\<close>

text \<open>Evaluation facts about the ten markers, each by computing with the literals.\<close>

lemmas marker_eval = marker_defs lit_Cons lit_Nil

lemma starts_solid_markers [simp]:
  "starts_solid (BEGIN_PATCH_MARKER @ p)" "starts_solid (END_PATCH_MARKER @ p)"
  "starts_solid (ENVIRONMENT_ID_MARKER @ p)"
  "starts_solid (ADD_FILE_MARKER @ p)" "starts_solid (DELETE_FILE_MARKER @ p)"
  "starts_solid (UPDATE_FILE_MARKER @ p)" "starts_solid (MOVE_TO_MARKER @ p)"
  "starts_solid (CHANGE_CONTEXT_MARKER @ p)"
  by (simp_all add: marker_eval starts_solid_def is_whitespace_def)

lemma ends_solid_append: "p \<noteq> [] \<Longrightarrow> ends_solid (m @ p) \<longleftrightarrow> ends_solid p"
  by (auto simp: ends_solid_def)

lemma trim_header [simp]:
  assumes "header_ok p"
  shows "trim (ADD_FILE_MARKER @ p) = ADD_FILE_MARKER @ p"
    "trim (DELETE_FILE_MARKER @ p) = DELETE_FILE_MARKER @ p"
    "trim (UPDATE_FILE_MARKER @ p) = UPDATE_FILE_MARKER @ p"
    "trim (ENVIRONMENT_ID_MARKER @ p) = ENVIRONMENT_ID_MARKER @ p"
  using assms by (auto intro!: trim_id simp: header_ok_def ends_solid_append)

lemma trim_end_header [simp]:
  assumes "header_ok p" shows "trim_end (m @ p) = m @ p"
  using assms by (auto intro!: trim_end_id simp: header_ok_def ends_solid_append)

lemma trim_ends [simp]:
  "trim BEGIN_PATCH_MARKER = BEGIN_PATCH_MARKER" "trim END_PATCH_MARKER = END_PATCH_MARKER"
  by (simp_all add: marker_eval trim_defs is_whitespace_def)

lemma no_newline_markers [simp]:
  "newline \<notin> set BEGIN_PATCH_MARKER" "newline \<notin> set END_PATCH_MARKER"
  "newline \<notin> set ENVIRONMENT_ID_MARKER" "newline \<notin> set ADD_FILE_MARKER"
  "newline \<notin> set DELETE_FILE_MARKER" "newline \<notin> set UPDATE_FILE_MARKER"
  "newline \<notin> set MOVE_TO_MARKER" "newline \<notin> set CHANGE_CONTEXT_MARKER"
  "newline \<notin> set EMPTY_CHANGE_CONTEXT_MARKER" "newline \<notin> set EOF_MARKER"
  by (simp_all add: marker_eval newline_def)

lemma line_safe_markers [simp]:
  "line_safe BEGIN_PATCH_MARKER" "line_safe END_PATCH_MARKER" "line_safe EOF_MARKER"
  "line_safe EMPTY_CHANGE_CONTEXT_MARKER"
  by (simp_all add: marker_eval line_safe_def newline_def carriage_return_def)

lemma marker_neq [simp]:
  "BEGIN_PATCH_MARKER \<noteq> END_PATCH_MARKER" "BEGIN_PATCH_MARKER \<noteq> []" "END_PATCH_MARKER \<noteq> []"
  "diff_text d \<noteq> EOF_MARKER" "diff_text d \<noteq> []"
  "context_text c \<noteq> EOF_MARKER" "context_text c \<noteq> []"
  by (cases d; cases c; simp add: marker_eval)+

lemma strip_other_header [simp]:
  "strip_prefix ADD_FILE_MARKER (DELETE_FILE_MARKER @ p) = None"
  "strip_prefix ADD_FILE_MARKER (UPDATE_FILE_MARKER @ p) = None"
  "strip_prefix DELETE_FILE_MARKER (ADD_FILE_MARKER @ p) = None"
  "strip_prefix DELETE_FILE_MARKER (UPDATE_FILE_MARKER @ p) = None"
  "strip_prefix ADD_FILE_MARKER END_PATCH_MARKER = None"
  "strip_prefix DELETE_FILE_MARKER END_PATCH_MARKER = None"
  "strip_prefix UPDATE_FILE_MARKER END_PATCH_MARKER = None"
  "strip_prefix UPDATE_FILE_MARKER (ADD_FILE_MARKER @ p) = None"
  "strip_prefix UPDATE_FILE_MARKER (DELETE_FILE_MARKER @ p) = None"
  "strip_prefix ENVIRONMENT_ID_MARKER (ADD_FILE_MARKER @ p) = None"
  "strip_prefix ENVIRONMENT_ID_MARKER (DELETE_FILE_MARKER @ p) = None"
  "strip_prefix ENVIRONMENT_ID_MARKER (UPDATE_FILE_MARKER @ p) = None"
  "strip_prefix MOVE_TO_MARKER (context_text c) = None"
  by (cases c; simp add: marker_eval)+

section \<open>The batch parser reads what the printer writes\<close>

definition extend_chunk :: "update_file_chunk \<Rightarrow> diff_line list \<Rightarrow> update_file_chunk" where
  "extend_chunk c ls =
     c\<lparr>old_lines := old_lines c @ concat (map diff_old ls),
       new_lines := new_lines c @ concat (map diff_new ls)\<rparr>"

lemma extend_chunk_simps:
  "extend_chunk c [] = c"
  "extend_chunk c (Keep l # ls) =
     extend_chunk (c\<lparr>old_lines := old_lines c @ [l], new_lines := new_lines c @ [l]\<rparr>) ls"
  "extend_chunk c (Plus l # ls) = extend_chunk (c\<lparr>new_lines := new_lines c @ [l]\<rparr>) ls"
  "extend_chunk c (Minus l # ls) = extend_chunk (c\<lparr>old_lines := old_lines c @ [l]\<rparr>) ls"
  by (simp_all add: extend_chunk_def)

lemma chunk_body_diffs:
  "chunk_body ln (map diff_text ls @ rest) c n = chunk_body ln rest (extend_chunk c ls) (n + length ls)"
proof (induction ls arbitrary: c n)
  case (Cons d ls)
  then show ?case by (cases d) (simp_all add: extend_chunk_simps marker_eval)
qed (simp add: extend_chunk_simps)

text \<open>What may follow a chunk: nothing, another chunk or a header.\<close>

definition chunk_stop :: "rstr list \<Rightarrow> bool" where
  "chunk_stop rest \<longleftrightarrow>
     (case rest of [] \<Rightarrow> True
      | l # _ \<Rightarrow> l \<noteq> EOF_MARKER \<and> l \<noteq> [] \<and> hd l \<in> {chr CHR ''@'', chr CHR ''*''})"

lemma chunk_body_stop: "0 < n \<Longrightarrow> chunk_stop rest \<Longrightarrow> chunk_body ln rest c n = Inr (c, n)"
  by (cases rest) (auto simp: chunk_stop_def split: list.splits)

lemma parse_chunk_text:
  assumes "chunk_ok ch" and "chunk_stop rest"
  shows "parse_update_file_chunk (chunk_text ch @ rest) ln allow = Inr (chunk_of ch, length (chunk_text ch))"
proof (cases ch)
  case (Chunk ctx ls eof)
  have ls: "0 < length ls" using assms Chunk by simp
  have start: "chunk_start (context_text ctx) ln allow = Inr (ctx, 1)"
    by (cases ctx) (simp_all add: chunk_start_def marker_eval)
  have body: "chunk_body ln (map diff_text ls @ (if eof then [EOF_MARKER] else []) @ rest) (empty_chunk ctx) 0
      = Inr (chunk_of ch, length ls + (if eof then 1 else 0))"
    using assms(2) ls by (simp add: chunk_body_diffs chunk_body_stop Chunk extend_chunk_def empty_chunk_def)
  show ?thesis using ls
    by (simp add: parse_update_file_chunk_def Chunk start body [unfolded Chunk])
qed

lemma chunk_stop_chunks:
  "chunk_stop rest \<Longrightarrow> chunk_stop (concat (map chunk_text cs) @ rest)"
proof (cases cs)
  case (Cons ch cs')
  moreover obtain ctx ls eof where "ch = Chunk ctx ls eof" by (cases ch)
  ultimately show ?thesis
    by (cases ctx) (simp_all add: chunk_stop_def marker_eval)
qed simp

text \<open>What may follow an update hunk: nothing or a header.\<close>

definition header_start :: "rstr list \<Rightarrow> bool" where
  "header_start rest \<longleftrightarrow>
     (case rest of [] \<Rightarrow> True | l # _ \<Rightarrow> l \<noteq> EOF_MARKER \<and> l \<noteq> [] \<and> hd l = chr CHR ''*'')"

lemma header_start_chunk_stop: "header_start rest \<Longrightarrow> chunk_stop rest"
  by (cases rest) (auto simp: header_start_def chunk_stop_def)

lemma header_start_hunks: "header_start (concat (map hunk_text hs))"
proof (cases hs)
  case (Cons h hs')
  then show ?thesis by (cases h) (simp_all add: header_start_def marker_eval)
qed (simp add: header_start_def)

lemma update_chunks_stop:
  "header_start rest \<Longrightarrow> update_chunks rest ln n acc = Inr (acc, n)"
proof (cases rest)
  case (Cons l ls)
  assume "header_start rest"
  with Cons obtain t where "l = chr CHR ''*'' # t" by (cases l) (auto simp: header_start_def)
  moreover have "trim (chr CHR ''*'' # t) \<noteq> []"
  proof -
    have "\<exists>x \<in> set (chr CHR ''*'' # t). \<not> is_whitespace x" by (simp add: is_whitespace_def)
    then show ?thesis by (simp add: trim_def trim_start_def trim_end_def is_whitespace_def)
  qed
  ultimately show ?thesis using Cons by (subst update_chunks.simps) simp
qed (subst update_chunks.simps, simp)

lemma chunk_text_Cons:
  "\<exists>tl. chunk_text ch = context_text (case ch of Chunk ctx _ _ \<Rightarrow> ctx) # tl"
  by (cases ch) simp

lemma trim_context [simp]: "trim (context_text c) \<noteq> []"
  by (cases c) (simp_all add: trim_def trim_start_def trim_end_def marker_eval is_whitespace_def)

lemma update_chunks_text:
  assumes "list_all chunk_ok cs" and "header_start rest"
  shows "update_chunks (concat (map chunk_text cs) @ rest) ln n acc =
    Inr (acc @ map chunk_of cs, n + length (concat (map chunk_text cs)))"
  using assms(1)
proof (induction cs arbitrary: n acc)
  case Nil
  then show ?case by (simp add: update_chunks_stop assms(2))
next
  case (Cons ch cs)
  let ?rest = "concat (map chunk_text cs) @ rest"
  obtain ctx tl where hd: "chunk_text ch = context_text ctx # tl"
    using chunk_text_Cons by blast
  have nostar: "\<not> starts_with [chr CHR ''*''] (context_text ctx)"
    by (cases ctx) (simp_all add: marker_eval)
  have parse: "parse_update_file_chunk (chunk_text ch @ ?rest) k allow =
      Inr (chunk_of ch, length (chunk_text ch))" for k allow
    using Cons.prems assms(2) by (intro parse_chunk_text chunk_stop_chunks header_start_chunk_stop) auto
  have "update_chunks (chunk_text ch @ ?rest) ln n acc =
      update_chunks ?rest ln (n + length (chunk_text ch)) (acc @ [chunk_of ch])"
    using parse [of "ln + n" "acc = []"] nostar
    by (subst update_chunks.simps) (simp add: hd)
  then show ?case using Cons by (simp add: add.assoc)
qed

lemma add_lines_text:
  assumes "header_start rest"
  shows "add_lines (map (\<lambda>l. chr CHR ''+'' # l) ls @ rest) =
    (concat (map (\<lambda>l. l @ [newline]) ls), length ls)"
proof (induction ls)
  case Nil
  show ?case
  proof (cases rest)
    case (Cons l ls)
    then obtain t where "l = chr CHR ''*'' # t"
      using assms by (cases l) (auto simp: header_start_def)
    then show ?thesis using Cons by simp
  qed simp
qed simp

lemma parse_one_hunk_text:
  assumes "hunk_ok h" and "header_start rest"
  shows "\<exists>l0 tl. hunk_text h = l0 # tl \<and>
    parse_one_hunk l0 (tl @ rest) ln = Inr (hunk_of h, length (hunk_text h))"
proof (cases h)
  case (SAdd path ls)
  then show ?thesis using assms add_lines_text [OF assms(2), of ls] by (simp add: parse_one_hunk_def)
next
  case (SDelete path)
  then show ?thesis using assms by (simp add: parse_one_hunk_def)
next
  case (SUpdate path move cs)
  have chunks: "update_chunks (concat (map chunk_text cs) @ rest) ln k [] =
      Inr (map chunk_of cs, k + length (concat (map chunk_text cs)))" for k
    using assms SUpdate by (simp add: update_chunks_text)
  obtain ch cs' where "cs = ch # cs'" using assms(1) SUpdate by (cases cs) auto
  moreover obtain ctx tl where "chunk_text ch = context_text ctx # tl" using chunk_text_Cons by blast
  ultimately have first: "concat (map chunk_text cs) @ rest =
      context_text ctx # tl @ concat (map chunk_text cs') @ rest" by simp
  show ?thesis using assms SUpdate first chunks
    by (cases move) (auto simp: parse_one_hunk_def)
qed

lemma parse_hunks_text:
  "list_all hunk_ok hs \<Longrightarrow>
   parse_hunks (concat (map hunk_text hs)) ln acc = Inr (acc @ map hunk_of hs)"
proof (induction hs arbitrary: ln acc)
  case Nil
  then show ?case by (subst parse_hunks.simps) simp
next
  case (Cons h hs)
  obtain l0 tl where h: "hunk_text h = l0 # tl"
    and p: "parse_one_hunk l0 (tl @ concat (map hunk_text hs)) ln = Inr (hunk_of h, length (hunk_text h))"
    using parse_one_hunk_text [of h "concat (map hunk_text hs)" ln] Cons.prems header_start_hunks by auto
  have "parse_hunks (hunk_text h @ concat (map hunk_text hs)) ln acc =
      parse_hunks (concat (map hunk_text hs)) (ln + length (hunk_text h)) (acc @ [hunk_of h])"
    using p by (subst parse_hunks.simps) (simp add: h)
  then show ?case using Cons by simp
qed

lemma line_safe_hunk_text:
  assumes "hunk_ok h" shows "list_all line_safe (hunk_text h)"
proof -
  have hdr: "header_ok p \<Longrightarrow> newline \<notin> set m \<Longrightarrow> line_safe (m @ p)" for m p
    using header_ok_line_safe [of p] by (auto simp: header_ok_def intro: line_safe_append)
  have diff: "diff_ok d \<Longrightarrow> line_safe (diff_text d)" for d
    by (cases d) (auto simp: newline_def carriage_return_def)
  have ctx: "pred_option header_ok c \<Longrightarrow> line_safe (context_text c)" for c
    by (cases c) (auto intro: hdr)
  have chunk: "chunk_ok c \<Longrightarrow> list_all line_safe (chunk_text c)" for c
    by (cases c) (auto simp: list_all_iff intro: diff ctx)
  have move: "pred_option header_ok m \<Longrightarrow> list_all line_safe (move_text m)" for m
    by (cases m) (auto intro: hdr)
  have plus: "line_safe l \<Longrightarrow> line_safe (chr CHR ''+'' # l)" for l
    by (simp add: newline_def carriage_return_def)
  show ?thesis
  proof (cases h)
    case (SAdd path ls)
    then show ?thesis using assms plus by (auto simp: list_all_iff intro: hdr)
  next
    case (SDelete path)
    then show ?thesis using assms by (auto intro: hdr)
  next
    case (SUpdate path move cs)
    then show ?thesis using assms chunk move by (auto simp: list_all_iff intro: hdr)
  qed
qed

text \<open>A printed patch is its lines again after \<^verbatim>\<open>trim\<close> and \<^verbatim>\<open>lines\<close>.\<close>

lemma line_safe_patch_lines:
  assumes "patch_ok env hs" shows "list_all line_safe (patch_lines_of env hs)"
proof -
  have "list_all line_safe (env_text env)"
    using assms header_ok_line_safe
    by (cases env) (auto simp: patch_ok_def env_ok_def header_ok_def intro!: line_safe_append)
  moreover have "list_all line_safe (concat (map hunk_text hs))"
    using assms line_safe_hunk_text by (fastforce simp: patch_ok_def list_all_iff)
  ultimately show ?thesis by (simp add: patch_lines_of_def body_lines_def)
qed

lemma join_with_ends: "\<exists>mid. join_with sep (x # ys @ [z]) = x @ mid @ z"
proof (induction ys arbitrary: x)
  case Nil
  show ?case by (rule exI [of _ sep]) simp
next
  case (Cons y ys)
  obtain mid where "join_with sep (y # ys @ [z]) = y @ mid @ z" using Cons.IH by blast
  then have "join_with sep (x # (y # ys) @ [z]) = x @ (sep @ y @ mid) @ z" by simp
  then show ?case by blast
qed

lemma trim_render [simp]: "trim (render_patch env hs) = render_patch env hs"
proof -
  obtain mid where r: "render_patch env hs = BEGIN_PATCH_MARKER @ mid @ END_PATCH_MARKER"
    unfolding render_patch_def patch_lines_of_def using join_with_ends by blast
  have "ends_solid (BEGIN_PATCH_MARKER @ mid @ END_PATCH_MARKER)"
    by (simp add: ends_solid_def marker_eval is_whitespace_def)
  then show ?thesis unfolding r by (intro trim_id) simp_all
qed

lemma str_lines_render:
  "patch_ok env hs \<Longrightarrow> str_lines (render_patch env hs) = patch_lines_of env hs"
  unfolding render_patch_def
  by (rule str_lines_join) (simp_all add: line_safe_patch_lines, simp_all add: patch_lines_of_def)

lemma boundaries_patch_lines:
  "check_patch_boundaries_strict (patch_lines_of env hs) =
   Inr (patch_lines_of env hs, body_lines env hs)"
  by (simp add: check_patch_boundaries_strict_def patch_lines_of_def)

lemma preamble_body_lines:
  assumes "env_ok env" and "list_all hunk_ok hs"
  shows "parse_environment_id_preamble (body_lines env hs) =
    Inr (env, concat (map hunk_text hs), if env = None then 2 else 3)"
proof (cases env)
  case (Some e)
  then have "trim e = e" and "e \<noteq> []"
    using assms by (auto simp: env_ok_def header_ok_def intro: trim_id)
  then show ?thesis using Some by (simp add: parse_environment_id_preamble_def body_lines_def)
next
  case None
  show ?thesis
  proof (cases hs)
    case (Cons h hs')
    then show ?thesis using None
      by (cases h) (simp_all add: parse_environment_id_preamble_def body_lines_def)
  qed (simp add: None parse_environment_id_preamble_def body_lines_def)
qed

lemma parse_patch_render_lemma:
  assumes "patch_ok env hs"
  shows "parse_patch (render_patch env hs) =
    Inr \<lparr>patch_text = render_patch env hs, hunks = map hunk_of hs, workdir = None,
         environment_id = env\<rparr>"
  using assms
  by (simp add: parse_patch_def PARSE_IN_STRICT_MODE_def parse_patch_text_def str_lines_render
      check_patch_boundaries_lenient_def boundaries_patch_lines preamble_body_lines patch_ok_def
      parse_hunks_text render_patch_def [symmetric])

end
