(* ===== verification/Chunk_Stream.thy ===== *)
theory Chunk_Stream
  imports Main
begin

text \<open>
  The contract of a component that is fed its input piece by piece (the streaming patch
  parser, the tag parsers, the capped output buffer): what a client sees of its state depends
  on the input so far and not on how the input was cut. Each provider proves the laws of the
  locale for its own operations.
\<close>

locale chunk_stream =
  fixes inv :: "'s \<Rightarrow> bool"
    and push :: "'c list \<Rightarrow> 's \<Rightarrow> 's"
    and view :: "'s \<Rightarrow> 'v"
    and step :: "'c list \<Rightarrow> 'v \<Rightarrow> 'v"
  assumes inv_push: "inv s \<Longrightarrow> inv (push c s)"
    and view_push: "inv s \<Longrightarrow> view (push c s) = step c (view s)"
    and step_Nil: "inv s \<Longrightarrow> step [] (view s) = view s"
    and step_append: "inv s \<Longrightarrow> step (a @ b) (view s) = step b (step a (view s))"
begin

lemma inv_pushes: "inv s \<Longrightarrow> inv (fold push cs s)"
  by (induction cs arbitrary: s) (auto intro: inv_push)

lemma view_pushes: "inv s \<Longrightarrow> view (fold push cs s) = step (concat cs) (view s)"
proof (induction cs arbitrary: s)
  case (Cons c cs)
  then show ?case by (simp add: inv_push view_push step_append)
qed (simp add: step_Nil)

lemma one_push: "inv s \<Longrightarrow> view (fold push cs s) = view (push (concat cs) s)"
  by (simp add: view_pushes view_push)

lemma chunking_irrelevant:
  "inv s \<Longrightarrow> concat cs = concat ds \<Longrightarrow> view (fold push cs s) = view (fold push ds s)"
  by (simp add: view_pushes)

end

end
