(* ===== verification/Streaming_Parser.thy ===== *)
theory Streaming_Parser
  imports Patch_Grammar Chunk_Stream
begin

text \<open>
  \<^verbatim>\<open>apply-patch/src/streaming_parser.rs\<close>: the incremental parser that previews a patch while
  the model is still writing it. A method of \<^verbatim>\<open>StreamingPatchParser\<close> is a function from the
  parser to its result and the parser it leaves behind; \<open>process_line\<close> leaves the parser
  alone when it fails.
\<close>

section \<open>State and operations\<close>

datatype streaming_parser_mode =
    NotStarted
  | StartedPatch
  | ModeAddFile
  | ModeDeleteFile
  | ModeUpdateFile nat
  | EndedPatch

record streaming_patch_parser =
  line_buffer :: rstr
  mode :: streaming_parser_mode
  parsed_hunks :: "hunk list"
  line_no :: nat

definition default_parser :: streaming_patch_parser where
  "default_parser = \<lparr>line_buffer = [], mode = NotStarted, parsed_hunks = [], line_no = 0\<rparr>"

definition is_environment_id_preamble_line :: "rstr \<Rightarrow> bool" where
  "is_environment_id_preamble_line line = starts_with ENVIRONMENT_ID_MARKER line"

definition chunk_is_empty :: "update_file_chunk \<Rightarrow> bool" where
  "chunk_is_empty c \<longleftrightarrow> old_lines c = [] \<and> new_lines c = []"

definition last_chunk_empty :: "update_file_chunk list \<Rightarrow> bool" where
  "last_chunk_empty chunks \<longleftrightarrow> (case last_opt chunks of None \<Rightarrow> False | Some c \<Rightarrow> chunk_is_empty c)"

definition ensure_update_hunk_is_not_empty ::
    "streaming_patch_parser \<Rightarrow> rstr \<Rightarrow> parse_error + unit" where
  "ensure_update_hunk_is_not_empty p line =
     (case last_opt (parsed_hunks p) of
        Some (UpdateFile path _ chunks) \<Rightarrow>
          (case (chunks, mode p) of
             ([], ModeUpdateFile hunk_line_number) \<Rightarrow>
               Inl (InvalidHunkError (msg_update_empty path) hunk_line_number)
           | _ \<Rightarrow>
               if last_chunk_empty chunks then
                 (if line = END_PATCH_MARKER then Inl (InvalidHunkError msg_no_lines (line_no p))
                  else Inl (InvalidHunkError (msg_unexpected_line line) (line_no p)))
               else Inr ())
      | _ \<Rightarrow> Inr ())"

text \<open>\<open>Inr (Some p')\<close> is \<^verbatim>\<open>Ok(true)\<close> with the new parser, \<open>Inr None\<close> is \<^verbatim>\<open>Ok(false)\<close>.\<close>

definition handle_hunk_headers_and_end_patch ::
    "streaming_patch_parser \<Rightarrow> rstr \<Rightarrow> parse_error + streaming_patch_parser option" where
  "handle_hunk_headers_and_end_patch p trimmed =
     (if trimmed = END_PATCH_MARKER then
        (case ensure_update_hunk_is_not_empty p trimmed of
           Inl e \<Rightarrow> Inl e
         | Inr _ \<Rightarrow> Inr (Some (p\<lparr>mode := EndedPatch\<rparr>)))
      else case strip_prefix ADD_FILE_MARKER trimmed of
        Some path \<Rightarrow>
          (case ensure_update_hunk_is_not_empty p trimmed of
             Inl e \<Rightarrow> Inl e
           | Inr _ \<Rightarrow> Inr (Some (p\<lparr>parsed_hunks := parsed_hunks p @ [AddFile path []],
                                    mode := ModeAddFile\<rparr>)))
      | None \<Rightarrow>
      (case strip_prefix DELETE_FILE_MARKER trimmed of
        Some path \<Rightarrow>
          (case ensure_update_hunk_is_not_empty p trimmed of
             Inl e \<Rightarrow> Inl e
           | Inr _ \<Rightarrow> Inr (Some (p\<lparr>parsed_hunks := parsed_hunks p @ [DeleteFile path],
                                    mode := ModeDeleteFile\<rparr>)))
      | None \<Rightarrow>
      (case strip_prefix UPDATE_FILE_MARKER trimmed of
        Some path \<Rightarrow>
          (case ensure_update_hunk_is_not_empty p trimmed of
             Inl e \<Rightarrow> Inl e
           | Inr _ \<Rightarrow> Inr (Some (p\<lparr>parsed_hunks := parsed_hunks p @ [UpdateFile path None []],
                                    mode := ModeUpdateFile (line_no p)\<rparr>)))
      | None \<Rightarrow> Inr None)))"

text \<open>
  The four branches that add a body line create the first chunk on demand and then update
  the last one.
\<close>

definition on_last_chunk ::
    "(update_file_chunk \<Rightarrow> update_file_chunk) \<Rightarrow> update_file_chunk list \<Rightarrow> update_file_chunk list" where
  "on_last_chunk f chunks = map_last f (if chunks = [] then [empty_chunk None] else chunks)"

definition push_old :: "rstr \<Rightarrow> update_file_chunk \<Rightarrow> update_file_chunk" where
  "push_old l c = c\<lparr>old_lines := old_lines c @ [l]\<rparr>"

definition push_new :: "rstr \<Rightarrow> update_file_chunk \<Rightarrow> update_file_chunk" where
  "push_new l c = c\<lparr>new_lines := new_lines c @ [l]\<rparr>"

text \<open>
  The part of \<^verbatim>\<open>process_line\<close> that has the last hunk in hand: the new move path and chunks,
  or the error. \<open>None\<close> falls through to the last error of the branch.
\<close>

definition update_line_step ::
    "nat \<Rightarrow> rstr \<Rightarrow> path_buf option \<Rightarrow> update_file_chunk list \<Rightarrow>
     (parse_error + path_buf option \<times> update_file_chunk list) option" where
  "update_line_step ln line move_path chunks =
     (let update_line = trim_end line in
      if chunks = [] \<and> move_path = None \<and> starts_with MOVE_TO_MARKER update_line then
        Some (Inr (strip_prefix MOVE_TO_MARKER update_line, chunks))
      else if (update_line = EMPTY_CHANGE_CONTEXT_MARKER
               \<or> starts_with CHANGE_CONTEXT_MARKER update_line) \<and> last_chunk_empty chunks then
        Some (Inl (InvalidHunkError (msg_unexpected_line line) ln))
      else if update_line = EMPTY_CHANGE_CONTEXT_MARKER then
        Some (Inr (move_path, chunks @ [empty_chunk None]))
      else if starts_with CHANGE_CONTEXT_MARKER update_line then
        Some (Inr (move_path, chunks @ [empty_chunk (strip_prefix CHANGE_CONTEXT_MARKER update_line)]))
      else if update_line = EOF_MARKER then
        (if last_chunk_empty chunks then Some (Inl (InvalidHunkError msg_no_lines ln))
         else Some (Inr (move_path, map_last (\<lambda>c. c\<lparr>is_end_of_file := True\<rparr>) chunks)))
      else if line = [] then
        Some (Inr (move_path, on_last_chunk (push_new [] \<circ> push_old []) chunks))
      else case strip_prefix [chr CHR '' ''] line of
        Some l \<Rightarrow> Some (Inr (move_path, on_last_chunk (push_new l \<circ> push_old l) chunks))
      | None \<Rightarrow>
      (case strip_prefix [chr CHR ''+''] line of
        Some l \<Rightarrow> Some (Inr (move_path, on_last_chunk (push_new l) chunks))
      | None \<Rightarrow>
      (case strip_prefix [chr CHR ''-''] line of
        Some l \<Rightarrow> Some (Inr (move_path, on_last_chunk (push_old l) chunks))
      | None \<Rightarrow>
          if chunks \<noteq> [] \<and> \<not> last_chunk_empty chunks
          then Some (Inl (InvalidHunkError (msg_expected_context line) ln))
          else None)))"

definition process_line ::
    "rstr \<Rightarrow> streaming_patch_parser \<Rightarrow> parse_error + streaming_patch_parser" where
  "process_line line p =
     (let trimmed = trim line;
          bad_header = Inl (InvalidHunkError (msg_bad_header trimmed) (line_no p))
      in case mode p of
        NotStarted \<Rightarrow>
          if trimmed = BEGIN_PATCH_MARKER then Inr (p\<lparr>mode := StartedPatch\<rparr>)
          else Inl (InvalidPatchError msg_first_line)
      | StartedPatch \<Rightarrow>
          if is_environment_id_preamble_line line then Inr p
          else (case handle_hunk_headers_and_end_patch p trimmed of
                  Inl e \<Rightarrow> Inl e
                | Inr (Some p') \<Rightarrow> Inr p'
                | Inr None \<Rightarrow> bad_header)
      | ModeAddFile \<Rightarrow>
          (case handle_hunk_headers_and_end_patch p trimmed of
             Inl e \<Rightarrow> Inl e
           | Inr (Some p') \<Rightarrow> Inr p'
           | Inr None \<Rightarrow>
               (case (strip_prefix [chr CHR ''+''] line, last_opt (parsed_hunks p)) of
                  (Some line_to_add, Some (AddFile path contents)) \<Rightarrow>
                    Inr (p\<lparr>parsed_hunks :=
                      butlast (parsed_hunks p) @ [AddFile path (contents @ line_to_add @ [newline])]\<rparr>)
                | _ \<Rightarrow> bad_header))
      | ModeDeleteFile \<Rightarrow>
          (case handle_hunk_headers_and_end_patch p trimmed of
             Inl e \<Rightarrow> Inl e
           | Inr (Some p') \<Rightarrow> Inr p'
           | Inr None \<Rightarrow> bad_header)
      | ModeUpdateFile hunk_line_number \<Rightarrow>
          (case handle_hunk_headers_and_end_patch p (trim_end line) of
             Inl e \<Rightarrow> Inl e
           | Inr (Some p') \<Rightarrow> Inr p'
           | Inr None \<Rightarrow>
               (case last_opt (parsed_hunks p) of
                  Some (UpdateFile path move_path chunks) \<Rightarrow>
                    (case update_line_step (line_no p) line move_path chunks of
                       Some (Inl e) \<Rightarrow> Inl e
                     | Some (Inr (move_path', chunks')) \<Rightarrow>
                         Inr (p\<lparr>parsed_hunks :=
                                 butlast (parsed_hunks p) @ [UpdateFile path move_path' chunks'],
                                mode := ModeUpdateFile hunk_line_number\<rparr>)
                     | None \<Rightarrow> Inl (InvalidHunkError (msg_unexpected_line line) (line_no p)))
                | _ \<Rightarrow> Inl (InvalidHunkError (msg_unexpected_line line) (line_no p))))
      | EndedPatch \<Rightarrow> Inr p)"

text \<open>The character loop of \<^verbatim>\<open>push_delta\<close>: the first error, if any, and the parser.\<close>

fun push_chars ::
    "rstr \<Rightarrow> streaming_patch_parser \<Rightarrow> parse_error option \<times> streaming_patch_parser" where
  "push_chars [] p = (None, p)"
| "push_chars (ch # rest) p =
     (if ch = newline then
        (let line = strip_cr (line_buffer p);
             p1 = p\<lparr>line_buffer := [], line_no := line_no p + 1\<rparr>
         in case process_line line p1 of
              Inl e \<Rightarrow> (Some e, p1)
            | Inr p2 \<Rightarrow> push_chars rest p2)
      else push_chars rest (p\<lparr>line_buffer := line_buffer p @ [ch]\<rparr>))"

definition push_delta ::
    "rstr \<Rightarrow> streaming_patch_parser \<Rightarrow> (parse_error + hunk list) \<times> streaming_patch_parser" where
  "push_delta delta p =
     (case push_chars delta p of
        (Some e, p') \<Rightarrow> (Inl e, p')
      | (None, p') \<Rightarrow> (Inr (parsed_hunks p'), p'))"

definition finish_buffer ::
    "streaming_patch_parser \<Rightarrow> (parse_error + unit) \<times> streaming_patch_parser" where
  "finish_buffer p =
     (if line_buffer p = [] then (Inr (), p)
      else
        let line = line_buffer p;
            p1 = p\<lparr>line_buffer := [], line_no := line_no p + 1\<rparr>
        in if trim line = END_PATCH_MARKER then
             (case ensure_update_hunk_is_not_empty p1 (trim line) of
                Inl e \<Rightarrow> (Inl e, p1)
              | Inr _ \<Rightarrow> (Inr (), p1\<lparr>mode := EndedPatch\<rparr>))
           else (case process_line line p1 of
                   Inl e \<Rightarrow> (Inl e, p1)
                 | Inr p2 \<Rightarrow> (Inr (), p2)))"

definition finish ::
    "streaming_patch_parser \<Rightarrow> (parse_error + hunk list) \<times> streaming_patch_parser" where
  "finish p =
     (case finish_buffer p of
        (Inl e, p') \<Rightarrow> (Inl e, p')
      | (Inr _, p') \<Rightarrow>
          if mode p' \<noteq> EndedPatch then (Inl (InvalidPatchError msg_last_line), p')
          else (Inr (parsed_hunks p'), p'))"

section \<open>Cutting the input\<close>

text \<open>
  A client stops at the first error, so the stream it drives is the parser together with
  the error that ended it.
\<close>

definition push_run ::
    "rstr \<Rightarrow> parse_error option \<times> streaming_patch_parser \<Rightarrow> parse_error option \<times> streaming_patch_parser" where
  "push_run delta = (\<lambda>(err, p). case err of Some e \<Rightarrow> (Some e, p) | None \<Rightarrow> push_chars delta p)"

lemma push_chars_append:
  "push_chars (a @ b) p =
     (case push_chars a p of (Some e, p') \<Rightarrow> (Some e, p') | (None, p') \<Rightarrow> push_chars b p')"
  by (induction a p rule: push_chars.induct) (auto simp: Let_def split: sum.splits)

interpretation sp: chunk_stream "\<lambda>_. True" push_run "\<lambda>s. s" push_run
  by unfold_locales (auto simp: push_run_def push_chars_append split: option.splits prod.splits)

section \<open>Reading what the printer writes\<close>

text \<open>The parser between two lines.\<close>

abbreviation at_line :: "hunk list \<Rightarrow> streaming_parser_mode \<Rightarrow> nat \<Rightarrow> streaming_patch_parser" where
  "at_line hs m n \<equiv> \<lparr>line_buffer = [], mode = m, parsed_hunks = hs, line_no = n\<rparr>"

fun feed_lines :: "rstr list \<Rightarrow> streaming_patch_parser \<Rightarrow> parse_error + streaming_patch_parser" where
  "feed_lines [] p = Inr p"
| "feed_lines (l # ls) p =
     (case process_line l (p\<lparr>line_no := line_no p + 1\<rparr>) of Inl e \<Rightarrow> Inl e | Inr p' \<Rightarrow> feed_lines ls p')"

lemma feed_lines_append:
  "feed_lines (a @ b) p = (case feed_lines a p of Inl e \<Rightarrow> Inl e | Inr p' \<Rightarrow> feed_lines b p')"
  by (induction a p rule: feed_lines.induct) (auto split: sum.splits)

lemma feed_lines_appendI:
  "feed_lines a p = Inr p' \<Longrightarrow> feed_lines b p' = r \<Longrightarrow> feed_lines (a @ b) p = r"
  by (simp add: feed_lines_append)

lemma handle_headers_frame:
  assumes "handle_hunk_headers_and_end_patch p t = Inr (Some p')"
  shows "line_buffer p' = line_buffer p" and "line_no p' = line_no p"
  using assms unfolding handle_hunk_headers_and_end_patch_def
  by (auto split: if_splits option.splits sum.splits)

lemma process_line_frame:
  assumes "process_line l p = Inr p'"
  shows "line_buffer p' = line_buffer p" and "line_no p' = line_no p"
  using assms unfolding process_line_def Let_def
  by (auto split: streaming_parser_mode.splits if_splits sum.splits option.splits hunk.splits prod.splits
      dest: handle_headers_frame)

lemma push_chars_no_newline:
  "newline \<notin> set l \<Longrightarrow> push_chars (l @ rest) p = push_chars rest (p\<lparr>line_buffer := line_buffer p @ l\<rparr>)"
proof (induction l arbitrary: p)
  case (Cons c l)
  then have "c \<noteq> newline" by auto
  then show ?case using Cons by simp
qed simp

lemma push_chars_line:
  assumes "line_safe l" and "line_buffer p = []"
  shows "push_chars (l @ newline # rest) p =
    (case process_line l (p\<lparr>line_no := line_no p + 1\<rparr>) of
       Inl e \<Rightarrow> (Some e, p\<lparr>line_no := line_no p + 1\<rparr>)
     | Inr p2 \<Rightarrow> push_chars rest p2)"
proof -
  have nl: "newline \<notin> set l" using assms by (simp add: line_safe_def)
  show ?thesis
    using assms by (cases p) (simp add: push_chars_no_newline [OF nl] Let_def cong: sum.case_cong)
qed

lemma push_chars_lines:
  assumes "list_all line_safe ls" and "line_buffer p = []" and "feed_lines ls p = Inr p'"
  shows "push_chars (concat (map (\<lambda>l. l @ [newline]) ls) @ rest) p = push_chars rest p'
    \<and> line_buffer p' = []"
  using assms
proof (induction ls arbitrary: p)
  case (Cons l ls)
  obtain p1 where p1: "process_line l (p\<lparr>line_no := line_no p + 1\<rparr>) = Inr p1" "feed_lines ls p1 = Inr p'"
    using Cons.prems by (auto split: sum.splits)
  have "line_buffer p1 = []" using process_line_frame(1) [OF p1(1)] Cons.prems by simp
  then show ?case using Cons p1 by (simp add: push_chars_line)
qed simp

subsection \<open>Headers\<close>

definition settled_hunks :: "hunk list \<Rightarrow> bool" where
  "settled_hunks hs \<longleftrightarrow>
     (case last_opt hs of Some (UpdateFile _ _ cs) \<Rightarrow> cs \<noteq> [] \<and> \<not> last_chunk_empty cs | _ \<Rightarrow> True)"

definition header_mode :: "streaming_parser_mode \<Rightarrow> bool" where
  "header_mode m \<longleftrightarrow> m \<noteq> NotStarted \<and> m \<noteq> EndedPatch"

lemma ensure_settled: "settled_hunks (parsed_hunks p) \<Longrightarrow> ensure_update_hunk_is_not_empty p l = Inr ()"
  by (auto simp: ensure_update_hunk_is_not_empty_def settled_hunks_def
      split: option.splits hunk.splits list.splits)

lemma header_neq_end [simp]:
  "ADD_FILE_MARKER @ p \<noteq> END_PATCH_MARKER" "DELETE_FILE_MARKER @ p \<noteq> END_PATCH_MARKER"
  "UPDATE_FILE_MARKER @ p \<noteq> END_PATCH_MARKER"
  by (simp_all add: marker_eval)

lemma not_preamble [simp]:
  "\<not> is_environment_id_preamble_line (ADD_FILE_MARKER @ p)"
  "\<not> is_environment_id_preamble_line (DELETE_FILE_MARKER @ p)"
  "\<not> is_environment_id_preamble_line (UPDATE_FILE_MARKER @ p)"
  "\<not> is_environment_id_preamble_line END_PATCH_MARKER"
  by (simp_all add: is_environment_id_preamble_line_def marker_eval)

text \<open>In every mode that takes headers a header line is handled the same way.\<close>

lemma process_header:
  assumes "header_mode m" and "\<not> is_environment_id_preamble_line l" and "trim l = l" and "trim_end l = l"
    and "handle_hunk_headers_and_end_patch (at_line hs m n) l = Inr (Some p')"
  shows "process_line l (at_line hs m n) = Inr p'"
  using assms by (cases m) (auto simp: process_line_def header_mode_def Let_def)

lemma feed_headers:
  assumes "header_mode m" and "settled_hunks hs" and "header_ok path"
  shows "feed_lines [ADD_FILE_MARKER @ path] (at_line hs m n) =
      Inr (at_line (hs @ [AddFile path []]) ModeAddFile (n + 1))"
    and "feed_lines [DELETE_FILE_MARKER @ path] (at_line hs m n) =
      Inr (at_line (hs @ [DeleteFile path]) ModeDeleteFile (n + 1))"
    and "feed_lines [UPDATE_FILE_MARKER @ path] (at_line hs m n) =
      Inr (at_line (hs @ [UpdateFile path None []]) (ModeUpdateFile (n + 1)) (n + 1))"
  using assms
  by (simp_all add: process_header handle_hunk_headers_and_end_patch_def ensure_settled)

lemma process_end:
  assumes "header_mode m" and "settled_hunks hs"
  shows "process_line END_PATCH_MARKER (at_line hs m n) = Inr (at_line hs EndedPatch n)"
  using assms trim_ends(2)
  by (intro process_header)
    (simp_all add: handle_hunk_headers_and_end_patch_def ensure_settled,
     simp add: marker_eval trim_end_def is_whitespace_def)

subsection \<open>Bodies\<close>

definition not_starred :: "rstr \<Rightarrow> bool" where
  "not_starred s \<longleftrightarrow> s = [] \<or> hd s \<noteq> chr CHR ''*''"

lemma handle_not_starred: "not_starred s \<Longrightarrow> handle_hunk_headers_and_end_patch p s = Inr None"
  by (cases s) (auto simp: handle_hunk_headers_and_end_patch_def not_starred_def marker_eval)

lemma trim_end_Cons: "trim_end (c # l) = (if trim_end l = [] \<and> is_whitespace c then [] else c # trim_end l)"
  by (auto simp: trim_end_def dropWhile_append)

lemma feed_add_lines:
  "feed_lines (map (\<lambda>l. chr CHR ''+'' # l) ls) (at_line (hs @ [AddFile path c]) ModeAddFile n) =
   Inr (at_line (hs @ [AddFile path (c @ concat (map (\<lambda>l. l @ [newline]) ls))]) ModeAddFile (n + length ls))"
proof (induction ls arbitrary: c n)
  case (Cons l ls)
  have "not_starred (trim (chr CHR ''+'' # l))"
    by (simp add: trim_def trim_start_def is_whitespace_def trim_end_Cons not_starred_def)
  then show ?case using Cons [of "c @ l @ [newline]" "n + 1"]
    by (simp add: process_line_def handle_not_starred)
qed simp

lemma update_line_step_diff:
  "update_line_step n (diff_text d) mv (cs @ [c]) = Some (Inr (mv, cs @ [extend_chunk c [d]]))"
proof -
  have "trim_end (diff_text d) = [] \<or> hd (trim_end (diff_text d)) = hd (diff_text d)"
    by (cases d) (auto simp: trim_end_Cons)
  then have h: "trim_end (diff_text d) = [] \<or>
      (\<exists>x t. trim_end (diff_text d) = x # t \<and> x \<noteq> chr CHR ''*'' \<and> x \<noteq> chr CHR ''@'')"
    by (cases d; cases "trim_end (diff_text d)") auto
  then have neq: "trim_end (diff_text d) \<noteq> EMPTY_CHANGE_CONTEXT_MARKER"
    "\<not> starts_with CHANGE_CONTEXT_MARKER (trim_end (diff_text d))"
    "\<not> starts_with MOVE_TO_MARKER (trim_end (diff_text d))"
    "trim_end (diff_text d) \<noteq> EOF_MARKER"
    by (auto simp: marker_eval)
  show ?thesis unfolding update_line_step_def Let_def using neq
    by (cases d) (simp_all add: on_last_chunk_def push_old_def push_new_def extend_chunk_def)
qed

lemma process_update_line:
  assumes "not_starred (trim_end l)"
    and "update_line_step n l mv cs = Some (Inr (mv', cs'))"
  shows "process_line l (at_line (hs @ [UpdateFile path mv cs]) (ModeUpdateFile k) n) =
    Inr (at_line (hs @ [UpdateFile path mv' cs']) (ModeUpdateFile k) n)"
  using assms by (simp add: process_line_def handle_not_starred)

lemma feed_diff_lines:
  "feed_lines (map diff_text ds) (at_line (hs @ [UpdateFile path mv (cs @ [c])]) (ModeUpdateFile k) n) =
   Inr (at_line (hs @ [UpdateFile path mv (cs @ [extend_chunk c ds])]) (ModeUpdateFile k) (n + length ds))"
proof (induction ds arbitrary: c n)
  case (Cons d ds)
  have "not_starred (trim_end (diff_text d))"
    by (cases d) (auto simp: trim_end_Cons not_starred_def)
  from process_update_line [OF this update_line_step_diff]
  show ?case using Cons [of "extend_chunk c [d]" "n + 1"]
    by (simp add: extend_chunk_def)
qed (simp add: extend_chunk_simps)

lemma feed_context:
  assumes "pred_option header_ok ctx" and "\<not> last_chunk_empty cs"
  shows "feed_lines [context_text ctx] (at_line (hs @ [UpdateFile path mv cs]) (ModeUpdateFile k) n) =
    Inr (at_line (hs @ [UpdateFile path mv (cs @ [empty_chunk ctx])]) (ModeUpdateFile k) (n + 1))"
proof -
  have te: "trim_end (context_text ctx) = context_text ctx"
    using assms(1) by (cases ctx) (simp_all, simp add: marker_eval trim_end_def is_whitespace_def)
  have ns: "not_starred (context_text ctx)"
    by (cases ctx) (simp_all add: marker_eval not_starred_def)
  have "update_line_step m (context_text ctx) mv cs = Some (Inr (mv, cs @ [empty_chunk ctx]))" for m
    using assms(2) te
    by (cases ctx) (simp_all add: update_line_step_def marker_eval)
  then show ?thesis using te ns by (simp add: process_update_line)
qed

lemma feed_eof:
  assumes "\<not> chunk_is_empty c"
  shows "feed_lines [EOF_MARKER] (at_line (hs @ [UpdateFile path mv (cs @ [c])]) (ModeUpdateFile k) n) =
    Inr (at_line (hs @ [UpdateFile path mv (cs @ [c\<lparr>is_end_of_file := True\<rparr>])]) (ModeUpdateFile k) (n + 1))"
proof -
  have te: "trim_end EOF_MARKER = EOF_MARKER"
    by (simp add: marker_eval trim_end_def is_whitespace_def)
  have h: "handle_hunk_headers_and_end_patch p EOF_MARKER = Inr None" for p
    by (simp add: handle_hunk_headers_and_end_patch_def marker_eval)
  have "update_line_step m EOF_MARKER mv (cs @ [c]) =
      Some (Inr (mv, cs @ [c\<lparr>is_end_of_file := True\<rparr>]))" for m
    using assms te
    by (simp add: update_line_step_def last_chunk_empty_def, simp add: marker_eval)
  then show ?thesis using te h by (simp add: process_line_def)
qed

lemma chunk_of_nonempty:
  assumes "chunk_ok ch" shows "\<not> chunk_is_empty (chunk_of ch)"
proof (cases ch)
  case (Chunk ctx ls eof)
  then obtain d ds where "ls = d # ds" using assms by (cases ls) auto
  then show ?thesis using Chunk by (cases d) (simp_all add: chunk_is_empty_def)
qed

lemma feed_chunk:
  assumes "chunk_ok ch" and "\<not> last_chunk_empty cs"
  shows "feed_lines (chunk_text ch) (at_line (hs @ [UpdateFile path mv cs]) (ModeUpdateFile k) n) =
    Inr (at_line (hs @ [UpdateFile path mv (cs @ [chunk_of ch])]) (ModeUpdateFile k) (n + length (chunk_text ch)))"
proof (cases ch)
  case (Chunk ctx ls eof)
  let ?c = "extend_chunk (empty_chunk ctx) ls"
  have ch: "chunk_of ch = ?c\<lparr>is_end_of_file := eof\<rparr>"
    by (simp add: Chunk extend_chunk_def empty_chunk_def)
  have ne: "\<not> chunk_is_empty ?c"
    using chunk_of_nonempty [OF assms(1)] by (simp add: ch chunk_is_empty_def)
  have cid: "?c\<lparr>is_end_of_file := False\<rparr> = ?c"
    by (simp add: extend_chunk_def empty_chunk_def)
  have shape: "chunk_text ch = ([context_text ctx] @ map diff_text ls) @ (if eof then [EOF_MARKER] else [])"
    by (simp add: Chunk)
  have "pred_option header_ok ctx" using assms(1) Chunk by simp
  note body = feed_lines_appendI [OF feed_context [OF this assms(2)] feed_diff_lines]
  show ?thesis
  proof (cases eof)
    case True
    then show ?thesis using feed_lines_appendI [OF body feed_eof [OF ne]] by (simp add: shape ch)
  next
    case False
    then show ?thesis using body cid by (simp add: shape ch)
  qed
qed

lemma feed_chunks:
  assumes "list_all chunk_ok chs" and "\<not> last_chunk_empty cs"
  shows "feed_lines (concat (map chunk_text chs)) (at_line (hs @ [UpdateFile path mv cs]) (ModeUpdateFile k) n) =
    Inr (at_line (hs @ [UpdateFile path mv (cs @ map chunk_of chs)]) (ModeUpdateFile k)
      (n + length (concat (map chunk_text chs))))"
  using assms
proof (induction chs arbitrary: cs n)
  case (Cons ch chs)
  have "\<not> last_chunk_empty (cs @ [chunk_of ch])"
    using Cons.prems chunk_of_nonempty by (simp add: last_chunk_empty_def)
  from Cons.IH [OF _ this, of "n + length (chunk_text ch)"]
  show ?case using Cons.prems by (simp add: feed_lines_append feed_chunk add.assoc)
qed simp

lemma feed_move:
  assumes "pred_option header_ok mv"
  shows "feed_lines (move_text mv) (at_line (hs @ [UpdateFile path None []]) (ModeUpdateFile k) n) =
    Inr (at_line (hs @ [UpdateFile path mv []]) (ModeUpdateFile k) (n + length (move_text mv)))"
proof (cases mv)
  case (Some m)
  have te: "trim_end (MOVE_TO_MARKER @ m) = MOVE_TO_MARKER @ m" using assms Some by simp
  have "handle_hunk_headers_and_end_patch p (MOVE_TO_MARKER @ m) = Inr None" for p
    by (simp add: handle_hunk_headers_and_end_patch_def marker_eval)
  then show ?thesis using te Some by (simp add: process_line_def update_line_step_def)
qed simp

lemma feed_hunk:
  assumes "hunk_ok h" and "header_mode m" and "settled_hunks hs"
  shows "\<exists>m'. header_mode m' \<and> settled_hunks (hs @ [hunk_of h]) \<and>
    feed_lines (hunk_text h) (at_line hs m n) =
      Inr (at_line (hs @ [hunk_of h]) m' (n + length (hunk_text h)))"
proof (cases h)
  case (SAdd path ls)
  have "feed_lines ([ADD_FILE_MARKER @ path] @ map (\<lambda>l. chr CHR ''+'' # l) ls) (at_line hs m n) =
      Inr (at_line (hs @ [AddFile path ([] @ concat (map (\<lambda>l. l @ [newline]) ls))]) ModeAddFile (n + 1 + length ls))"
    by (rule feed_lines_appendI [OF feed_headers(1) feed_add_lines]) (use assms SAdd in auto)
  then show ?thesis
    by (intro exI [of _ ModeAddFile]) (simp add: SAdd header_mode_def settled_hunks_def)
next
  case (SDelete path)
  then show ?thesis using assms feed_headers(2) [OF assms(2,3), of path n]
    by (intro exI [of _ ModeDeleteFile]) (simp add: header_mode_def settled_hunks_def)
next
  case (SUpdate path mv cs)
  have ok: "header_ok path" "pred_option header_ok mv" "cs \<noteq> []" "list_all chunk_ok cs"
    using assms SUpdate by auto
  let ?m = "ModeUpdateFile (n + 1)" and ?t = "concat (map chunk_text cs)"
  have "feed_lines ([UPDATE_FILE_MARKER @ path] @ move_text mv @ ?t) (at_line hs m n) =
      Inr (at_line (hs @ [UpdateFile path mv ([] @ map chunk_of cs)]) ?m (n + 1 + length (move_text mv) + length ?t))"
    by (rule feed_lines_appendI [OF feed_headers(3)], rule assms, rule assms, rule ok,
        rule feed_lines_appendI [OF feed_move feed_chunks])
      (use ok in \<open>auto simp: last_chunk_empty_def\<close>)
  moreover have "\<not> last_chunk_empty (map chunk_of cs)"
    using ok(3,4) chunk_of_nonempty by (cases cs rule: rev_cases) (auto simp: last_chunk_empty_def)
  ultimately show ?thesis using ok(3)
    by (intro exI [of _ ?m]) (simp add: SUpdate header_mode_def settled_hunks_def add.assoc)
qed

lemma feed_hunks:
  assumes "list_all hunk_ok hs" and "header_mode m" and "settled_hunks acc"
  shows "\<exists>m'. header_mode m' \<and> settled_hunks (acc @ map hunk_of hs) \<and>
    feed_lines (concat (map hunk_text hs)) (at_line acc m n) =
      Inr (at_line (acc @ map hunk_of hs) m' (n + length (concat (map hunk_text hs))))"
  using assms
proof (induction hs arbitrary: acc m n)
  case (Cons h hs)
  obtain m1 where m1: "header_mode m1" "settled_hunks (acc @ [hunk_of h])"
    "feed_lines (hunk_text h) (at_line acc m n) =
       Inr (at_line (acc @ [hunk_of h]) m1 (n + length (hunk_text h)))"
    using feed_hunk [of h m acc n] Cons.prems by auto
  from Cons.IH [OF _ m1(1,2), of "n + length (hunk_text h)"] Cons.prems
  show ?case using m1(3) by (auto simp: feed_lines_append add.assoc)
qed auto

end
