(* ===== verification/Streaming_Correct.thy ===== *)
theory Streaming_Correct
  imports Streaming_Parser
begin

text \<open>
  What the streaming parser makes of a whole patch, and what holds in every state a client
  can bring it to.
\<close>

section \<open>Whole patches\<close>

lemma feed_patch_lines:
  assumes "patch_ok env hs"
  shows "\<exists>m n. header_mode m \<and> settled_hunks (map hunk_of hs) \<and>
    feed_lines (BEGIN_PATCH_MARKER # body_lines env hs) default_parser = Inr (at_line (map hunk_of hs) m n)"
proof -
  have first: "feed_lines [BEGIN_PATCH_MARKER] default_parser = Inr (at_line [] StartedPatch 1)"
    by (simp add: process_line_def default_parser_def)
  have env: "feed_lines (env_text env) (at_line [] StartedPatch 1) =
      Inr (at_line [] StartedPatch (1 + length (env_text env)))"
    by (cases env) (simp_all add: process_line_def is_environment_id_preamble_line_def)
  obtain m where m: "header_mode m" "settled_hunks ([] @ map hunk_of hs)"
    "feed_lines (concat (map hunk_text hs)) (at_line [] StartedPatch (1 + length (env_text env))) =
      Inr (at_line ([] @ map hunk_of hs) m (1 + length (env_text env) + length (concat (map hunk_text hs))))"
    using feed_hunks [where acc = "[]" and m = StartedPatch and hs = hs and n = "1 + length (env_text env)"] assms
    by (auto simp: patch_ok_def header_mode_def settled_hunks_def)
  have "feed_lines ([BEGIN_PATCH_MARKER] @ env_text env @ concat (map hunk_text hs)) default_parser =
      Inr (at_line ([] @ map hunk_of hs) m (1 + length (env_text env) + length (concat (map hunk_text hs))))"
    by (rule feed_lines_appendI [OF first feed_lines_appendI [OF env m(3)]])
  then show ?thesis using m(1,2) by (auto simp: body_lines_def)
qed

lemma push_render:
  assumes "patch_ok env hs"
  shows "\<exists>p. push_chars (render_patch env hs) default_parser = (None, p) \<and>
    fst (finish p) = Inr (map hunk_of hs)"
proof -
  obtain m n where m: "header_mode m" "settled_hunks (map hunk_of hs)"
    and f: "feed_lines (BEGIN_PATCH_MARKER # body_lines env hs) default_parser = Inr (at_line (map hunk_of hs) m n)"
    using feed_patch_lines [OF assms] by blast
  have safe: "list_all line_safe (BEGIN_PATCH_MARKER # body_lines env hs)"
    using line_safe_patch_lines [OF assms] by (simp add: patch_lines_of_def)
  have r: "render_patch env hs =
      concat (map (\<lambda>l. l @ [newline]) (BEGIN_PATCH_MARKER # body_lines env hs)) @ END_PATCH_MARKER"
    unfolding render_patch_def patch_lines_of_def
    using join_with_snoc [of newline "BEGIN_PATCH_MARKER # body_lines env hs" END_PATCH_MARKER] by simp
  have "push_chars (render_patch env hs) default_parser =
      push_chars (END_PATCH_MARKER @ []) (at_line (map hunk_of hs) m n)"
    unfolding r using push_chars_lines [OF safe _ f] by (simp add: default_parser_def)
  also have "\<dots> = (None, (at_line (map hunk_of hs) m n)\<lparr>line_buffer := END_PATCH_MARKER\<rparr>)"
    by (simp only: push_chars_no_newline [OF no_newline_markers(2)]) simp
  finally show ?thesis
    using m(2) by (simp add: finish_def finish_buffer_def ensure_settled)
qed

section \<open>Reachable states\<close>

fun hunk_wf :: "hunk \<Rightarrow> bool" where
  "hunk_wf (UpdateFile _ _ chunks) = (chunks \<noteq> [] \<and> list_all (\<lambda>c. \<not> chunk_is_empty c) chunks)"
| "hunk_wf _ = True"

text \<open>
  The mode says what the last hunk is, and only the last chunk of the last hunk may still be
  empty.
\<close>

definition stream_inv :: "streaming_patch_parser \<Rightarrow> bool" where
  "stream_inv p \<longleftrightarrow>
     list_all hunk_wf (butlast (parsed_hunks p)) \<and>
     (case mode p of
        NotStarted \<Rightarrow> parsed_hunks p = []
      | StartedPatch \<Rightarrow> parsed_hunks p = []
      | ModeAddFile \<Rightarrow> (\<exists>path c. last_opt (parsed_hunks p) = Some (AddFile path c))
      | ModeDeleteFile \<Rightarrow> (\<exists>path. last_opt (parsed_hunks p) = Some (DeleteFile path))
      | ModeUpdateFile _ \<Rightarrow>
          (\<exists>path mv cs. last_opt (parsed_hunks p) = Some (UpdateFile path mv cs) \<and>
             list_all (\<lambda>c. \<not> chunk_is_empty c) (butlast cs))
      | EndedPatch \<Rightarrow> list_all hunk_wf (parsed_hunks p))"

inductive stream_reachable :: "streaming_patch_parser \<Rightarrow> bool" where
  start: "stream_reachable default_parser"
| delta: "stream_reachable p \<Longrightarrow> stream_reachable (snd (push_delta d p))"
| finish: "stream_reachable p \<Longrightarrow> stream_reachable (snd (finish p))"

lemma ensure_wf:
  assumes "stream_inv p" and "mode p \<noteq> EndedPatch" and "ensure_update_hunk_is_not_empty p l = Inr ()"
  shows "list_all hunk_wf (parsed_hunks p)"
proof (cases "parsed_hunks p" rule: rev_cases)
  case (snoc hs h)
  have "hunk_wf h"
  proof (cases h)
    case (UpdateFile path mv cs)
    with snoc assms(1,2) obtain k where "mode p = ModeUpdateFile k"
      "list_all (\<lambda>c. \<not> chunk_is_empty c) (butlast cs)"
      by (auto simp: stream_inv_def split: streaming_parser_mode.splits)
    moreover have "cs \<noteq> []" "\<not> last_chunk_empty cs"
      using assms(3) snoc UpdateFile calculation(1)
      by (auto simp: ensure_update_hunk_is_not_empty_def split: list.splits if_splits)
    ultimately show ?thesis
      by (cases cs rule: rev_cases) (auto simp: UpdateFile last_chunk_empty_def)
  qed auto
  then show ?thesis using assms(1) snoc by (simp add: stream_inv_def)
qed simp

lemma handle_headers_inv:
  assumes "stream_inv p" and "mode p \<noteq> EndedPatch"
    and "handle_hunk_headers_and_end_patch p t = Inr (Some p')"
  shows "stream_inv p'"
  using assms(3) ensure_wf [OF assms(1,2), of t]
  unfolding handle_hunk_headers_and_end_patch_def
  by (auto simp: stream_inv_def list_all_butlast split: if_splits option.splits sum.splits)

lemma chunks_push:
  assumes "list_all (\<lambda>c. \<not> chunk_is_empty c) (butlast cs)" and "\<not> last_chunk_empty cs"
  shows "list_all (\<lambda>c. \<not> chunk_is_empty c) cs"
  using assms by (cases cs rule: rev_cases) (auto simp: last_chunk_empty_def)

lemma update_line_step_inv:
  assumes "update_line_step n l mv cs = Some (Inr (mv', cs'))"
    and "list_all (\<lambda>c. \<not> chunk_is_empty c) (butlast cs)"
  shows "list_all (\<lambda>c. \<not> chunk_is_empty c) (butlast cs')"
proof -
  have last: "butlast (map_last f xs) = butlast xs" for f :: "update_file_chunk \<Rightarrow> update_file_chunk" and xs
    by (simp add: map_last_def)
  have on_last: "butlast (on_last_chunk f xs) = butlast xs" for f xs
    by (simp add: on_last_chunk_def last)
  show ?thesis
    using assms chunks_push [OF assms(2)]
    by (auto simp: update_line_step_def Let_def last on_last split: if_splits option.splits)
qed

lemma process_line_inv:
  assumes "stream_inv p" and "process_line l p = Inr p'"
  shows "stream_inv p'"
proof (cases "mode p")
  case NotStarted
  with assms show ?thesis by (auto simp: process_line_def stream_inv_def split: if_splits)
next
  case StartedPatch
  then show ?thesis using assms handle_headers_inv [OF assms(1), of "trim l"]
    by (simp add: process_line_def Let_def split: if_splits sum.splits option.splits)
next
  case ModeDeleteFile
  then show ?thesis using assms handle_headers_inv [OF assms(1), of "trim l"]
    by (simp add: process_line_def Let_def split: if_splits sum.splits option.splits)
next
  case EndedPatch
  then show ?thesis using assms by (simp add: process_line_def)
next
  case ModeAddFile
  show ?thesis
  proof (cases "handle_hunk_headers_and_end_patch p (trim l)")
    case (Inr r)
    then show ?thesis
    proof (cases r)
      case None
      then show ?thesis using assms Inr ModeAddFile
        by (auto simp: process_line_def Let_def stream_inv_def split: option.splits hunk.splits)
    next
      case (Some q)
      then show ?thesis using assms Inr ModeAddFile handle_headers_inv [of p "trim l" q]
        by (simp add: process_line_def Let_def)
    qed
  qed (use assms ModeAddFile in \<open>simp add: process_line_def Let_def\<close>)
next
  case (ModeUpdateFile k)
  show ?thesis
  proof (cases "handle_hunk_headers_and_end_patch p (trim_end l)")
    case (Inr r)
    then show ?thesis
    proof (cases r)
      case None
      then show ?thesis using assms Inr ModeUpdateFile
        by (auto simp: process_line_def Let_def stream_inv_def
            split: option.splits hunk.splits sum.splits intro: update_line_step_inv)
    next
      case (Some q)
      then show ?thesis using assms Inr ModeUpdateFile handle_headers_inv [of p "trim_end l" q]
        by (simp add: process_line_def Let_def)
    qed
  qed (use assms ModeUpdateFile in \<open>simp add: process_line_def Let_def\<close>)
qed

lemma stream_inv_frame [simp]:
  "stream_inv (p\<lparr>line_buffer := b, line_no := n\<rparr>) = stream_inv p"
  "stream_inv (p\<lparr>line_buffer := b\<rparr>) = stream_inv p"
  by (simp_all add: stream_inv_def cong: streaming_parser_mode.case_cong)

lemma push_chars_inv: "stream_inv p \<Longrightarrow> stream_inv (snd (push_chars d p))"
proof (induction d arbitrary: p)
  case (Cons c d)
  let ?p1 = "p\<lparr>line_buffer := [], line_no := line_no p + 1\<rparr>"
  show ?case
  proof (cases "process_line (strip_cr (line_buffer p)) ?p1")
    case (Inr p2)
    then have "stream_inv p2" using process_line_inv [of ?p1] Cons.prems by simp
    then show ?thesis using Cons Inr by (simp add: Let_def)
  qed (use Cons in \<open>simp add: Let_def\<close>)
qed simp

lemma finish_buffer_inv:
  assumes "stream_inv p"
  shows "stream_inv (snd (finish_buffer p))"
proof -
  define p1 where "p1 = p\<lparr>line_buffer := [], line_no := line_no p + 1\<rparr>"
  have inv1: "stream_inv p1" using assms by (simp add: p1_def)
  have ended: "stream_inv (p1\<lparr>mode := EndedPatch\<rparr>)" if "ensure_update_hunk_is_not_empty p1 t = Inr ()" for t
  proof (cases "mode p1 = EndedPatch")
    case True
    then show ?thesis using inv1 by (simp add: stream_inv_def)
  next
    case False
    then show ?thesis using ensure_wf [OF inv1 _ that] inv1 by (simp add: stream_inv_def)
  qed
  show ?thesis
    unfolding finish_buffer_def Let_def p1_def [symmetric]
    using assms inv1 ended [of "trim (line_buffer p)"] process_line_inv [OF inv1, of "line_buffer p"]
    by (auto split: sum.splits)
qed

lemma reachable_inv: "stream_reachable p \<Longrightarrow> stream_inv p"
proof (induction rule: stream_reachable.induct)
  case start
  show ?case by (simp add: stream_inv_def default_parser_def)
next
  case (delta p d)
  then show ?case using push_chars_inv [of p d]
    by (auto simp: push_delta_def split: prod.splits option.splits)
next
  case (finish p)
  then show ?case using finish_buffer_inv [of p]
    by (auto simp: finish_def split: prod.splits sum.splits)
qed

lemma finish_ok_wf:
  assumes "stream_reachable p" and "fst (finish p) = Inr hs"
  shows "list_all hunk_wf hs"
  using assms(2) finish_buffer_inv [OF reachable_inv [OF assms(1)]]
  by (auto simp: finish_def stream_inv_def split: prod.splits sum.splits if_splits)

section \<open>The batch parser returns well-formed hunks\<close>

lemma chunk_body_nonempty:
  "chunk_body ln lines chunk n = Inr (chunk', m) \<Longrightarrow> 0 < n \<longrightarrow> \<not> chunk_is_empty chunk \<Longrightarrow>
   lines \<noteq> [] \<or> 0 < n \<Longrightarrow> \<not> chunk_is_empty chunk'"
proof (induction ln lines chunk n arbitrary: chunk' m rule: chunk_body.induct)
  case (2 line_number line rest chunk parsed)
  note IH = "2.IH"
  show ?case
  proof (cases line)
    case Nil
    then have "line \<noteq> EOF_MARKER" by (simp add: marker_eval)
    then show ?thesis using "2.prems"(1) IH(1) Nil by (simp add: chunk_is_empty_def)
  next
    case (Cons c t)
    then show ?thesis using "2.prems" IH(2-4)
      by (auto simp: chunk_is_empty_def split: if_splits)
  qed
qed (simp add: chunk_is_empty_def)

lemma parse_update_file_chunk_nonempty:
  "parse_update_file_chunk lines ln allow = Inr (chunk, n) \<Longrightarrow> \<not> chunk_is_empty chunk"
  unfolding parse_update_file_chunk_def
  by (auto split: list.splits sum.splits if_splits prod.splits dest!: chunk_body_nonempty)

lemma update_chunks_nonempty:
  "update_chunks ls ln n cs = Inr (cs', m) \<Longrightarrow> list_all (\<lambda>c. \<not> chunk_is_empty c) cs \<Longrightarrow>
   list_all (\<lambda>c. \<not> chunk_is_empty c) cs'"
proof (induction ls ln n cs arbitrary: cs' m rule: update_chunks.induct)
  case (1 remaining_lines line_number parsed_lines chunks)
  show ?case
    using "1.prems" "1.IH" parse_update_file_chunk_nonempty
    by (subst (asm) update_chunks.simps)
      (fastforce split: list.splits if_splits sum.splits prod.splits)
qed

lemma parse_one_hunk_wf: "parse_one_hunk l rest ln = Inr (h, n) \<Longrightarrow> hunk_wf h"
  unfolding parse_one_hunk_def Let_def
  by (auto split: option.splits sum.splits if_splits prod.splits dest!: update_chunks_nonempty)

lemma parse_hunks_wf: "parse_hunks ls ln acc = Inr hs \<Longrightarrow> list_all hunk_wf acc \<Longrightarrow> list_all hunk_wf hs"
proof (induction ls ln acc arbitrary: hs rule: parse_hunks.induct)
  case (1 remaining_lines line_number acc)
  show ?case
    using "1.prems" "1.IH" parse_one_hunk_wf
    by (subst (asm) parse_hunks.simps) (fastforce split: list.splits sum.splits prod.splits)
qed

lemma parse_patch_hunks_wf: "parse_patch s = Inr args \<Longrightarrow> list_all hunk_wf (hunks args)"
  unfolding parse_patch_def parse_patch_text_def Let_def
  by (auto split: sum.splits prod.splits dest: parse_hunks_wf)

section \<open>Properties\<close>

definition demo_hunks :: "hunk_syntax list" where
  "demo_hunks =
     [SAdd (lit ''a.txt'') [lit ''x'', []],
      SDelete (lit ''b''),
      SUpdate (lit ''c'') (Some (lit ''d''))
        [Chunk (Some (lit ''fn'')) [Keep (lit ''k''), Minus (lit ''o''), Plus (lit ''n'')] True,
         Chunk None [Plus (lit ''last'')] False]]"

lemma demo_ok: "patch_ok (Some (lit ''env'')) demo_hunks"
  by (simp add: patch_ok_def env_ok_def demo_hunks_def header_ok_def ends_solid_def starts_solid_def
      is_whitespace_def newline_def line_safe_def carriage_return_def rust_eval)

text \<open>
  C1: Round trip. A patch printed from a well-formed syntax tree (any sequence of add, delete,
  update and move hunks, any chunks, with or without an environment id) is read back by
  \<^verbatim>\<open>parse_patch\<close> as the hunks the tree denotes, with the environment id and the patch text.
\<close>

theorem parse_patch_render:
  assumes "patch_ok env hs"
  shows "parse_patch (render_patch env hs) =
    Inr \<lparr>patch_text = render_patch env hs, hunks = map hunk_of hs, workdir = None, environment_id = env\<rparr>"
  by (rule parse_patch_render_lemma [OF assms])

theorem parse_patch_render_witness:
  "parse_patch (render_patch (Some (lit ''env'')) demo_hunks) =
    Inr \<lparr>patch_text = render_patch (Some (lit ''env'')) demo_hunks, hunks = map hunk_of demo_hunks,
      workdir = None, environment_id = Some (lit ''env'')\<rparr>"
  by (rule parse_patch_render [OF demo_ok])

text \<open>
  C4: The streaming parser agrees with the batch parser. However the text of a well-formed
  patch is cut into deltas, pushing them never fails and \<^verbatim>\<open>finish\<close> returns the hunks that
  \<^verbatim>\<open>parse_patch\<close> returns for the whole text.
\<close>

theorem streaming_matches_batch:
  assumes "patch_ok env hs" and "concat ds = render_patch env hs"
  shows "\<exists>p args. fold push_run ds (None, default_parser) = (None, p) \<and>
    parse_patch (concat ds) = Inr args \<and> fst (finish p) = Inr (hunks args)"
proof -
  obtain p where p: "push_chars (render_patch env hs) default_parser = (None, p)"
    "fst (finish p) = Inr (map hunk_of hs)"
    using push_render [OF assms(1)] by blast
  have "fold push_run ds (None, default_parser) = push_run (concat ds) (None, default_parser)"
    by (rule sp.one_push) simp
  also have "\<dots> = (None, p)" using p(1) assms(2) by (simp add: push_run_def)
  finally show ?thesis using p(2) assms(2) parse_patch_render_lemma [OF assms(1)] by simp
qed

theorem streaming_matches_batch_witness:
  "\<exists>p args.
    fold push_run (map (\<lambda>c. [c]) (render_patch (Some (lit ''env'')) demo_hunks)) (None, default_parser) = (None, p) \<and>
    parse_patch (render_patch (Some (lit ''env'')) demo_hunks) = Inr args \<and> fst (finish p) = Inr (hunks args)"
  using streaming_matches_batch [OF demo_ok, of "map (\<lambda>c. [c]) (render_patch (Some (lit ''env'')) demo_hunks)"]
  by simp

text \<open>
  The stream read line by line: a client that hands over deltas until the first error, and the lines
  of a text, each without the carriage return before its newline.
\<close>

fun push_deltas :: "rstr list \<Rightarrow> streaming_patch_parser \<Rightarrow> parse_error + hunk list \<times> streaming_patch_parser" where
  "push_deltas [] p = Inr (parsed_hunks p, p)"
| "push_deltas (d # ds) p =
     (case push_delta d p of
        (Inl e, _) \<Rightarrow> Inl e
      | (Inr hs, p') \<Rightarrow> if ds = [] then Inr (hs, p') else push_deltas ds p')"

definition without_cr :: "rstr \<Rightarrow> rstr" where
  "without_cr l = (if l \<noteq> [] \<and> last l = carriage_return then butlast l else l)"

definition read_lines :: "rstr \<Rightarrow> streaming_patch_parser \<Rightarrow> parse_error + streaming_patch_parser" where
  "read_lines s p =
     (case feed_lines (map without_cr (butlast (split_on newline s))) p of
        Inl e \<Rightarrow> Inl e
      | Inr p' \<Rightarrow> Inr (p'\<lparr>line_buffer := last (split_on newline s)\<rparr>))"

lemma strip_cr_without: "strip_cr l = without_cr l"
  by (cases l rule: rev_cases) (auto simp: strip_cr_def without_cr_def strip_suffix_Some_iff split: option.splits)

lemma push_chars_reads:
  "newline \<notin> set (line_buffer p) \<Longrightarrow>
   (case push_chars d p of (Some e, _) \<Rightarrow> Inl e | (None, p') \<Rightarrow> Inr p') = read_lines (line_buffer p @ d) (p\<lparr>line_buffer := []\<rparr>)"
proof (induction d arbitrary: p)
  case Nil
  then show ?case by (simp add: read_lines_def split_on_no_sep)
next
  case (Cons c d)
  show ?case
  proof (cases "c = newline")
    case True
    let ?p1 = "p\<lparr>line_buffer := [], line_no := line_no p + 1\<rparr>"
    have split: "split_on newline (line_buffer p @ newline # d) = line_buffer p # split_on newline d"
      using Cons.prems by (simp add: split_on_append_sep)
    show ?thesis
    proof (cases "process_line (strip_cr (line_buffer p)) ?p1")
      case (Inl e)
      then show ?thesis by (simp add: True split read_lines_def strip_cr_without)
    next
      case (Inr p2)
      then have buf: "line_buffer p2 = []" using process_line_frame(1) by fastforce
      then have same: "p2\<lparr>line_buffer := []\<rparr> = p2" by simp
      have "(case push_chars d p2 of (Some e, _) \<Rightarrow> Inl e | (None, p') \<Rightarrow> Inr p') = read_lines d p2"
        using Cons.IH [of p2, unfolded same] buf by simp
      then show ?thesis using Inr
        by (simp add: True split read_lines_def strip_cr_without [symmetric] cong: sum.case_cong)
    qed
  next
    case False
    then show ?thesis using Cons.IH [of "p\<lparr>line_buffer := line_buffer p @ [c]\<rparr>"] Cons.prems by simp
  qed
qed

lemma push_deltas_chars:
  "push_deltas ds p = (case push_chars (concat ds) p of (Some e, _) \<Rightarrow> Inl e | (None, p') \<Rightarrow> Inr (parsed_hunks p', p'))"
proof (induction ds arbitrary: p)
  case (Cons d ds)
  then show ?case
    by (cases ds) (auto simp: push_delta_def push_chars_append split: option.splits prod.splits)
qed simp

text \<open>
  C14: The streaming parser reads lines. Whatever the deltas, complete or cut anywhere, handing them to
  \<^verbatim>\<open>push_delta\<close> until the first error has the outcome of splitting their whole text at the newlines and
  processing the complete lines in order, each once, without the carriage return at its end and with
  its own number; the rest after the last newline is kept in the buffer, and the hunks reported are
  those of the parser at the end.
\<close>

theorem push_delta_reads_lines:
  "push_deltas ds default_parser =
     (case read_lines (concat ds) default_parser of Inl e \<Rightarrow> Inl e | Inr p \<Rightarrow> Inr (parsed_hunks p, p))"
proof -
  have "read_lines (concat ds) default_parser = (case push_chars (concat ds) default_parser of (Some e, _) \<Rightarrow> Inl e | (None, p') \<Rightarrow> Inr p')"
    using push_chars_reads [of default_parser "concat ds"] by (simp add: default_parser_def)
  then show ?thesis
    unfolding push_deltas_chars by (cases "push_chars (concat ds) default_parser") (simp split: option.splits)
qed

text \<open>
  C15: Invariant of the streaming parser. In every state that deltas and calls of \<^verbatim>\<open>finish\<close> can
  reach, after errors too, the mode names the kind of the last hunk, all hunks before the
  last are complete, and all chunks before the last chunk are not empty.
\<close>

theorem streaming_parser_invariant:
  assumes "stream_reachable p"
  shows "stream_inv p"
  by (rule reachable_inv [OF assms])

theorem streaming_parser_invariant_witness:
  "stream_inv (snd (finish (snd (push_delta (lit ''*** Begin'') default_parser))))"
  by (intro streaming_parser_invariant stream_reachable.intros)

text \<open>
  Neither parser ever hands out an empty update. Every update hunk of a successful
  \<^verbatim>\<open>parse_patch\<close>, of any text, has at least one chunk, and every chunk has a line.
\<close>

theorem parse_patch_wf:
  assumes "parse_patch s = Inr args"
  shows "list_all hunk_wf (hunks args)"
  by (rule parse_patch_hunks_wf [OF assms])

theorem parse_patch_wf_witness:
  "list_all hunk_wf (map hunk_of demo_hunks)"
  using parse_patch_wf [OF parse_patch_render_lemma [OF demo_ok]] by simp

text \<open>
  The same for the streaming parser: when \<^verbatim>\<open>finish\<close> succeeds in a reachable state, every
  update hunk it returns is complete.
\<close>

theorem finish_wf:
  assumes "stream_reachable p" and "fst (finish p) = Inr hs"
  shows "list_all hunk_wf hs"
  by (rule finish_ok_wf [OF assms])

lemma demo_stream: "\<exists>p. stream_reachable p \<and> fst (finish p) = Inr (map hunk_of demo_hunks)"
proof -
  obtain p where "push_chars (render_patch (Some (lit ''env'')) demo_hunks) default_parser = (None, p)"
    "fst (finish p) = Inr (map hunk_of demo_hunks)"
    using push_render [OF demo_ok] by blast
  then show ?thesis
    using stream_reachable.delta [OF stream_reachable.start, of "render_patch (Some (lit ''env'')) demo_hunks"]
    by (auto simp: push_delta_def)
qed

theorem finish_wf_witness: "list_all hunk_wf (map hunk_of demo_hunks)"
  using demo_stream finish_wf by blast

end
