(* ===== verification/Seek_Sequence.thy ===== *)
theory Seek_Sequence
  imports Rust_Prelude
begin

text \<open>
  \<^verbatim>\<open>apply-patch/src/seek_sequence.rs\<close>: finding a block of lines in a file with four passes of
  decreasing strictness (equal, equal up to trailing white space, up to white space at both
  ends, up to typographic punctuation). The interface the patch applier relies on is the
  locale \<open>line_seeker\<close>, interpreted on \<open>seek_sequence\<close> at the end.
\<close>

section \<open>The search\<close>

text \<open>The character table of the innermost \<^verbatim>\<open>normalise\<close>.\<close>

definition normalise_char :: "rchar \<Rightarrow> rchar" where
  "normalise_char c =
     (if c \<in> {0x2010, 0x2011, 0x2012, 0x2013, 0x2014, 0x2015, 0x2212} then chr CHR ''-''
      else if c \<in> {0x2018, 0x2019, 0x201A, 0x201B} then 39
      else if c \<in> {0x201C, 0x201D, 0x201E, 0x201F} then 34
      else if c \<in> {0x00A0, 0x2002, 0x2003, 0x2004, 0x2005, 0x2006, 0x2007, 0x2008, 0x2009,
                   0x200A, 0x202F, 0x205F, 0x3000} then chr CHR '' ''
      else c)"

definition normalise :: "rstr \<Rightarrow> rstr" where
  "normalise s = map normalise_char (trim s)"

text \<open>
  One of the three lenient loops: for each start index, compare the pattern line by line
  after the function \<open>f\<close> (\<open>trim_end\<close>, \<open>trim\<close>, \<open>normalise\<close>).
\<close>

definition seek_pass :: "(rstr \<Rightarrow> rstr) \<Rightarrow> rstr list \<Rightarrow> rstr list \<Rightarrow> nat \<Rightarrow> nat option" where
  "seek_pass f lines pattern search_start =
     find (\<lambda>i. list_all (\<lambda>(p_idx, pat). f (lines ! (i + p_idx)) = f pat) (enumerate 0 pattern))
       [search_start..<Suc (length lines - length pattern)]"

definition seek_exact :: "rstr list \<Rightarrow> rstr list \<Rightarrow> nat \<Rightarrow> nat option" where
  "seek_exact lines pattern search_start =
     find (\<lambda>i. take (length pattern) (drop i lines) = pattern)
       [search_start..<Suc (length lines - length pattern)]"

definition seek_sequence :: "rstr list \<Rightarrow> rstr list \<Rightarrow> nat \<Rightarrow> bool \<Rightarrow> nat option" where
  "seek_sequence lines pattern start eof =
     (if pattern = [] then Some start
      else if length pattern > length lines then None
      else
        let search_start =
              (if eof \<and> length lines \<ge> length pattern then length lines - length pattern
               else start)
        in case seek_exact lines pattern search_start of Some i \<Rightarrow> Some i | None \<Rightarrow>
          (case seek_pass trim_end lines pattern search_start of Some i \<Rightarrow> Some i | None \<Rightarrow>
            (case seek_pass trim lines pattern search_start of Some i \<Rightarrow> Some i | None \<Rightarrow>
              seek_pass normalise lines pattern search_start)))"

section \<open>Strictness levels\<close>

text \<open>The form in which level \<open>k\<close> compares two lines.\<close>

definition canon :: "nat \<Rightarrow> rstr \<Rightarrow> rstr" where
  "canon k = (if k = 0 then id else if k = 1 then trim_end else if k = 2 then trim else normalise)"

definition matches_at :: "nat \<Rightarrow> rstr list \<Rightarrow> rstr list \<Rightarrow> nat \<Rightarrow> bool" where
  "matches_at k lines pattern i \<longleftrightarrow>
     i + length pattern \<le> length lines \<and>
     map (canon k) (take (length pattern) (drop i lines)) = map (canon k) pattern"

lemma canon_simps [simp]: "canon 0 = id" "canon (Suc 0) = trim_end" "canon 2 = trim" "canon 3 = normalise"
  by (simp_all add: canon_def)

lemma trim_commute: "trim s = trim_start (trim_end s)"
proof (cases "list_all is_whitespace s")
  case True
  then have "trim_start s = []" and "trim_end s = []"
    by (auto simp: trim_start_def trim_end_def list_all_iff)
  then show ?thesis by (simp add: trim_def starts_solid_def ends_solid_def)
next
  case False
  let ?w = "takeWhile is_whitespace s" and ?t = "trim_start s"
  have s: "s = ?w @ ?t" by (simp add: trim_start_def)
  have "?t \<noteq> []" using False by (simp add: trim_start_def list_all_iff)
  moreover have "starts_solid ?t" by (rule starts_solid_trim_start)
  ultimately have tne: "\<exists>x \<in> set ?t. \<not> is_whitespace x"
    by (metis starts_solid_def hd_in_set)
  then have te: "trim_end (?w @ ?t) = ?w @ trim_end ?t"
    unfolding trim_end_def rev_append by (metis dropWhile_append1 rev_append rev_rev_ident set_rev)
  have "trim_start (?w @ trim_end ?t) = trim_start (trim_end ?t)"
    unfolding trim_start_def by (rule dropWhile_append2) (erule set_takeWhileD [THEN conjunct2])
  then have "trim_start (?w @ trim_end ?t) = trim_end ?t"
    using starts_solid_trim [of s] by (simp only: trim_def trim_start_id)
  moreover have "trim_end s = ?w @ trim_end ?t"
    using te by (simp only: s [symmetric])
  ultimately show ?thesis by (simp only: trim_def)
qed

lemma canon_mono:
  assumes "canon k a = canon k b" and "k \<le> l"
  shows "canon l a = canon l b"
proof -
  have t: "trim_end a = trim_end b \<Longrightarrow> trim a = trim b" by (simp only: trim_commute)
  consider "k = 0" | "k = 1" | "k = 2" | "k \<ge> 3" by linarith
  then show ?thesis
  proof cases
    case 1 then show ?thesis using assms by (simp add: canon_def)
  next
    case 2 then show ?thesis using assms t by (auto simp: canon_def normalise_def)
  next
    case 3 then show ?thesis using assms by (auto simp: canon_def normalise_def)
  next
    case 4 then show ?thesis using assms by (simp add: canon_def)
  qed
qed

lemma map_canon_mono:
  "map (canon k) xs = map (canon k) ys \<Longrightarrow> k \<le> l \<Longrightarrow> map (canon l) xs = map (canon l) ys"
proof (induction xs arbitrary: ys)
  case (Cons x xs)
  obtain y ys' where ys: "ys = y # ys'" and hd: "canon k x = canon k y"
    and tl: "map (canon k) xs = map (canon k) ys'"
    using Cons.prems(1) by (auto simp: Cons_eq_map_conv)
  show ?case using Cons.IH [OF tl Cons.prems(2)] canon_mono [OF hd Cons.prems(2)] by (simp add: ys)
qed simp

lemma matches_at_mono: "matches_at k lines pattern i \<Longrightarrow> k \<le> l \<Longrightarrow> matches_at l lines pattern i"
  unfolding matches_at_def by (blast intro: map_canon_mono)

lemma list_all_enumerate_iff:
  assumes "i + length pattern \<le> length lines"
  shows "list_all (\<lambda>(p_idx, pat). f (lines ! (i + p_idx)) = f pat) (enumerate 0 pattern) \<longleftrightarrow>
    map f (take (length pattern) (drop i lines)) = map f pattern"
  using assms by (auto simp: list_all_length nth_enumerate_eq list_eq_iff_nth_eq add.commute)

lemma seek_pass_find:
  assumes "length pattern \<le> length lines"
  shows "seek_pass (canon k) lines pattern lo =
    find (matches_at k lines pattern) [lo..<Suc (length lines - length pattern)]"
  unfolding seek_pass_def
proof (rule find_cong [OF refl])
  fix i assume "i \<in> set [lo..<Suc (length lines - length pattern)]"
  then have "i + length pattern \<le> length lines" using assms by auto
  then show "list_all (\<lambda>(p_idx, pat). canon k (lines ! (i + p_idx)) = canon k pat) (enumerate 0 pattern) \<longleftrightarrow>
      matches_at k lines pattern i"
    by (simp add: list_all_enumerate_iff matches_at_def)
qed

lemma seek_exact_find:
  assumes "length pattern \<le> length lines"
  shows "seek_exact lines pattern lo =
    find (matches_at 0 lines pattern) [lo..<Suc (length lines - length pattern)]"
  unfolding seek_exact_def
  by (rule find_cong [OF refl]) (use assms in \<open>auto simp: matches_at_def\<close>)

lemma pass_Some_iff:
  assumes "length pattern \<le> length lines"
  shows "find (matches_at k lines pattern) [lo..<Suc (length lines - length pattern)] = Some i \<longleftrightarrow>
    lo \<le> i \<and> matches_at k lines pattern i \<and> (\<forall>j. lo \<le> j \<longrightarrow> j < i \<longrightarrow> \<not> matches_at k lines pattern j)"
  unfolding find_upt_Some_iff using assms by (auto simp: matches_at_def)

lemma pass_None_iff:
  assumes "length pattern \<le> length lines"
  shows "find (matches_at k lines pattern) [lo..<Suc (length lines - length pattern)] = None \<longleftrightarrow>
    (\<forall>j. lo \<le> j \<longrightarrow> \<not> matches_at k lines pattern j)"
  unfolding find_upt_None_iff using assms by (auto simp: matches_at_def)

text \<open>The four passes as one expression over the levels.\<close>

definition seek_from :: "rstr list \<Rightarrow> rstr list \<Rightarrow> bool \<Rightarrow> nat \<Rightarrow> nat" where
  "seek_from lines pattern eof start = (if eof then length lines - length pattern else start)"

abbreviation pass :: "nat \<Rightarrow> rstr list \<Rightarrow> rstr list \<Rightarrow> nat \<Rightarrow> nat option" where
  "pass k lines pattern lo \<equiv>
     find (matches_at k lines pattern) [lo..<Suc (length lines - length pattern)]"

lemma seek_sequence_passes:
  assumes "pattern \<noteq> []" and "length pattern \<le> length lines"
  shows "seek_sequence lines pattern start eof =
    (let lo = seek_from lines pattern eof start in
     case pass 0 lines pattern lo of Some i \<Rightarrow> Some i | None \<Rightarrow>
       (case pass 1 lines pattern lo of Some i \<Rightarrow> Some i | None \<Rightarrow>
         (case pass 2 lines pattern lo of Some i \<Rightarrow> Some i | None \<Rightarrow> pass 3 lines pattern lo)))"
proof -
  note passes = seek_exact_find [OF assms(2)] seek_pass_find [OF assms(2), of 1, simplified canon_simps One_nat_def]
    seek_pass_find [OF assms(2), of 2, unfolded canon_simps] seek_pass_find [OF assms(2), of 3, unfolded canon_simps]
  show ?thesis
    using assms by (simp add: passes seek_sequence_def seek_from_def Let_def cong: option.case_cong del: upt_Suc)
qed

lemma first_of_four:
  "(case a of Some i \<Rightarrow> Some i | None \<Rightarrow> (case b of Some i \<Rightarrow> Some i | None \<Rightarrow>
     (case c of Some i \<Rightarrow> Some i | None \<Rightarrow> d))) = Some i \<longleftrightarrow>
   a = Some i \<or> (a = None \<and> b = Some i) \<or> (a = None \<and> b = None \<and> c = Some i) \<or>
   (a = None \<and> b = None \<and> c = None \<and> d = Some i)"
  "(case a of Some i \<Rightarrow> Some i | None \<Rightarrow> (case b of Some i \<Rightarrow> Some i | None \<Rightarrow>
     (case c of Some i \<Rightarrow> Some i | None \<Rightarrow> d))) = None \<longleftrightarrow>
   a = None \<and> b = None \<and> c = None \<and> d = None"
  by (auto split: option.splits)

lemma least_level_iff:
  fixes Y N :: "nat \<Rightarrow> bool"
  shows "(\<exists>k \<le> 3. Y k \<and> (\<forall>k' < k. N k')) \<longleftrightarrow>
    Y 0 \<or> (N 0 \<and> Y 1) \<or> (N 0 \<and> N 1 \<and> Y 2) \<or> (N 0 \<and> N 1 \<and> N 2 \<and> Y 3)"
proof -
  have le3: "(\<exists>k \<le> 3. P k) \<longleftrightarrow> P 0 \<or> P 1 \<or> P 2 \<or> P (3::nat)" for P
    by (auto simp: le_Suc_eq numeral_eq_Suc)
  show ?thesis unfolding le3 by (auto simp: less_Suc_eq numeral_eq_Suc)
qed

lemma seek_sequence_Some_iff:
  assumes "pattern \<noteq> []"
  shows "seek_sequence lines pattern start eof = Some i \<longleftrightarrow>
    (\<exists>k \<le> 3. seek_from lines pattern eof start \<le> i \<and> matches_at k lines pattern i \<and>
       (\<forall>j. seek_from lines pattern eof start \<le> j \<longrightarrow> j < i \<longrightarrow> \<not> matches_at k lines pattern j) \<and>
       (\<forall>k' < k. \<forall>j. seek_from lines pattern eof start \<le> j \<longrightarrow> \<not> matches_at k' lines pattern j))"
    (is "?L \<longleftrightarrow> (\<exists>k \<le> 3. ?R k)")
proof (cases "length pattern \<le> length lines")
  case False
  then show ?thesis using assms by (auto simp: seek_sequence_def matches_at_def)
next
  case True
  let ?lo = "seek_from lines pattern eof start"
  let ?no = "\<lambda>k. pass k lines pattern ?lo = None" and ?yes = "\<lambda>k. pass k lines pattern ?lo = Some i"
  have R: "?R k \<longleftrightarrow> ?yes k \<and> (\<forall>k' < k. ?no k')" for k
    unfolding pass_Some_iff [OF True] pass_None_iff [OF True] by auto
  have "?L \<longleftrightarrow> ?yes 0 \<or> (?no 0 \<and> ?yes 1) \<or> (?no 0 \<and> ?no 1 \<and> ?yes 2) \<or>
      (?no 0 \<and> ?no 1 \<and> ?no 2 \<and> ?yes 3)"
    unfolding seek_sequence_passes [OF assms True] Let_def first_of_four ..
  then show ?thesis
    unfolding R least_level_iff [where Y = ?yes and N = ?no] .
qed

lemma seek_sequence_None_iff:
  assumes "pattern \<noteq> []"
  shows "seek_sequence lines pattern start eof = None \<longleftrightarrow>
    (\<forall>j. seek_from lines pattern eof start \<le> j \<longrightarrow> \<not> matches_at 3 lines pattern j)"
proof (cases "length pattern \<le> length lines")
  case False
  then show ?thesis using assms by (auto simp: seek_sequence_def matches_at_def)
next
  case True
  define N where "N = (\<lambda>k. pass k lines pattern (seek_from lines pattern eof start) = None)"
  have "N k" if "k \<le> 3" "N 3" for k
    using that matches_at_mono unfolding N_def pass_None_iff [OF True] by blast
  from this [of 0] this [of 1] this [of 2]
  have "N 0 \<and> N 1 \<and> N 2 \<and> N 3 \<longleftrightarrow> N 3" by auto
  then have "seek_sequence lines pattern start eof = None \<longleftrightarrow> N 3"
    unfolding N_def seek_sequence_passes [OF assms True] Let_def first_of_four .
  then show ?thesis unfolding N_def pass_None_iff [OF True] .
qed

section \<open>The interface of the patch applier\<close>

locale line_seeker =
  fixes seek :: "rstr list \<Rightarrow> rstr list \<Rightarrow> nat \<Rightarrow> bool \<Rightarrow> nat option"
  assumes seek_empty: "seek lines [] start eof = Some start"
    and seek_match: "pattern \<noteq> [] \<Longrightarrow> seek lines pattern start eof = Some i \<Longrightarrow>
      matches_at 3 lines pattern i"
    and seek_after: "seek lines pattern start False = Some i \<Longrightarrow> start \<le> i"
begin

lemma seek_in_bounds:
  "start \<le> length lines \<Longrightarrow> seek lines pattern start eof = Some i \<Longrightarrow>
   i + length pattern \<le> length lines"
  using seek_empty seek_match by (cases "pattern = []") (auto simp: matches_at_def)

lemma seek_region:
  "start \<le> length lines \<Longrightarrow> seek lines pattern start eof = Some i \<Longrightarrow>
   map normalise (take (length pattern) (drop i lines)) = map normalise pattern"
  using seek_match [of pattern lines start eof i] by (cases "pattern = []") (auto simp: matches_at_def)

end

interpretation sq: line_seeker seek_sequence
proof unfold_locales
  fix lines pattern :: "rstr list" and start i :: nat and eof :: bool
  show "seek_sequence lines [] start eof = Some start"
    by (simp add: seek_sequence_def)
  show "matches_at 3 lines pattern i"
    if "pattern \<noteq> []" "seek_sequence lines pattern start eof = Some i"
    using that matches_at_mono unfolding seek_sequence_Some_iff [OF that(1)] by blast
  show "start \<le> i" if "seek_sequence lines pattern start False = Some i"
    using that seek_sequence_Some_iff [of pattern lines start False i]
    by (cases "pattern = []") (auto simp: seek_sequence_def seek_from_def)
qed

end
