(* ===== verification/Replacements.thy ===== *)
theory Replacements
  imports Seek_Sequence Patch_Parser "HOL-Library.Multiset"
begin

text \<open>
  The pure half of \<^verbatim>\<open>apply-patch/src/lib.rs\<close>: from the lines of a file and the chunks of an
  update hunk to the new contents (\<^verbatim>\<open>compute_replacements\<close>, \<^verbatim>\<open>apply_replacements\<close> and the
  body of \<^verbatim>\<open>derive_new_contents_from_chunks\<close>). A \<open>None\<close> around a result is a panic of
  \<^verbatim>\<open>Vec::remove\<close> or \<^verbatim>\<open>Vec::insert\<close>.
\<close>

section \<open>Model\<close>

text \<open>\<open>(start_index, old_len, new_lines)\<close>\<close>

type_synonym replacement = "nat \<times> nat \<times> rstr list"

datatype error_kind = NotFound | InvalidInput | OtherKind rstr

record io_error =
  kind :: error_kind
  message :: rstr

datatype apply_patch_error =
    ParseError parse_error
  | IoError rstr io_error
  | ComputeReplacements rstr
  | ImplicitInvocation

definition msg_no_context :: "rstr \<Rightarrow> path_buf \<Rightarrow> rstr" where
  "msg_no_context ctx_line path =
     lit ''Failed to find context '' @ sq @ ctx_line @ sq @ lit '' in '' @ path"

definition msg_no_old_lines :: "path_buf \<Rightarrow> rstr list \<Rightarrow> rstr" where
  "msg_no_old_lines path old =
     lit ''Failed to find expected lines in '' @ path @ lit '':'' @ [newline] @ join_with [newline] old"

definition ends_empty :: "rstr list \<Rightarrow> bool" where
  "ends_empty lines \<longleftrightarrow> last_opt lines = Some []"

definition drop_trailing_empty :: "rstr list \<Rightarrow> rstr list" where
  "drop_trailing_empty lines = (if ends_empty lines then butlast lines else lines)"

type_synonym seeker = "rstr list \<Rightarrow> rstr list \<Rightarrow> nat \<Rightarrow> bool \<Rightarrow> nat option"

text \<open>The context step of the loop: the new \<^verbatim>\<open>line_index\<close>.\<close>

definition context_index ::
    "seeker \<Rightarrow> rstr list \<Rightarrow> path_buf \<Rightarrow> update_file_chunk \<Rightarrow> nat \<Rightarrow> apply_patch_error + nat" where
  "context_index seek original_lines path chunk line_index =
     (case change_context chunk of
        None \<Rightarrow> Inr line_index
      | Some ctx_line \<Rightarrow>
          (case seek original_lines [ctx_line] line_index False of
             Some idx \<Rightarrow> Inr (idx + 1)
           | None \<Rightarrow> Inl (ComputeReplacements (msg_no_context ctx_line path))))"

text \<open>The search for the old lines, with the retry without a trailing empty line.\<close>

definition locate ::
    "seeker \<Rightarrow> rstr list \<Rightarrow> update_file_chunk \<Rightarrow> nat \<Rightarrow> (nat \<times> rstr list \<times> rstr list) option" where
  "locate seek original_lines chunk line_index =
     (let pattern = old_lines chunk; new_slice = new_lines chunk in
      case seek original_lines pattern line_index (is_end_of_file chunk) of
        Some i \<Rightarrow> Some (i, pattern, new_slice)
      | None \<Rightarrow>
          if ends_empty pattern then
            (let pattern' = butlast pattern;
                 new_slice' = drop_trailing_empty new_slice
             in case seek original_lines pattern' line_index (is_end_of_file chunk) of
                  Some i \<Rightarrow> Some (i, pattern', new_slice')
                | None \<Rightarrow> None)
          else None)"

definition insertion_idx :: "rstr list \<Rightarrow> nat" where
  "insertion_idx original_lines =
     (if ends_empty original_lines then length original_lines - 1 else length original_lines)"

text \<open>The loop over the chunks, with the replacements in the order they are pushed.\<close>

fun chunk_replacements ::
    "seeker \<Rightarrow> rstr list \<Rightarrow> path_buf \<Rightarrow> update_file_chunk list \<Rightarrow> nat \<Rightarrow>
     apply_patch_error + replacement list" where
  "chunk_replacements seek original_lines path [] line_index = Inr []"
| "chunk_replacements seek original_lines path (chunk # chunks) line_index =
     (case context_index seek original_lines path chunk line_index of
        Inl e \<Rightarrow> Inl e
      | Inr line_index1 \<Rightarrow>
          if old_lines chunk = [] then
            (case chunk_replacements seek original_lines path chunks line_index1 of
               Inl e \<Rightarrow> Inl e
             | Inr rs \<Rightarrow> Inr ((insertion_idx original_lines, 0, new_lines chunk) # rs))
          else
            (case locate seek original_lines chunk line_index1 of
               None \<Rightarrow> Inl (ComputeReplacements (msg_no_old_lines path (old_lines chunk)))
             | Some (start_idx, pattern, new_slice) \<Rightarrow>
                 (case chunk_replacements seek original_lines path chunks
                         (start_idx + length pattern) of
                    Inl e \<Rightarrow> Inl e
                  | Inr rs \<Rightarrow> Inr ((start_idx, length pattern, new_slice) # rs))))"

definition compute_replacements_with ::
    "seeker \<Rightarrow> rstr list \<Rightarrow> path_buf \<Rightarrow> update_file_chunk list \<Rightarrow>
     apply_patch_error + replacement list" where
  "compute_replacements_with seek original_lines path chunks =
     (case chunk_replacements seek original_lines path chunks 0 of
        Inl e \<Rightarrow> Inl e
      | Inr replacements \<Rightarrow> Inr (sort_key fst replacements))"

definition compute_replacements ::
    "rstr list \<Rightarrow> path_buf \<Rightarrow> update_file_chunk list \<Rightarrow> apply_patch_error + replacement list" where
  "compute_replacements = compute_replacements_with seek_sequence"

fun remove_lines :: "nat \<Rightarrow> nat \<Rightarrow> rstr list \<Rightarrow> rstr list option" where
  "remove_lines start_idx 0 lines = Some lines"
| "remove_lines start_idx (Suc n) lines =
     (if start_idx < length lines then
        (case vec_remove start_idx lines of
           None \<Rightarrow> None
         | Some lines' \<Rightarrow> remove_lines start_idx n lines')
      else remove_lines start_idx n lines)"

fun insert_lines :: "nat \<Rightarrow> rstr list \<Rightarrow> rstr list \<Rightarrow> rstr list option" where
  "insert_lines idx [] lines = Some lines"
| "insert_lines idx (new_line # rest) lines =
     (case vec_insert idx new_line lines of
        None \<Rightarrow> None
      | Some lines' \<Rightarrow> insert_lines (idx + 1) rest lines')"

fun replace_in_order :: "rstr list \<Rightarrow> replacement list \<Rightarrow> rstr list option" where
  "replace_in_order lines [] = Some lines"
| "replace_in_order lines ((start_idx, old_len, new_segment) # rest) =
     (case remove_lines start_idx old_len lines of
        None \<Rightarrow> None
      | Some lines1 \<Rightarrow>
          (case insert_lines start_idx new_segment lines1 of
             None \<Rightarrow> None
           | Some lines2 \<Rightarrow> replace_in_order lines2 rest))"

definition apply_replacements :: "rstr list \<Rightarrow> replacement list \<Rightarrow> rstr list option" where
  "apply_replacements lines replacements = replace_in_order lines (rev replacements)"

definition file_lines :: "rstr \<Rightarrow> rstr list" where
  "file_lines contents = drop_trailing_empty (split_on newline contents)"

definition lines_contents :: "rstr list \<Rightarrow> rstr" where
  "lines_contents lines =
     join_with [newline] (if ends_empty lines then lines else lines @ [[]])"

text \<open>\<^verbatim>\<open>derive_new_contents_from_chunks\<close> after the file has been read.\<close>

definition new_contents_from_chunks ::
    "path_buf \<Rightarrow> rstr \<Rightarrow> update_file_chunk list \<Rightarrow> (apply_patch_error + rstr) option" where
  "new_contents_from_chunks path_abs original_contents chunks =
     (let original_lines = file_lines original_contents in
      case compute_replacements original_lines path_abs chunks of
        Inl e \<Rightarrow> Some (Inl e)
      | Inr replacements \<Rightarrow>
          map_option (\<lambda>ls. Inr (lines_contents ls)) (apply_replacements original_lines replacements))"

section \<open>Applying replacements\<close>

definition splice :: "replacement \<Rightarrow> rstr list \<Rightarrow> rstr list" where
  "splice r lines = (case r of (s, n, seg) \<Rightarrow> take s lines @ seg @ drop (s + n) lines)"

lemma remove_lines_eq: "remove_lines s n lines = Some (take s lines @ drop (s + n) lines)"
proof (induction n arbitrary: lines)
  case (Suc n)
  show ?case
  proof (cases "s < length lines")
    case True
    then have "drop (s + n) (take s lines @ drop (Suc s) lines) = drop (s + Suc n) lines"
      by (simp add: add.commute)
    with True show ?thesis by (simp add: vec_remove_def Suc min_def)
  next
    case False
    then show ?thesis by (simp add: Suc)
  qed
qed simp

lemma insert_lines_eq:
  "i \<le> length lines \<Longrightarrow> insert_lines i seg lines = Some (take i lines @ seg @ drop i lines)"
  by (induction i seg lines rule: insert_lines.induct)
    (auto simp: vec_insert_def split: option.splits)

lemma replace_in_order_Cons:
  assumes "fst r \<le> length lines"
  shows "replace_in_order lines (r # rs) = replace_in_order (splice r lines) rs"
  using assms by (cases r) (simp add: remove_lines_eq insert_lines_eq splice_def min_def)

lemma replace_in_order_total:
  "sorted (map fst (rev rs)) \<Longrightarrow> list_all (\<lambda>r. fst r \<le> length lines) rs \<Longrightarrow>
   \<exists>ls. replace_in_order lines rs = Some ls"
proof (induction rs arbitrary: lines)
  case (Cons r rs)
  have "list_all (\<lambda>q. fst q \<le> length (splice r lines)) rs"
    using Cons.prems by (fastforce simp: splice_def sorted_append list_all_iff split: prod.splits)
  then show ?case using Cons by (simp add: replace_in_order_Cons sorted_append del: replace_in_order.simps)
qed simp

text \<open>In-range replacements in ascending order never make the code panic, overlapping or not.\<close>

lemma apply_replacements_total:
  "sorted (map fst rs) \<Longrightarrow> list_all (\<lambda>r. fst r \<le> length lines) rs \<Longrightarrow>
   \<exists>ls. apply_replacements lines rs = Some ls"
  using replace_in_order_total [of "rev rs" lines] by (simp add: apply_replacements_def)

text \<open>
  The reference: one forward pass that copies the lines between the regions and puts the new
  lines in the place of each region.
\<close>

fun splice_all :: "nat \<Rightarrow> replacement list \<Rightarrow> rstr list \<Rightarrow> rstr list" where
  "splice_all pos [] lines = drop pos lines"
| "splice_all pos ((s, n, seg) # rs) lines =
     take (s - pos) (drop pos lines) @ seg @ splice_all (s + n) rs lines"

fun non_overlapping :: "nat \<Rightarrow> replacement list \<Rightarrow> bool" where
  "non_overlapping pos [] = True"
| "non_overlapping pos ((s, n, seg) # rs) = (pos \<le> s \<and> non_overlapping (s + n) rs)"

lemma non_overlapping_sorted: "non_overlapping pos rs \<Longrightarrow> sorted (map fst rs) \<and> (\<forall>r \<in> set rs. pos \<le> fst r)"
  by (induction pos rs rule: non_overlapping.induct) fastforce+

lemma replace_append:
  "replace_in_order lines (xs @ ys) =
     (case replace_in_order lines xs of None \<Rightarrow> None | Some ls \<Rightarrow> replace_in_order ls ys)"
  by (induction lines xs rule: replace_in_order.induct) (auto split: option.splits)

lemma apply_replacements_splice_all:
  assumes "non_overlapping pos rs" and "pos \<le> length lines"
    and "list_all (\<lambda>r. fst r \<le> length lines) rs"
  shows "apply_replacements lines rs = Some (take pos lines @ splice_all pos rs lines)"
  using assms
proof (induction pos rs rule: non_overlapping.induct)
  case (2 pos s n seg rs)
  show ?case
  proof (cases "s + n \<le> length lines")
    case True
    from "2.IH" [OF _ True] "2.prems"
    have "replace_in_order lines (rev rs) = Some (take (s + n) lines @ splice_all (s + n) rs lines)"
      by (simp add: apply_replacements_def)
    moreover have "take s lines = take pos lines @ take (s - pos) (drop pos lines)"
      using "2.prems" by (metis le_add_diff_inverse non_overlapping.simps(2) take_add)
    ultimately show ?thesis using "2.prems" True
      by (simp add: apply_replacements_def replace_append replace_in_order_Cons splice_def
          del: replace_in_order.simps(2))
  next
    case False
    have "rs = []"
    proof (cases rs)
      case (Cons r rs')
      then have "s + n \<le> fst r" using "2.prems"(1) by (cases r) simp
      then show ?thesis using "2.prems"(3) False Cons by simp
    qed simp
    moreover have "take s lines = take pos lines @ take (s - pos) (drop pos lines)"
      using "2.prems" by (metis le_add_diff_inverse non_overlapping.simps(2) take_add)
    ultimately show ?thesis using "2.prems" False
      by (simp add: apply_replacements_def replace_in_order_Cons splice_def del: replace_in_order.simps(2))
  qed
qed (simp add: apply_replacements_def)

section \<open>Computing replacements\<close>

text \<open>
  What justifies a replacement of a chunk: a pure addition goes to the end of the file, and
  any other region carries the old lines up to the most lenient comparison, the trailing
  empty line of the chunk possibly left out on both sides.
\<close>

definition justified :: "rstr list \<Rightarrow> update_file_chunk \<Rightarrow> replacement \<Rightarrow> bool" where
  "justified lines c r \<longleftrightarrow> (case r of (s, n, seg) \<Rightarrow>
     if old_lines c = [] then n = 0 \<and> s = insertion_idx lines \<and> seg = new_lines c
     else s + n \<le> length lines \<and>
       ((n = length (old_lines c) \<and> seg = new_lines c \<and>
         map normalise (take n (drop s lines)) = map normalise (old_lines c)) \<or>
        (ends_empty (old_lines c) \<and> Suc n = length (old_lines c) \<and>
         seg = drop_trailing_empty (new_lines c) \<and>
         map normalise (take n (drop s lines)) = map normalise (butlast (old_lines c)))))"

lemma insertion_idx_le: "insertion_idx lines \<le> length lines"
  by (simp add: insertion_idx_def)

lemma justified_bounds: "justified lines c (s, n, seg) \<Longrightarrow> s + n \<le> length lines"
  by (auto simp: justified_def insertion_idx_le split: if_splits)

context line_seeker
begin

lemma context_index_bounds:
  assumes "context_index seek lines path c li = Inr li'" and "li \<le> length lines"
  shows "li \<le> li'" and "li' \<le> length lines"
proof -
  have "li \<le> li' \<and> li' \<le> length lines"
  proof (cases "change_context c")
    case (Some ctx)
    then obtain i where "seek lines [ctx] li False = Some i" "li' = i + 1"
      using assms(1) by (auto simp: context_index_def split: option.splits)
    then show ?thesis using seek_after seek_in_bounds [OF assms(2), of "[ctx]" False i] by fastforce
  qed (use assms in \<open>simp add: context_index_def\<close>)
  then show "li \<le> li'" and "li' \<le> length lines" by auto
qed

lemma locate_justified:
  assumes "locate seek lines c li = Some (s, pat, seg)" and "li \<le> length lines" and "old_lines c \<noteq> []"
  shows "justified lines c (s, length pat, seg)"
proof (cases "seek lines (old_lines c) li (is_end_of_file c)")
  case (Some i)
  then have "s = i" "pat = old_lines c" "seg = new_lines c"
    using assms(1) by (simp_all add: locate_def Let_def)
  then show ?thesis
    using seek_in_bounds [OF assms(2) Some] seek_region [OF assms(2) Some] assms(3)
    by (simp add: justified_def)
next
  case None
  then have e: "ends_empty (old_lines c)" "pat = butlast (old_lines c)"
    "seg = drop_trailing_empty (new_lines c)" "seek lines pat li (is_end_of_file c) = Some s"
    using assms(1) by (auto simp: locate_def Let_def split: if_splits option.splits)
  moreover have "Suc (length pat) = length (old_lines c)" using e(2) assms(3) by simp
  ultimately show ?thesis
    using seek_in_bounds [OF assms(2) e(4)] seek_region [OF assms(2) e(4)] assms(3)
    by (simp add: justified_def)
qed

lemma locate_after:
  assumes "locate seek lines c li = Some (s, pat, seg)" and "\<not> is_end_of_file c"
  shows "li \<le> s"
  using assms by (auto simp: locate_def Let_def split: if_splits option.splits dest: seek_after)

lemma chunk_replacements_justified:
  "chunk_replacements seek lines path cs li = Inr rs \<Longrightarrow> li \<le> length lines \<Longrightarrow>
   list_all2 (justified lines) cs rs"
proof (induction cs arbitrary: li rs)
  case (Cons c cs)
  obtain li1 where li1: "context_index seek lines path c li = Inr li1"
    using Cons.prems by (auto split: sum.splits)
  note b1 = context_index_bounds(2) [OF li1 Cons.prems(2)]
  show ?case
  proof (cases "old_lines c = []")
    case True
    then have "justified lines c (insertion_idx lines, 0, new_lines c)" by (simp add: justified_def)
    then show ?thesis using Cons.prems(1) Cons.IH [OF _ b1] li1 True
      by (auto split: sum.splits)
  next
    case False
    then obtain s pat seg where l: "locate seek lines c li1 = Some (s, pat, seg)"
      using Cons.prems(1) li1 by (auto split: option.splits)
    note j = locate_justified [OF l b1 False]
    show ?thesis using Cons.prems(1) Cons.IH [OF _ justified_bounds [OF j]] li1 l False j
      by (auto split: sum.splits)
  qed
qed simp

end

lemma non_overlapping_mono: "non_overlapping pos rs \<Longrightarrow> pos' \<le> pos \<Longrightarrow> non_overlapping pos' rs"
  by (cases "(pos, rs)" rule: non_overlapping.cases) auto

lemma non_overlapping_append_end:
  assumes "non_overlapping pos xs" and "pos \<le> len" and "\<forall>(s, n, seg) \<in> set xs. s + n \<le> len"
    and "\<forall>(s, n, seg) \<in> set ys. s = len \<and> n = 0"
  shows "non_overlapping pos (xs @ ys)"
proof -
  have ys: "non_overlapping len ys" using assms(4) by (induction len ys rule: non_overlapping.induct) auto
  show ?thesis using assms(1-3)
    by (induction pos xs rule: non_overlapping.induct) (auto intro: non_overlapping_mono [OF ys])
qed

lemma sort_key_two_parts:
  fixes f :: "'a \<Rightarrow> nat"
  assumes "sorted (map f (filter (\<lambda>x. f x < b) xs))" and "\<forall>x \<in> set xs. f x \<le> b"
  shows "sort_key f xs = filter (\<lambda>x. f x < b) xs @ filter (\<lambda>x. \<not> f x < b) xs"
proof (rule properties_for_sort_key)
  show "mset (filter (\<lambda>x. f x < b) xs @ filter (\<lambda>x. \<not> f x < b) xs) = mset xs" by simp
  show "filter (\<lambda>x. f k = f x) (filter (\<lambda>x. f x < b) xs @ filter (\<lambda>x. \<not> f x < b) xs) =
      filter (\<lambda>x. f k = f x) xs" for k
    by (induction xs) auto
  have "filter (\<lambda>x. \<not> f x < b) xs = filter (\<lambda>x. f x = b) xs"
    using assms(2) by (intro filter_cong) auto
  moreover have "sorted (map f (filter (\<lambda>x. f x = b) xs))"
    by (induction xs) auto
  ultimately show "sorted (map f (filter (\<lambda>x. f x < b) xs @ filter (\<lambda>x. \<not> f x < b) xs))"
    using assms(1) by (auto simp: sorted_append)
qed

lemma list_all2_imp_list_all: "list_all2 P xs ys \<Longrightarrow> (\<And>x y. P x y \<Longrightarrow> Q y) \<Longrightarrow> list_all Q ys"
  by (induction rule: list_all2_induct) auto

context line_seeker
begin

lemma chunk_replacements_order:
  "chunk_replacements seek lines path cs li = Inr rs \<Longrightarrow> li \<le> length lines \<Longrightarrow>
   list_all (\<lambda>c. \<not> is_end_of_file c) cs \<Longrightarrow>
   \<not> ends_empty lines \<or> list_all (\<lambda>c. old_lines c \<noteq> []) cs \<Longrightarrow>
   non_overlapping li (filter (\<lambda>r. fst r < length lines) rs)"
proof (induction cs arbitrary: li rs)
  case (Cons c cs)
  obtain li1 where li1: "context_index seek lines path c li = Inr li1"
    using Cons.prems by (auto split: sum.splits)
  note b1 = context_index_bounds [OF li1 Cons.prems(2)]
  show ?case
  proof (cases "old_lines c = []")
    case True
    then obtain rs' where rs': "chunk_replacements seek lines path cs li1 = Inr rs'"
      "rs = (length lines, 0, new_lines c) # rs'"
      using Cons.prems li1 by (auto simp: insertion_idx_def split: sum.splits)
    then show ?thesis
      using Cons.IH [OF rs'(1) b1(2)] Cons.prems(3,4) non_overlapping_mono [OF _ b1(1)] by simp
  next
    case False
    then obtain s pat seg where l: "locate seek lines c li1 = Some (s, pat, seg)"
      using Cons.prems(1) li1 by (auto split: option.splits)
    then obtain rs' where rs': "chunk_replacements seek lines path cs (s + length pat) = Inr rs'"
      "rs = (s, length pat, seg) # rs'"
      using Cons.prems(1) li1 False by (auto split: sum.splits)
    have "li \<le> s" using locate_after [OF l] Cons.prems(3) b1(1) by simp
    moreover have "non_overlapping (s + length pat) (filter (\<lambda>r. fst r < length lines) rs')"
      using Cons.IH [OF rs'(1) justified_bounds [OF locate_justified [OF l b1(2) False]]] Cons.prems(3,4)
      by simp
    ultimately show ?thesis using rs'(2) by (auto intro: non_overlapping_mono)
  qed
qed simp

lemma compute_replacements_justified:
  assumes "compute_replacements_with seek lines path cs = Inr rs"
  shows "\<exists>rs0. rs = sort_key fst rs0 \<and> list_all2 (justified lines) cs rs0"
proof -
  obtain rs0 where "chunk_replacements seek lines path cs 0 = Inr rs0" "rs = sort_key fst rs0"
    using assms by (auto simp: compute_replacements_with_def split: sum.splits)
  then show ?thesis using chunk_replacements_justified [of lines path cs 0 rs0] by auto
qed

lemma compute_replacements_in_bounds:
  assumes "compute_replacements_with seek lines path cs = Inr rs"
  shows "sorted (map fst rs)" and "list_all (\<lambda>(s, n, seg). s + n \<le> length lines) rs"
proof -
  obtain rs0 where rs0: "rs = sort_key fst rs0" "list_all2 (justified lines) cs rs0"
    using compute_replacements_justified [OF assms] by blast
  show "sorted (map fst rs)" using rs0(1) by simp
  have "list_all (\<lambda>(s, n, seg). s + n \<le> length lines) rs0"
    by (rule list_all2_imp_list_all [OF rs0(2)]) (auto dest: justified_bounds)
  then show "list_all (\<lambda>(s, n, seg). s + n \<le> length lines) rs"
    using rs0(1) by (simp add: list_all_iff)
qed

lemma compute_replacements_non_overlapping:
  assumes "compute_replacements_with seek lines path cs = Inr rs"
    and "list_all (\<lambda>c. \<not> is_end_of_file c) cs"
    and "\<not> ends_empty lines \<or> list_all (\<lambda>c. old_lines c \<noteq> []) cs"
  shows "non_overlapping 0 rs"
proof -
  obtain rs0 where rs0: "chunk_replacements seek lines path cs 0 = Inr rs0" "rs = sort_key fst rs0"
    using assms(1) by (auto simp: compute_replacements_with_def split: sum.splits)
  let ?lo = "filter (\<lambda>r. fst r < length lines) rs0" and ?hi = "filter (\<lambda>r. \<not> fst r < length lines) rs0"
  have lo: "non_overlapping 0 ?lo"
    by (rule chunk_replacements_order [OF rs0(1) _ assms(2,3)]) simp
  have b: "\<forall>(s, n, seg) \<in> set rs0. s + n \<le> length lines"
    using compute_replacements_in_bounds(2) [OF assms(1)] rs0(2) by (simp add: list_all_iff)
  have "\<forall>(s, n, seg) \<in> set ?lo. s + n \<le> length lines" using b by fastforce
  moreover have "\<forall>(s, n, seg) \<in> set ?hi. s = length lines \<and> n = 0" using b by fastforce
  ultimately have "non_overlapping 0 (?lo @ ?hi)" by (rule non_overlapping_append_end [OF lo le0])
  moreover have "rs = ?lo @ ?hi"
    unfolding rs0(2) using b non_overlapping_sorted [OF lo] by (intro sort_key_two_parts) force+
  ultimately show ?thesis by simp
qed

end

section \<open>New contents\<close>

lemma compute_replacements_total:
  assumes "compute_replacements lines path cs = Inr rs"
  shows "\<exists>ls. apply_replacements lines rs = Some ls"
proof (rule apply_replacements_total)
  note b = sq.compute_replacements_in_bounds [OF assms [unfolded compute_replacements_def]]
  show "sorted (map fst rs)" by (rule b(1))
  show "list_all (\<lambda>r. fst r \<le> length lines) rs" using b(2) by (auto simp: list_all_iff)
qed

lemma new_contents_total: "\<exists>r. new_contents_from_chunks path contents cs = Some r"
  using compute_replacements_total [of "file_lines contents" path cs]
  by (auto simp: new_contents_from_chunks_def Let_def split: sum.splits)

lemma apply_computed_reference:
  assumes "compute_replacements lines path cs = Inr rs" and "non_overlapping 0 rs"
  shows "apply_replacements lines rs = Some (splice_all 0 rs lines)"
proof -
  have "list_all (\<lambda>r. fst r \<le> length lines) rs"
    using sq.compute_replacements_in_bounds(2) [OF assms(1) [unfolded compute_replacements_def]]
    by (auto simp: list_all_iff)
  then show ?thesis using apply_replacements_splice_all [OF assms(2)] by simp
qed

subsection \<open>Lines and contents\<close>

lemma ends_empty_snoc [simp]: "ends_empty (xs @ [x]) \<longleftrightarrow> x = []"
  by (simp add: ends_empty_def)

lemma ends_empty_Nil [simp]: "\<not> ends_empty []"
  by (simp add: ends_empty_def)

lemma lines_contents_eq:
  "lines_contents ls = concat (map (\<lambda>l. l @ [newline]) (drop_trailing_empty ls))"
proof (cases ls rule: rev_cases)
  case (snoc ys y)
  then show ?thesis
    using join_with_snoc [of newline ys "[]"] join_with_snoc [of newline ls "[]"]
    by (auto simp: lines_contents_def drop_trailing_empty_def)
qed (simp add: lines_contents_def drop_trailing_empty_def)

lemma split_on_terminated:
  "list_all (\<lambda>l. c \<notin> set l) ls \<Longrightarrow> split_on c (concat (map (\<lambda>l. l @ [c]) ls)) = ls @ [[]]"
  by (induction ls) (auto simp: split_on_append_sep)

text \<open>
  Reading back what was written gives the lines without a trailing empty one: a file that
  ends in a blank line loses it on its first update.
\<close>

lemma file_lines_contents:
  assumes "list_all (\<lambda>l. newline \<notin> set l) ls"
  shows "file_lines (lines_contents ls) = drop_trailing_empty ls"
proof -
  have "list_all (\<lambda>l. newline \<notin> set l) (drop_trailing_empty ls)"
    using assms by (auto simp: drop_trailing_empty_def list_all_butlast)
  then show ?thesis
    unfolding lines_contents_eq file_lines_def
    by (simp add: split_on_terminated) (simp add: drop_trailing_empty_def)
qed

lemma file_lines_no_newline: "l \<in> set (file_lines contents) \<Longrightarrow> newline \<notin> set l"
  by (auto simp: file_lines_def drop_trailing_empty_def split: if_splits
      dest!: in_set_butlastD split_on_parts)

subsection \<open>Applying a diff\<close>

text \<open>
  A diff as the regions it changes: the lines kept before a region, the old lines and the
  new ones; \<open>rest\<close> is what follows the last region.
\<close>

type_synonym edit = "rstr list \<times> rstr list \<times> rstr list"

fun edits_old :: "edit list \<Rightarrow> rstr list \<Rightarrow> rstr list" where
  "edits_old [] rest = rest"
| "edits_old ((kept, old, new) # es) rest = kept @ old @ edits_old es rest"

fun edits_new :: "edit list \<Rightarrow> rstr list \<Rightarrow> rstr list" where
  "edits_new [] rest = rest"
| "edits_new ((kept, old, new) # es) rest = kept @ new @ edits_new es rest"

definition plain_chunk :: "edit \<Rightarrow> update_file_chunk" where
  "plain_chunk e = (case e of (kept, old, new) \<Rightarrow>
     \<lparr>change_context = None, old_lines = old, new_lines = new, is_end_of_file = False\<rparr>)"

text \<open>No old region occurs verbatim between the previous region and its own place.\<close>

fun unambiguous :: "edit list \<Rightarrow> rstr list \<Rightarrow> bool" where
  "unambiguous [] rest = True"
| "unambiguous ((kept, old, new) # es) rest =
     (old \<noteq> [] \<and>
      list_all (\<lambda>j. \<not> matches_at 0 (kept @ old @ edits_old es rest) old j) [0..<length kept] \<and>
      unambiguous es rest)"

fun edit_replacements :: "nat \<Rightarrow> edit list \<Rightarrow> replacement list" where
  "edit_replacements pos [] = []"
| "edit_replacements pos ((kept, old, new) # es) =
     (pos + length kept, length old, new) #
       edit_replacements (pos + length kept + length old) es"

lemma matches_at_append:
  "length pre \<le> i \<Longrightarrow> matches_at k (pre @ ls) pat i \<longleftrightarrow> matches_at k ls pat (i - length pre)"
  by (auto simp: matches_at_def)

lemma seek_sequence_edit:
  assumes "old \<noteq> []" and "list_all (\<lambda>j. \<not> matches_at 0 (kept @ old @ rest) old j) [0..<length kept]"
  shows "seek_sequence (pre @ kept @ old @ rest) old (length pre) False = Some (length pre + length kept)"
proof -
  have "matches_at 0 (pre @ kept @ old @ rest) old (length pre + length kept)"
    by (simp add: matches_at_def)
  moreover have "\<not> matches_at 0 (pre @ kept @ old @ rest) old j"
    if "length pre \<le> j" "j < length pre + length kept" for j
    using that assms(2) by (auto simp: matches_at_append list_all_iff)
  ultimately show ?thesis
    unfolding seek_sequence_Some_iff [OF assms(1)] by (auto simp: seek_from_def intro!: exI [of _ 0])
qed

lemma chunk_replacements_edits:
  "unambiguous es rest \<Longrightarrow>
   chunk_replacements seek_sequence (pre @ edits_old es rest) path (map plain_chunk es) (length pre) =
     Inr (edit_replacements (length pre) es)"
proof (induction es arbitrary: pre)
  case (Cons e es)
  obtain kept old new where e: "e = (kept, old, new)" by (cases e)
  have "seek_sequence (pre @ kept @ old @ edits_old es rest) old (length pre) False =
      Some (length pre + length kept)"
    using Cons.prems e by (intro seek_sequence_edit) auto
  then show ?case
    using Cons.IH [of "pre @ kept @ old"] Cons.prems
    by (simp add: e plain_chunk_def context_index_def locate_def add.assoc)
qed simp

lemma edit_replacements_non_overlapping: "non_overlapping pos (edit_replacements pos es)"
  by (induction pos es rule: edit_replacements.induct) auto

lemma splice_all_edits:
  "splice_all (length pre) (edit_replacements (length pre) es) (pre @ edits_old es rest) = edits_new es rest"
proof (induction es arbitrary: pre)
  case (Cons e es)
  obtain kept old new where e: "e = (kept, old, new)" by (cases e)
  show ?case using Cons.IH [of "pre @ kept @ old"] by (simp add: e add.assoc)
qed simp

lemma new_contents_edits:
  assumes "file_lines contents = edits_old es rest" and "unambiguous es rest"
  shows "new_contents_from_chunks path contents (map plain_chunk es) =
    Some (Inr (lines_contents (edits_new es rest)))"
proof -
  note no = edit_replacements_non_overlapping [of 0 es]
  have c: "compute_replacements (edits_old es rest) path (map plain_chunk es) = Inr (edit_replacements 0 es)"
    using chunk_replacements_edits [OF assms(2), of "[]" path] non_overlapping_sorted [OF no]
    by (simp add: compute_replacements_def compute_replacements_with_def sorted_sort_id sort_key_id_if_sorted)
  show ?thesis
    using apply_computed_reference [OF c no] splice_all_edits [of "[]" es rest]
    by (simp add: new_contents_from_chunks_def assms(1) c)
qed

section \<open>Properties\<close>

text \<open>A one-chunk update of a three-line file, for the examples below.\<close>

definition demo_chunk :: update_file_chunk where
  "demo_chunk = \<lparr>change_context = None, old_lines = [lit ''b''], new_lines = [lit ''x'', lit ''y''],
     is_end_of_file = False\<rparr>"

definition demo_lines :: "rstr list" where
  "demo_lines = [lit ''a'', lit ''b '', lit ''c'']"

lemmas seek_eval = seek_sequence_def seek_exact_def seek_pass_def trim_defs normalise_def
  normalise_char_def is_whitespace_def rust_eval

lemma demo_replacements: "compute_replacements demo_lines [] [demo_chunk] = Inr [(1, 1, [lit ''x'', lit ''y''])]"
  by code_simp

text \<open>
  C13: What \<^verbatim>\<open>seek_sequence\<close> returns for a pattern of at least one line. Without the end-of-file mark it
  finds index \<open>i\<close> exactly when \<open>i\<close> is the first match at or after \<^verbatim>\<open>start\<close> at the strictest of the four
  levels of comparison (verbatim, trailing white space, surrounding white space, Unicode
  look-alikes) that has a match there at all. With the mark, a pattern that matches the end of the
  file at any level is found there.
\<close>

theorem seek_sequence_first_strictest:
  assumes "pattern \<noteq> []"
  shows "(seek_sequence lines pattern start False = Some i \<longleftrightarrow>
      (\<exists>k \<le> 3. start \<le> i \<and> matches_at k lines pattern i \<and>
         (\<forall>j. start \<le> j \<longrightarrow> j < i \<longrightarrow> \<not> matches_at k lines pattern j) \<and>
         (\<forall>k' < k. \<forall>j. start \<le> j \<longrightarrow> \<not> matches_at k' lines pattern j))) \<and>
    (matches_at 3 lines pattern (length lines - length pattern) \<longrightarrow>
      seek_sequence lines pattern start True = Some (length lines - length pattern))"
proof -
  let ?e = "length lines - length pattern"
  have "seek_sequence lines pattern start True = Some ?e" if m: "matches_at 3 lines pattern ?e"
  proof -
    have from_e: "seek_from lines pattern True start = ?e" using m assms by (simp add: seek_from_def matches_at_def)
    then obtain i where i: "seek_sequence lines pattern start True = Some i"
      using m seek_sequence_None_iff [OF assms, of lines start True] by fastforce
    then obtain k where "?e \<le> i" "matches_at k lines pattern i"
      using seek_sequence_Some_iff [OF assms, of lines start True i] from_e by auto
    then have "i = ?e" using assms by (auto simp: matches_at_def)
    then show ?thesis using i by simp
  qed
  then show ?thesis using seek_sequence_Some_iff [OF assms, of lines start False i] by (simp add: seek_from_def)
qed

theorem seek_sequence_first_strictest_witness:
  "\<exists>k \<le> 3. matches_at k demo_lines [lit ''b''] 1 \<and> \<not> matches_at 0 demo_lines [lit ''b''] 1"
proof -
  have "seek_sequence demo_lines [lit ''b''] 0 False = Some 1" by code_simp
  moreover have "\<not> matches_at 0 demo_lines [lit ''b''] 1" by code_simp
  ultimately show ?thesis using seek_sequence_first_strictest [of "[lit ''b'']" demo_lines 0 1] by auto
qed

text \<open>
  When the search fails there is no match, however lenient, in the part of the file that
  was searched.
\<close>

theorem seek_sequence_complete:
  assumes "pattern \<noteq> []"
  shows "seek_sequence lines pattern start eof = None \<longleftrightarrow>
    (\<forall>j. seek_from lines pattern eof start \<le> j \<longrightarrow> \<not> matches_at 3 lines pattern j)"
  by (rule seek_sequence_None_iff [OF assms])

theorem seek_sequence_complete_witness:
  "\<not> matches_at 3 demo_lines [lit ''z''] 1"
proof -
  have "seek_sequence demo_lines [lit ''z''] 0 False = None" by (simp add: demo_lines_def seek_eval)
  then show ?thesis using seek_sequence_complete [of "[lit ''z'']" demo_lines 0 False]
    by (simp add: seek_from_def)
qed

text \<open>
  C16: The replacements of an update hunk. They are in ascending order and inside the file,
  there is one for every chunk, and each is justified by its chunk: the region it replaces
  carries the old lines of the chunk up to the most lenient comparison, and the new lines are
  those of the chunk, a trailing empty line possibly left out of both.
\<close>

theorem compute_replacements_sound:
  assumes "compute_replacements lines path cs = Inr rs"
  shows "sorted (map fst rs) \<and> list_all (\<lambda>(s, n, seg). s + n \<le> length lines) rs \<and>
    (\<exists>rs0. rs = sort_key fst rs0 \<and> list_all2 (justified lines) cs rs0)"
  using sq.compute_replacements_in_bounds [of lines path cs rs]
    sq.compute_replacements_justified [of lines path cs rs] assms
  by (simp add: compute_replacements_def)

theorem compute_replacements_sound_witness:
  "\<exists>rs0. [(1, 1, [lit ''x'', lit ''y''])] = sort_key fst rs0 \<and> list_all2 (justified demo_lines) [demo_chunk] rs0"
  using compute_replacements_sound [OF demo_replacements] by blast

text \<open>
  C5: The in-place edit loop of \<^verbatim>\<open>apply_replacements\<close> is a splice. For chunks without an
  end-of-file mark, in a file that does not end in a blank line (or for chunks that all have
  old lines), the regions do not overlap and the result is the file with every region
  replaced by its new lines and everything else kept.
\<close>

theorem apply_replacements_is_splice:
  assumes "compute_replacements lines path cs = Inr rs"
    and "list_all (\<lambda>c. \<not> is_end_of_file c) cs"
    and "\<not> ends_empty lines \<or> list_all (\<lambda>c. old_lines c \<noteq> []) cs"
  shows "non_overlapping 0 rs \<and> apply_replacements lines rs = Some (splice_all 0 rs lines)"
  using sq.compute_replacements_non_overlapping [of lines path cs rs]
    apply_computed_reference [OF assms(1)] assms
  by (simp add: compute_replacements_def)

theorem apply_replacements_is_splice_witness:
  "apply_replacements demo_lines [(1, 1, [lit ''x'', lit ''y''])] =
     Some [lit ''a'', lit ''x'', lit ''y'', lit ''c'']"
  using apply_replacements_is_splice [OF demo_replacements]
  by (simp add: demo_chunk_def demo_lines_def ends_empty_def last_opt_def)

text \<open>A file as text: every line ends in a newline; in the second form the last newline is missing.\<close>

definition text_of_lines :: "rstr list \<Rightarrow> rstr" where
  "text_of_lines ls = concat (map (\<lambda>l. l @ [newline]) ls)"

definition text_has_lines :: "rstr \<Rightarrow> rstr list \<Rightarrow> bool" where
  "text_has_lines contents ls \<longleftrightarrow>
     list_all (\<lambda>l. newline \<notin> set l) ls \<and>
     (contents = text_of_lines ls \<or> ls \<noteq> [] \<and> last ls \<noteq> [] \<and> contents @ [newline] = text_of_lines ls)"

lemma text_of_lines_join: "ls \<noteq> [] \<Longrightarrow> text_of_lines ls = join_with [newline] ls @ [newline]"
proof (induction ls)
  case (Cons l ls)
  then show ?case by (cases ls) (simp_all add: text_of_lines_def)
qed simp

lemma text_has_lines_read:
  assumes "text_has_lines contents ls"
  shows "file_lines contents = ls"
proof (cases "contents = text_of_lines ls")
  case True
  have "split_on newline (text_of_lines ls) = ls @ [[]]"
    using assms by (simp add: text_has_lines_def text_of_lines_def split_on_terminated)
  then show ?thesis by (simp add: True file_lines_def drop_trailing_empty_def ends_empty_def)
next
  case False
  then have ls: "ls \<noteq> []" "last ls \<noteq> []" "contents @ [newline] = text_of_lines ls" "list_all (\<lambda>l. newline \<notin> set l) ls"
    using assms by (auto simp: text_has_lines_def)
  then have "contents = join_with [newline] ls" using text_of_lines_join by simp
  then show ?thesis using ls by (simp add: split_join_with file_lines_def drop_trailing_empty_def ends_empty_def last_opt_def)
qed

lemma lines_contents_text: "ls = [] \<or> last ls \<noteq> [] \<Longrightarrow> lines_contents ls = text_of_lines ls"
  unfolding lines_contents_eq by (auto simp: text_of_lines_def drop_trailing_empty_def ends_empty_def last_opt_def)

text \<open>
  C3: Applying a diff, on the text of the file. The file is a sequence of kept and old regions, with or
  without a newline at its end; no old region is empty or occurs verbatim between the previous
  region and its own place; and the new file does not end in a blank line. Then an update hunk
  with one chunk per region, without context and end-of-file marks, turns the text of the old file
  into the text of the file with the new regions, newline at the end included.
\<close>

theorem update_applies_diff:
  assumes "text_has_lines contents (edits_old es rest)" and "unambiguous es rest"
    and "edits_new es rest = [] \<or> last (edits_new es rest) \<noteq> []"
  shows "new_contents_from_chunks path contents (map plain_chunk es) = Some (Inr (text_of_lines (edits_new es rest)))"
  using new_contents_edits [OF text_has_lines_read [OF assms(1)] assms(2)] lines_contents_text [OF assms(3)] by simp

definition demo_edits :: "edit list" where
  "demo_edits = [([lit ''a''], [lit ''b''], [lit ''x'']), ([lit ''c''], [lit ''d'', lit ''e''], [])]"

definition demo_contents :: rstr where
  "demo_contents = [97, 10, 98, 10, 99, 10, 100, 10, 101, 10, 102, 10]"

theorem update_applies_diff_witness:
  "new_contents_from_chunks [] demo_contents (map plain_chunk demo_edits) = Some (Inr [97, 10, 120, 10, 99, 10, 102, 10])"
proof -
  have "text_has_lines demo_contents (edits_old demo_edits [lit ''f''])" by code_simp
  moreover have "unambiguous demo_edits [lit ''f'']" by code_simp
  moreover have "edits_new demo_edits [lit ''f''] = [] \<or> last (edits_new demo_edits [lit ''f'']) \<noteq> []" by code_simp
  ultimately have "new_contents_from_chunks [] demo_contents (map plain_chunk demo_edits) =
      Some (Inr (text_of_lines (edits_new demo_edits [lit ''f''])))"
    by (rule update_applies_diff)
  moreover have "text_of_lines (edits_new demo_edits [lit ''f'']) = [97, 10, 120, 10, 99, 10, 102, 10]" by code_simp
  ultimately show ?thesis by simp
qed

text \<open>
  Lines and contents. Writing lines and reading them back gives the lines again, except
  that an empty last line is dropped.
\<close>

theorem contents_round_trip:
  assumes "list_all (\<lambda>l. newline \<notin> set l) ls"
  shows "file_lines (lines_contents ls) = drop_trailing_empty ls"
  by (rule file_lines_contents [OF assms])

theorem contents_round_trip_witness:
  "file_lines (lines_contents [lit ''a'', lit ''b'']) = [lit ''a'', lit ''b'']"
  using contents_round_trip [of "[lit ''a'', lit ''b'']"]
  by (simp add: newline_def rust_eval drop_trailing_empty_def ends_empty_def last_opt_def)

section \<open>Deviations\<close>

text \<open>
  A chunk marked end-of-file is searched for at the end of the file even when an earlier
  chunk has already replaced those lines; its change is then lost without an error.
\<close>

theorem eof_chunk_change_lost:
  "new_contents_from_chunks [] [97, 10, 98, 10]
     [\<lparr>change_context = None, old_lines = [[97], [98]], new_lines = [[120]], is_end_of_file = False\<rparr>,
      \<lparr>change_context = None, old_lines = [[98]], new_lines = [[121]], is_end_of_file = True\<rparr>] =
   Some (Inr [120, 10])"
  by code_simp

text \<open>
  The comment of \<^verbatim>\<open>seek_sequence\<close> promises that an end-of-file search falls back to searching
  from \<^verbatim>\<open>start\<close>; it does not.
\<close>

theorem eof_search_has_no_fallback:
  "seek_sequence [[97], [98]] [[97]] 0 False = Some 0 \<and> seek_sequence [[97], [98]] [[97]] 0 True = None"
  by (simp add: seek_eval)

text \<open>Replacing the first line of a file that ends in a blank line deletes the blank line.\<close>

theorem trailing_blank_line_lost:
  "new_contents_from_chunks [] [97, 10, 10]
     [\<lparr>change_context = None, old_lines = [[97]], new_lines = [[98]], is_end_of_file = False\<rparr>] =
   Some (Inr [98, 10])"
  by code_simp

end
