(* ===== verification/Absolute_Path.thy ===== *)
theory Absolute_Path
  imports Rust_Prelude
begin

text \<open>
  \<^verbatim>\<open>utils/absolute-path/src\<close>: how a path of a patch becomes an absolute, normalised one
  (\<^verbatim>\<open>AbsolutePathBuf::resolve_path_against_base\<close>, \<^verbatim>\<open>from_absolute_path_checked\<close>,
  \<^verbatim>\<open>absolutize.rs\<close>), on Unix, where \<^verbatim>\<open>normalize_path_for_platform\<close> does nothing. A path is its
  text; \<open>components\<close>, \<open>path_push\<close> and \<open>path_parent\<close> are those of \<^verbatim>\<open>std::path\<close>. The home
  directory that \<^verbatim>\<open>dirs::home_dir\<close> reports is a parameter.
\<close>

section \<open>Paths of the standard library\<close>

definition slash :: rchar where "slash = 47"

definition dot :: rstr where "dot = [46]"

definition dot_dot :: rstr where "dot_dot = [46, 46]"

datatype path_component = RootDir | CurDir | ParentDir | Normal rstr

definition is_absolute :: "path_buf \<Rightarrow> bool" where
  "is_absolute p = starts_with [slash] p"

definition named_component :: "rstr \<Rightarrow> path_component" where
  "named_component seg = (if seg = dot_dot then ParentDir else Normal seg)"

definition inner_components :: "rstr list \<Rightarrow> path_component list" where
  "inner_components segs = map named_component (filter (\<lambda>seg. seg \<noteq> [] \<and> seg \<noteq> dot) segs)"

definition components :: "path_buf \<Rightarrow> path_component list" where
  "components p =
     (let segs = split_on slash p in
      if is_absolute p then RootDir # inner_components segs
      else if hd segs = dot then CurDir # inner_components segs
      else inner_components segs)"

fun component_str :: "path_component \<Rightarrow> rstr" where
  "component_str RootDir = [slash]"
| "component_str CurDir = dot"
| "component_str ParentDir = dot_dot"
| "component_str (Normal n) = n"

text \<open>\<^verbatim>\<open>PathBuf::push\<close>, and \<^verbatim>\<open>Path::join\<close>, which pushes on a copy\<close>

definition path_push :: "path_buf \<Rightarrow> path_buf \<Rightarrow> path_buf" where
  "path_push buf p =
     (if is_absolute p then p
      else if buf = [] \<or> last buf = slash then buf @ p
      else buf @ slash # p)"

definition path_of_components :: "path_component list \<Rightarrow> path_buf" where
  "path_of_components cs = foldl (\<lambda>buf c. path_push buf (component_str c)) [] cs"

definition path_parent :: "path_buf \<Rightarrow> path_buf option" where
  "path_parent p =
     (case last_opt (components p) of
        None \<Rightarrow> None
      | Some RootDir \<Rightarrow> None
      | Some _ \<Rightarrow> Some (path_of_components (butlast (components p))))"

definition path_pop :: "path_buf \<Rightarrow> path_buf" where
  "path_pop buf = (case path_parent buf of None \<Rightarrow> buf | Some p \<Rightarrow> p)"

section \<open>The code\<close>

fun normalize_step :: "path_buf \<Rightarrow> path_component \<Rightarrow> path_buf" where
  "normalize_step normalized CurDir = normalized"
| "normalize_step normalized ParentDir = path_pop normalized"
| "normalize_step normalized c = path_push normalized (component_str c)"

definition normalize_path :: "path_buf \<Rightarrow> path_buf" where
  "normalize_path path =
     (let normalized = foldl normalize_step [] (components path)
      in if normalized = [] then dot else normalized)"

definition path_with_base :: "path_buf \<Rightarrow> path_buf \<Rightarrow> path_buf" where
  "path_with_base path base_path = (if is_absolute path then path else path_push base_path path)"

definition absolutize_from :: "path_buf \<Rightarrow> path_buf \<Rightarrow> path_buf" where
  "absolutize_from path base_path = normalize_path (path_with_base path base_path)"

definition maybe_expand_home_directory :: "path_buf option \<Rightarrow> path_buf \<Rightarrow> path_buf" where
  "maybe_expand_home_directory home_dir path =
     (case (home_dir, strip_prefix [chr CHR ''~''] path) of
        (Some home, Some rest) \<Rightarrow>
          if rest = [] then home
          else (case strip_prefix [slash] rest of
                  Some rest' \<Rightarrow> path_push home (dropWhile (\<lambda>c. c = slash) rest')
                | None \<Rightarrow> path)
      | _ \<Rightarrow> path)"

definition resolve_path_against_base :: "path_buf option \<Rightarrow> path_buf \<Rightarrow> path_buf \<Rightarrow> path_buf" where
  "resolve_path_against_base home_dir path base_path =
     absolutize_from (maybe_expand_home_directory home_dir path) base_path"

definition from_absolute_path_checked :: "path_buf option \<Rightarrow> path_buf \<Rightarrow> path_buf option" where
  "from_absolute_path_checked home_dir path =
     (let expanded = maybe_expand_home_directory home_dir path
      in if \<not> is_absolute expanded then None else Some (absolutize_from expanded [slash]))"

section \<open>Specification\<close>

text \<open>
  The directory a sequence of segments leads to, as the names below the root. Going up from
  the root stays there.
\<close>

fun walk :: "rstr list \<Rightarrow> rstr list \<Rightarrow> rstr list" where
  "walk names [] = names"
| "walk names (seg # segs) =
     (if seg = [] \<or> seg = dot then walk names segs
      else if seg = dot_dot then walk (butlast names) segs
      else walk (names @ [seg]) segs)"

text \<open>The directory a path means when it is read from a base, without regard to \<^verbatim>\<open>~\<close>.\<close>

definition directory :: "path_buf \<Rightarrow> path_buf \<Rightarrow> rstr list" where
  "directory base path = walk (if is_absolute path then [] else walk [] (split_on slash base)) (split_on slash path)"

definition tilde :: rchar where "tilde = chr CHR ''~''"

definition proper_name :: "rstr \<Rightarrow> bool" where
  "proper_name n \<longleftrightarrow> n \<noteq> [] \<and> slash \<notin> set n \<and> n \<noteq> dot \<and> n \<noteq> dot_dot"

definition rooted :: "rstr list \<Rightarrow> path_buf" where
  "rooted names = slash # join_with [slash] names"

definition normalized_absolute :: "path_buf \<Rightarrow> bool" where
  "normalized_absolute p \<longleftrightarrow>
     is_absolute p \<and> (p = [slash] \<or> list_all proper_name (tl (split_on slash p)))"

section \<open>Correctness\<close>

lemma slash_dots [simp]: "slash \<notin> set dot" "slash \<notin> set dot_dot" "dot \<noteq> []" "dot_dot \<noteq> []" "dot \<noteq> dot_dot"
  by (auto simp: slash_def dot_def dot_dot_def)

lemma is_absolute_Cons [simp]: "is_absolute (c # p) \<longleftrightarrow> c = slash" "\<not> is_absolute []"
  by (auto simp: is_absolute_def)

lemma walk_append: "walk names (xs @ ys) = walk (walk names xs) ys"
  by (induction names xs rule: walk.induct) auto

lemma split_on_append: "split_on c (a @ c # b) = split_on c a @ split_on c b"
proof (induction a)
  case (Cons x a)
  then show ?case by (cases "split_on c a") auto
qed simp

lemma walk_proper: "list_all proper_name names \<Longrightarrow> list_all (\<lambda>s. slash \<notin> set s) segs \<Longrightarrow>
    list_all proper_name (walk names segs)"
proof (induction names segs rule: walk.induct)
  case (2 names seg segs)
  have "proper_name seg" if "seg \<noteq> []" "seg \<noteq> dot" "seg \<noteq> dot_dot"
    using that "2.prems"(2) by (simp add: proper_name_def)
  then show ?case using 2 by (simp add: list_all_butlast)
qed simp

lemma split_segments: "list_all (\<lambda>s. slash \<notin> set s) (split_on slash p)"
  by (auto simp: list_all_iff dest: split_on_parts)

lemma split_rooted:
  assumes "list_all proper_name names"
  shows "split_on slash (rooted names) = [] # (if names = [] then [[]] else names)"
proof (cases "names = []")
  case False
  have "list_all (\<lambda>s. slash \<notin> set s) names"
    using assms by (auto simp: list_all_iff proper_name_def)
  then show ?thesis using False by (simp add: rooted_def split_join_with)
qed (simp add: rooted_def)

lemma components_rooted:
  assumes "list_all proper_name names"
  shows "components (rooted names) = RootDir # map Normal names"
proof -
  have "map named_component (filter (\<lambda>seg. seg \<noteq> [] \<and> seg \<noteq> dot) names) = map Normal names"
    using assms by (induction names) (auto simp: proper_name_def named_component_def)
  moreover have "is_absolute (rooted names)" by (simp add: rooted_def)
  ultimately show ?thesis
    using split_rooted [OF assms] by (simp add: components_def inner_components_def)
qed

lemma push_rooted:
  assumes "list_all proper_name names" and "proper_name n"
  shows "path_push (rooted names) n = rooted (names @ [n])"
proof -
  have n: "\<not> is_absolute n" using assms(2) by (cases n) (auto simp: proper_name_def)
  show ?thesis
  proof (cases names rule: rev_cases)
    case (snoc ms m)
    then have m: "m \<noteq> []" "slash \<notin> set m" using assms(1) by (auto simp: proper_name_def)
    have join: "join_with [slash] (xs @ [y, z]) = join_with [slash] (xs @ [y]) @ slash # z" for xs y z
      by (induction xs) (simp_all add: join_with_Cons)
    have "\<exists>w. join_with [slash] (ms @ [m]) = w @ m"
      by (induction ms) (auto simp: join_with_Cons)
    then have "last (rooted names) = last m" using m snoc by (auto simp: rooted_def)
    moreover have "last m \<noteq> slash" using m by (metis last_in_set)
    ultimately show ?thesis using n snoc join [of ms m n] by (simp add: path_push_def rooted_def)
  qed (use n in \<open>simp add: path_push_def rooted_def\<close>)
qed

lemma path_of_components_rooted:
  "list_all proper_name names \<Longrightarrow> path_of_components (RootDir # map Normal names) = rooted names"
proof (induction names rule: rev_induct)
  case Nil
  show ?case by (simp add: path_of_components_def path_push_def rooted_def)
next
  case (snoc n names)
  then show ?case using push_rooted [of names n] by (simp add: path_of_components_def)
qed

lemma parent_rooted:
  assumes "list_all proper_name names"
  shows "path_parent (rooted names) = (if names = [] then None else Some (rooted (butlast names)))"
proof (cases names rule: rev_cases)
  case (snoc ms m)
  then show ?thesis
    using assms path_of_components_rooted [of ms]
      last_opt_snoc [of "RootDir # map Normal ms" "Normal m"] butlast_snoc [of "RootDir # map Normal ms" "Normal m"]
    by (simp add: path_parent_def components_rooted)
qed (simp add: path_parent_def components_rooted last_opt_def)

lemma pop_rooted: "list_all proper_name names \<Longrightarrow> path_pop (rooted names) = rooted (butlast names)"
  by (simp add: path_pop_def parent_rooted)

lemma normalize_steps:
  "list_all proper_name names \<Longrightarrow> list_all (\<lambda>s. slash \<notin> set s) segs \<Longrightarrow>
   foldl normalize_step (rooted names) (inner_components segs) = rooted (walk names segs)"
proof (induction names segs rule: walk.induct)
  case (2 names seg segs)
  have "proper_name seg" if "seg \<noteq> []" "seg \<noteq> dot" "seg \<noteq> dot_dot"
    using that "2.prems"(2) by (simp add: proper_name_def)
  then show ?case using 2
    by (simp add: inner_components_def named_component_def pop_rooted push_rooted list_all_butlast)
qed (simp add: inner_components_def)

lemma normalize_absolute:
  assumes "is_absolute p"
  shows "normalize_path p = rooted (walk [] (split_on slash p))"
proof -
  have "foldl normalize_step [] (components p) = foldl normalize_step (rooted []) (inner_components (split_on slash p))"
    using assms by (simp add: components_def path_push_def rooted_def)
  then show ?thesis
    using normalize_steps [OF _ split_segments, of "[]" p]
    by (simp add: normalize_path_def rooted_def)
qed

lemma walk_push:
  assumes "\<not> is_absolute p"
  shows "walk names (split_on slash (path_push base p)) = walk (walk names (split_on slash base)) (split_on slash p)"
proof (cases base rule: rev_cases)
  case Nil
  then show ?thesis using assms by (simp add: path_push_def)
next
  case (snoc b c)
  show ?thesis
  proof (cases "c = slash")
    case True
    then show ?thesis using assms snoc split_on_append [of slash b p] split_on_append [of slash b "[]"]
      by (simp add: path_push_def walk_append)
  next
    case False
    then show ?thesis using assms snoc split_on_append [of slash base p]
      by (simp add: path_push_def walk_append)
  qed
qed

lemma absolutize_from_walk:
  assumes "is_absolute base"
  shows "absolutize_from path base =
    rooted (walk (if is_absolute path then [] else walk [] (split_on slash base)) (split_on slash path))"
proof (cases "is_absolute path")
  case False
  then have "is_absolute (path_push base path)"
    using assms by (cases base) (auto simp: path_push_def)
  then show ?thesis using False
    by (simp add: absolutize_from_def path_with_base_def normalize_absolute walk_push)
qed (simp add: absolutize_from_def path_with_base_def normalize_absolute)

lemma rooted_normalized: "list_all proper_name names \<Longrightarrow> normalized_absolute (rooted names)"
  using split_rooted [of names] by (cases "names = []") (simp_all add: normalized_absolute_def rooted_def)

lemma absolutize_from_normalized:
  assumes "is_absolute base"
  shows "normalized_absolute (absolutize_from path base)"
  unfolding absolutize_from_walk [OF assms]
  by (intro rooted_normalized walk_proper split_segments) (simp add: walk_proper split_segments)

lemma walk_proper_id: "list_all proper_name segs \<Longrightarrow> walk names segs = names @ segs"
  by (induction names segs rule: walk.induct) (auto simp: proper_name_def)

lemma normalized_absolute_fixed:
  assumes "normalized_absolute p"
  shows "absolutize_from p base = p"
proof -
  obtain q where p: "p = slash # q" using assms by (cases p) (auto simp: normalized_absolute_def)
  have "walk [] (split_on slash p) = (if q = [] then [] else split_on slash q)"
    using assms walk_proper_id [of "split_on slash q" "[]"] by (auto simp: normalized_absolute_def p)
  then show ?thesis
    using p normalize_absolute [of p]
    by (simp add: absolutize_from_def path_with_base_def rooted_def)
qed

section \<open>Properties\<close>

lemma walk_drop_slashes: "walk names (split_on slash (dropWhile (\<lambda>c. c = slash) p)) = walk names (split_on slash p)"
  by (induction p) auto

lemma directory_push:
  assumes "\<not> is_absolute p"
  shows "directory base (path_push q p) = walk (directory base q) (split_on slash p)"
proof -
  have "is_absolute (path_push q p) = is_absolute q"
    using assms by (cases q) (auto simp: path_push_def)
  then show ?thesis by (simp add: directory_def walk_push [OF assms])
qed

lemma directory_expand:
  "directory base (maybe_expand_home_directory (Some h) path) =
     (if hd (split_on slash path) = [tilde] then walk (directory base h) (tl (split_on slash path)) else directory base path)"
proof -
  have rel: "\<not> is_absolute (dropWhile (\<lambda>c. c = slash) r)" for r
    by (induction r) auto
  have dashes: "tilde \<noteq> slash" by (simp add: tilde_def slash_def rust_eval)
  consider "path = []" | r where "path = tilde # r" "r = []" | r where "path = tilde # slash # r"
    | c r where "path = tilde # c # r" "c \<noteq> slash" | c r where "path = c # r" "c \<noteq> tilde"
    by (metis list.exhaust)
  then show ?thesis
  proof cases
    case 3
    then show ?thesis using dashes
      by (simp add: maybe_expand_home_directory_def [folded tilde_def] strip_prefix_def directory_push [OF rel] walk_drop_slashes)
  next
    case 5
    then show ?thesis
      by (cases "c = slash") (simp_all add: maybe_expand_home_directory_def [folded tilde_def] strip_prefix_def split: list.split)
  qed (use dashes in \<open>simp_all add: maybe_expand_home_directory_def [folded tilde_def] strip_prefix_def split: list.split\<close>)
qed

text \<open>
  C31: Resolving a path against an absolute base. The result is the directory that walking the
  segments leads to, with \<^verbatim>\<open>..\<close> at the root staying there. The walk starts at the home directory
  when one is known and the first segment is \<^verbatim>\<open>~\<close>, which is not walked itself; else at the root for
  an absolute path and at the base for a relative one. A home directory that is not absolute is
  walked to from the base.
\<close>

theorem resolve_is_walk:
  assumes "is_absolute base"
  shows "resolve_path_against_base home path base =
    rooted (case home of
        Some h \<Rightarrow>
          if hd (split_on slash path) = [tilde] then walk (directory base h) (tl (split_on slash path)) else directory base path
      | None \<Rightarrow> directory base path)"
proof -
  have res: "resolve_path_against_base home path base = rooted (directory base (maybe_expand_home_directory home path))"
    using absolutize_from_walk [OF assms] by (simp add: resolve_path_against_base_def directory_def)
  show ?thesis
  proof (cases home)
    case None
    then show ?thesis unfolding res by (simp add: maybe_expand_home_directory_def)
  next
    case (Some h)
    then show ?thesis using res by (simp add: directory_expand)
  qed
qed

theorem resolve_is_walk_witness:
  "resolve_path_against_base (Some (lit ''/h'')) (lit ''~/../c/./d'') (lit ''/a/b/'') = lit ''/c/d''"
proof -
  have "is_absolute (lit ''/a/b/'')" by (simp add: rust_eval slash_def)
  from resolve_is_walk [OF this] show ?thesis
    by (simp add: rust_eval slash_def dot_def dot_dot_def rooted_def directory_def tilde_def)
qed

text \<open>
  The invariant of \<^verbatim>\<open>AbsolutePathBuf\<close>. Whatever the path and the home directory, resolving
  against an absolute base gives an absolute path without empty, \<^verbatim>\<open>.\<close> or \<^verbatim>\<open>..\<close> segments, and
  resolving that path again changes nothing.
\<close>

theorem resolve_normalized:
  assumes "is_absolute base"
  shows "normalized_absolute (resolve_path_against_base home path base) \<and>
    absolutize_from (resolve_path_against_base home path base) other =
      resolve_path_against_base home path base"
  using absolutize_from_normalized [OF assms] normalized_absolute_fixed
  by (simp add: resolve_path_against_base_def)

theorem resolve_normalized_witness:
  "normalized_absolute (resolve_path_against_base (Some (lit ''/h'')) (lit ''~//x/../y'') (lit ''/a''))"
  using resolve_normalized [of "lit ''/a''"] by (simp add: rust_eval slash_def)

end
