(* ===== verification/Apply_Patch.thy ===== *)
theory Apply_Patch
  imports Replacements Absolute_Path
begin

text \<open>
  The effectful half of \<^verbatim>\<open>apply-patch/src/lib.rs\<close>: applying hunks to a file system and
  recording what was committed. The file system is the trait object
  \<^verbatim>\<open>&dyn ExecutorFileSystem\<close>, a record of operations on a state \<open>'s\<close>; the sandbox argument,
  which the code hands on unchanged, is part of it, and file contents are the text that is
  encoded. A writer (\<^verbatim>\<open>impl std::io::Write\<close>) is a function on a state \<open>'w\<close>. A \<open>None\<close> around a
  result is a panic.
\<close>

section \<open>The file system and the writers\<close>

record file_metadata =
  is_directory :: bool
  is_file :: bool
  is_symlink :: bool

text \<open>
  \<^verbatim>\<open>create_directory\<close> is called with \<^verbatim>\<open>recursive: true\<close>, \<^verbatim>\<open>remove\<close> with \<^verbatim>\<open>recursive: false\<close> and
  \<^verbatim>\<open>force: false\<close>.
\<close>

record 's executor_file_system =
  read_file_text :: "path_buf \<Rightarrow> 's \<Rightarrow> io_error + rstr"
  get_metadata :: "path_buf \<Rightarrow> 's \<Rightarrow> io_error + file_metadata"
  write_file :: "path_buf \<Rightarrow> rstr \<Rightarrow> 's \<Rightarrow> (io_error + unit) \<times> 's"
  create_directory :: "path_buf \<Rightarrow> 's \<Rightarrow> (io_error + unit) \<times> 's"
  remove :: "path_buf \<Rightarrow> 's \<Rightarrow> (io_error + unit) \<times> 's"

type_synonym 'w writer = "rstr \<Rightarrow> 'w \<Rightarrow> (io_error + unit) \<times> 'w"

section \<open>The delta\<close>

datatype applied_patch_file_change =
    AppliedAdd rstr "rstr option"
  | AppliedDelete rstr
  | AppliedUpdate "path_buf option" rstr "rstr option" rstr

record applied_patch_change =
  change_path :: path_buf
  change :: applied_patch_file_change

record applied_patch_delta =
  changes :: "applied_patch_change list"
  exact :: bool

definition delta_empty :: applied_patch_delta where
  "delta_empty = \<lparr>changes = [], exact = True\<rparr>"

definition delta_append :: "applied_patch_delta \<Rightarrow> applied_patch_delta \<Rightarrow> applied_patch_delta" where
  "delta_append d other =
     d\<lparr>changes := changes d @ changes other, exact := exact d \<and> exact other\<rparr>"

definition push_change :: "path_buf \<Rightarrow> applied_patch_file_change \<Rightarrow> applied_patch_delta \<Rightarrow> applied_patch_delta" where
  "push_change p c d = d\<lparr>changes := changes d @ [\<lparr>change_path = p, change = c\<rparr>]\<rparr>"

definition and_exact :: "bool \<Rightarrow> applied_patch_delta \<Rightarrow> applied_patch_delta" where
  "and_exact b d = d\<lparr>exact := exact d \<and> b\<rparr>"

record affected_paths =
  added :: "path_buf list"
  modified :: "path_buf list"
  deleted :: "path_buf list"

section \<open>Errors\<close>

text \<open>
  \<^verbatim>\<open>anyhow::Error\<close>: a message, an I/O error with the context of \<^verbatim>\<open>with_context\<close>, or an
  \<^verbatim>\<open>ApplyPatchError\<close>.
\<close>

datatype anyhow_error =
    AnyMessage rstr
  | AnyIo rstr io_error
  | AnyApply apply_patch_error

fun parse_error_text :: "parse_error \<Rightarrow> rstr" where
  "parse_error_text (InvalidPatchError m) = lit ''invalid patch: '' @ m"
| "parse_error_text (InvalidHunkError m n) = lit ''invalid hunk at line '' @ decimal n @ lit '', '' @ m"

fun apply_patch_error_text :: "apply_patch_error \<Rightarrow> rstr" where
  "apply_patch_error_text (ParseError e) = parse_error_text e"
| "apply_patch_error_text (IoError ctx e) = ctx @ lit '': '' @ message e"
| "apply_patch_error_text (ComputeReplacements m) = m"
| "apply_patch_error_text ImplicitInvocation =
     lit ''patch detected without explicit call to apply_patch. Rerun as ['' @
     [34] @ lit ''apply_patch'' @ [34] @ lit '', '' @ [34] @ lit ''<patch>'' @ [34] @ lit '']''"

fun anyhow_text :: "anyhow_error \<Rightarrow> rstr" where
  "anyhow_text (AnyMessage m) = m"
| "anyhow_text (AnyIo ctx _) = ctx"
| "anyhow_text (AnyApply e) = apply_patch_error_text e"

definition from_io_error :: "io_error \<Rightarrow> apply_patch_error" where
  "from_io_error e = IoError (lit ''I/O error'') e"

text \<open>\<^verbatim>\<open>downcast_ref\<close> finds the I/O error under a context, and only there.\<close>

fun apply_hunks_error :: "anyhow_error \<Rightarrow> apply_patch_error" where
  "apply_hunks_error (AnyIo _ e) = from_io_error e"
| "apply_hunks_error e = IoError (anyhow_text e) \<lparr>kind = OtherKind (lit ''Other''), message = anyhow_text e\<rparr>"

definition failed :: "string \<Rightarrow> path_buf \<Rightarrow> io_error \<Rightarrow> anyhow_error" where
  "failed what path e = AnyIo (lit ''Failed to '' @ lit what @ lit '' '' @ path) e"

section \<open>Helpers\<close>

definition ensure_not_directory :: "'s executor_file_system \<Rightarrow> path_buf \<Rightarrow> 's \<Rightarrow> io_error + unit" where
  "ensure_not_directory fs path s =
     (case get_metadata fs path s of
        Inl e \<Rightarrow> Inl e
      | Inr metadata \<Rightarrow>
          if is_directory metadata
          then Inl \<lparr>kind = InvalidInput, message = lit ''path is a directory''\<rparr>
          else Inr ())"

definition remove_failure_was_side_effect_free ::
    "'s executor_file_system \<Rightarrow> path_buf \<Rightarrow> rstr option \<Rightarrow> 's \<Rightarrow> bool" where
  "remove_failure_was_side_effect_free fs path expected_content s =
     (case expected_content of
        Some expected \<Rightarrow>
          (case read_file_text fs path s of Inr content \<Rightarrow> content = expected | Inl _ \<Rightarrow> False)
      | None \<Rightarrow> False)"

definition note_existing_path_delta_support ::
    "'s executor_file_system \<Rightarrow> path_buf \<Rightarrow> 's \<Rightarrow> applied_patch_delta \<Rightarrow> applied_patch_delta" where
  "note_existing_path_delta_support fs path s d =
     (case get_metadata fs path s of
        Inr metadata \<Rightarrow> if is_file metadata \<and> \<not> is_symlink metadata then d else d\<lparr>exact := False\<rparr>
      | Inl source \<Rightarrow> if kind source = NotFound then d else d\<lparr>exact := False\<rparr>)"

definition read_optional_file_text_for_delta ::
    "'s executor_file_system \<Rightarrow> path_buf \<Rightarrow> 's \<Rightarrow> applied_patch_delta \<Rightarrow>
     rstr option \<times> applied_patch_delta" where
  "read_optional_file_text_for_delta fs path s d =
     (let d1 = note_existing_path_delta_support fs path s d in
      case read_file_text fs path s of
        Inr content \<Rightarrow> (Some content, d1)
      | Inl source \<Rightarrow> if kind source = NotFound then (None, d1) else (None, d1\<lparr>exact := False\<rparr>))"

definition write_file_with_missing_parent_retry ::
    "'s executor_file_system \<Rightarrow> path_buf \<Rightarrow> rstr \<Rightarrow> 's \<Rightarrow> (anyhow_error + unit) \<times> 's" where
  "write_file_with_missing_parent_retry fs path_abs contents s =
     (case write_file fs path_abs contents s of
        (Inr _, s1) \<Rightarrow> (Inr (), s1)
      | (Inl err, s1) \<Rightarrow>
          if kind err = NotFound then
            (case (case path_parent path_abs of
                     None \<Rightarrow> (Inr (), s1)
                   | Some parent_abs \<Rightarrow> create_directory fs parent_abs s1) of
               (Inl e, s2) \<Rightarrow> (Inl (failed ''create parent directories for'' path_abs e), s2)
             | (Inr _, s2) \<Rightarrow>
                 (case write_file fs path_abs contents s2 of
                    (Inl e, s3) \<Rightarrow> (Inl (failed ''write file'' path_abs e), s3)
                  | (Inr _, s3) \<Rightarrow> (Inr (), s3)))
          else (Inl (failed ''write file'' path_abs err), s1))"

definition derive_new_contents_from_chunks ::
    "'s executor_file_system \<Rightarrow> path_buf \<Rightarrow> update_file_chunk list \<Rightarrow> 's \<Rightarrow>
     (apply_patch_error + rstr \<times> rstr) option" where
  "derive_new_contents_from_chunks fs path_abs chunks s =
     (case read_file_text fs path_abs s of
        Inl err \<Rightarrow> Some (Inl (IoError (lit ''Failed to read file to update '' @ path_abs) err))
      | Inr original_contents \<Rightarrow>
          (case new_contents_from_chunks path_abs original_contents chunks of
             None \<Rightarrow> None
           | Some (Inl e) \<Rightarrow> Some (Inl e)
           | Some (Inr new_contents) \<Rightarrow> Some (Inr (original_contents, new_contents))))"

section \<open>Applying one hunk\<close>

text \<open>Each branch of the match returns its result, the delta and the file system.\<close>

definition apply_add_file ::
    "'s executor_file_system \<Rightarrow> path_buf \<Rightarrow> rstr \<Rightarrow> applied_patch_delta \<Rightarrow> 's \<Rightarrow>
     (anyhow_error + unit) \<times> applied_patch_delta \<times> 's" where
  "apply_add_file fs path_abs contents d s =
     (let (overwritten_content, d1) = read_optional_file_text_for_delta fs path_abs s d in
      case write_file_with_missing_parent_retry fs path_abs contents s of
        (Inl e, s1) \<Rightarrow> (Inl e, d1\<lparr>exact := False\<rparr>, s1)
      | (Inr _, s1) \<Rightarrow> (Inr (), push_change path_abs (AppliedAdd contents overwritten_content) d1, s1))"

definition apply_delete_file ::
    "'s executor_file_system \<Rightarrow> path_buf \<Rightarrow> applied_patch_delta \<Rightarrow> 's \<Rightarrow>
     (anyhow_error + unit) \<times> applied_patch_delta \<times> 's" where
  "apply_delete_file fs path_abs d s =
     (let d1 = note_existing_path_delta_support fs path_abs s d;
          deleted_content = (case read_file_text fs path_abs s of Inr c \<Rightarrow> Some c | Inl _ \<Rightarrow> None);
          d2 = and_exact (deleted_content \<noteq> None) d1
      in case ensure_not_directory fs path_abs s of
           Inl e \<Rightarrow> (Inl (failed ''delete file'' path_abs e), d2, s)
         | Inr _ \<Rightarrow>
             (case remove fs path_abs s of
                (Inl e, s1) \<Rightarrow>
                  (Inl (failed ''delete file'' path_abs e),
                   and_exact (remove_failure_was_side_effect_free fs path_abs deleted_content s1) d2,
                   s1)
              | (Inr _, s1) \<Rightarrow>
                  (Inr (),
                   (case deleted_content of
                      Some content \<Rightarrow> push_change path_abs (AppliedDelete content) d2
                    | None \<Rightarrow> d2),
                   s1)))"

definition apply_move_file ::
    "'s executor_file_system \<Rightarrow> path_buf \<Rightarrow> path_buf \<Rightarrow> rstr \<Rightarrow> rstr \<Rightarrow>
     applied_patch_delta \<Rightarrow> 's \<Rightarrow> (anyhow_error + unit) \<times> applied_patch_delta \<times> 's" where
  "apply_move_file fs path_abs dest_abs original_contents new_contents d s =
     (let (overwritten_move_content, d1) = read_optional_file_text_for_delta fs dest_abs s d in
      case write_file_with_missing_parent_retry fs dest_abs new_contents s of
        (Inl e, s1) \<Rightarrow> (Inl e, d1\<lparr>exact := False\<rparr>, s1)
      | (Inr _, s1) \<Rightarrow>
          (let dest_write_change_index = length (changes d1);
               d2 = push_change dest_abs (AppliedAdd new_contents overwritten_move_content) d1
           in case ensure_not_directory fs path_abs s1 of
                Inl e \<Rightarrow> (Inl (failed ''remove original'' path_abs e), d2, s1)
              | Inr _ \<Rightarrow>
                  (case remove fs path_abs s1 of
                     (Inl e, s2) \<Rightarrow>
                       (Inl (failed ''remove original'' path_abs e),
                        and_exact (remove_failure_was_side_effect_free fs path_abs
                          (Some original_contents) s2) d2,
                        s2)
                   | (Inr _, s2) \<Rightarrow>
                       (Inr (),
                        d2\<lparr>changes := (changes d2)[dest_write_change_index :=
                          \<lparr>change_path = path_abs,
                           change = AppliedUpdate (Some dest_abs) original_contents
                             overwritten_move_content new_contents\<rparr>]\<rparr>,
                        s2))))"

definition apply_write_file ::
    "'s executor_file_system \<Rightarrow> path_buf \<Rightarrow> rstr \<Rightarrow> rstr \<Rightarrow> applied_patch_delta \<Rightarrow> 's \<Rightarrow>
     (anyhow_error + unit) \<times> applied_patch_delta \<times> 's" where
  "apply_write_file fs path_abs original_contents new_contents d s =
     (case write_file fs path_abs new_contents s of
        (Inl e, s1) \<Rightarrow> (Inl (failed ''write file'' path_abs e), d\<lparr>exact := False\<rparr>, s1)
      | (Inr _, s1) \<Rightarrow>
          (Inr (),
           push_change path_abs (AppliedUpdate None original_contents None new_contents) d, s1))"

definition apply_update_file ::
    "path_buf option \<Rightarrow> path_buf \<Rightarrow> 's executor_file_system \<Rightarrow> path_buf \<Rightarrow> path_buf option \<Rightarrow>
     update_file_chunk list \<Rightarrow> applied_patch_delta \<Rightarrow> 's \<Rightarrow>
     ((anyhow_error + unit) \<times> applied_patch_delta \<times> 's) option" where
  "apply_update_file home cwd fs path_abs move_path chunks d s =
     (let d1 = note_existing_path_delta_support fs path_abs s d in
      case derive_new_contents_from_chunks fs path_abs chunks s of
        None \<Rightarrow> None
      | Some (Inl e) \<Rightarrow> Some (Inl (AnyApply e), d1, s)
      | Some (Inr (original_contents, new_contents)) \<Rightarrow>
          (case move_path of
             Some dest \<Rightarrow>
               Some (apply_move_file fs path_abs (resolve_path_against_base home dest cwd)
                 original_contents new_contents d1 s)
           | None \<Rightarrow> Some (apply_write_file fs path_abs original_contents new_contents d1 s)))"

fun note_affected :: "hunk \<Rightarrow> affected_paths \<Rightarrow> affected_paths" where
  "note_affected (AddFile p c) a = a\<lparr>added := added a @ [hunk_path (AddFile p c)]\<rparr>"
| "note_affected (DeleteFile p) a = a\<lparr>deleted := deleted a @ [hunk_path (DeleteFile p)]\<rparr>"
| "note_affected (UpdateFile p m cs) a = a\<lparr>modified := modified a @ [hunk_path (UpdateFile p m cs)]\<rparr>"

fun apply_hunk ::
    "path_buf option \<Rightarrow> path_buf \<Rightarrow> 's executor_file_system \<Rightarrow> hunk \<Rightarrow> applied_patch_delta \<Rightarrow> 's \<Rightarrow>
     ((anyhow_error + unit) \<times> applied_patch_delta \<times> 's) option" where
  "apply_hunk home cwd fs (AddFile path contents) d s =
     Some (apply_add_file fs
       (resolve_path (resolve_path_against_base home) cwd (AddFile path contents)) contents d s)"
| "apply_hunk home cwd fs (DeleteFile path) d s =
     Some (apply_delete_file fs
       (resolve_path (resolve_path_against_base home) cwd (DeleteFile path)) d s)"
| "apply_hunk home cwd fs (UpdateFile path move_path chunks) d s =
     apply_update_file home cwd fs
       (resolve_path (resolve_path_against_base home) cwd (UpdateFile path move_path chunks))
       move_path chunks d s"

section \<open>Applying a patch\<close>

text \<open>The loop of \<^verbatim>\<open>apply_hunks_to_files\<close>\<close>

fun hunks_loop ::
    "path_buf option \<Rightarrow> path_buf \<Rightarrow> 's executor_file_system \<Rightarrow> hunk list \<Rightarrow> affected_paths \<Rightarrow>
     applied_patch_delta \<Rightarrow> 's \<Rightarrow> ((anyhow_error + affected_paths) \<times> applied_patch_delta \<times> 's) option" where
  "hunks_loop home cwd fs [] a d s = Some (Inr a, d, s)"
| "hunks_loop home cwd fs (h # hs) a d s =
     (case apply_hunk home cwd fs h d s of
        None \<Rightarrow> None
      | Some (Inl e, d1, s1) \<Rightarrow> Some (Inl e, d1, s1)
      | Some (Inr _, d1, s1) \<Rightarrow> hunks_loop home cwd fs hs (note_affected h a) d1 s1)"

definition apply_hunks_to_files ::
    "path_buf option \<Rightarrow> path_buf \<Rightarrow> 's executor_file_system \<Rightarrow> hunk list \<Rightarrow>
     applied_patch_delta \<Rightarrow> 's \<Rightarrow> ((anyhow_error + affected_paths) \<times> applied_patch_delta \<times> 's) option" where
  "apply_hunks_to_files home cwd fs hs d s =
     (if hs = [] then Some (Inl (AnyMessage (lit ''No files were modified.'')), d, s)
      else hunks_loop home cwd fs hs \<lparr>added = [], modified = [], deleted = []\<rparr> d s)"

fun write_all_lines :: "'w writer \<Rightarrow> rstr list \<Rightarrow> 'w \<Rightarrow> (io_error + unit) \<times> 'w" where
  "write_all_lines out [] w = (Inr (), w)"
| "write_all_lines out (l # ls) w =
     (case out (l @ [newline]) w of
        (Inl e, w1) \<Rightarrow> (Inl e, w1)
      | (Inr _, w1) \<Rightarrow> write_all_lines out ls w1)"

definition summary_lines :: "affected_paths \<Rightarrow> rstr list" where
  "summary_lines a =
     [lit ''Success. Updated the following files:''] @
     map (\<lambda>p. lit ''A '' @ p) (added a) @ map (\<lambda>p. lit ''M '' @ p) (modified a) @
     map (\<lambda>p. lit ''D '' @ p) (deleted a)"

definition print_summary :: "'w writer \<Rightarrow> affected_paths \<Rightarrow> 'w \<Rightarrow> (io_error + unit) \<times> 'w" where
  "print_summary out a w = write_all_lines out (summary_lines a) w"

text \<open>An \<^verbatim>\<open>ApplyPatchFailure\<close> is the pair of its error and its delta.\<close>

type_synonym apply_result = "(apply_patch_error \<times> applied_patch_delta) + applied_patch_delta"

definition apply_hunks ::
    "path_buf option \<Rightarrow> path_buf \<Rightarrow> 's executor_file_system \<Rightarrow> 'w writer \<Rightarrow> 'w writer \<Rightarrow>
     hunk list \<Rightarrow> 's \<Rightarrow> 'w \<Rightarrow> (apply_result \<times> 's \<times> 'w) option" where
  "apply_hunks home cwd fs stdout stderr hs s w =
     (case apply_hunks_to_files home cwd fs hs delta_empty s of
        None \<Rightarrow> None
      | Some (Inr affected, d, s1) \<Rightarrow>
          (case print_summary stdout affected w of
             (Inl e, w1) \<Rightarrow> Some (Inl (from_io_error e, d), s1, w1)
           | (Inr _, w1) \<Rightarrow> Some (Inr d, s1, w1))
      | Some (Inl error, d, s1) \<Rightarrow>
          (case stderr (anyhow_text error @ [newline]) w of
             (Inl e, w1) \<Rightarrow> Some (Inl (from_io_error e, d), s1, w1)
           | (Inr _, w1) \<Rightarrow> Some (Inl (apply_hunks_error error, d), s1, w1)))"

fun invalid_patch_line :: "parse_error \<Rightarrow> rstr" where
  "invalid_patch_line (InvalidPatchError m) = lit ''Invalid patch: '' @ m"
| "invalid_patch_line (InvalidHunkError m n) =
     lit ''Invalid patch hunk on line '' @ decimal n @ lit '': '' @ m"

definition apply_patch ::
    "path_buf option \<Rightarrow> path_buf \<Rightarrow> 's executor_file_system \<Rightarrow> 'w writer \<Rightarrow> 'w writer \<Rightarrow>
     rstr \<Rightarrow> 's \<Rightarrow> 'w \<Rightarrow> (apply_result \<times> 's \<times> 'w) option" where
  "apply_patch home cwd fs stdout stderr patch s w =
     (case parse_patch patch of
        Inr source \<Rightarrow> apply_hunks home cwd fs stdout stderr (hunks source) s w
      | Inl e \<Rightarrow>
          (case stderr (invalid_patch_line e @ [newline]) w of
             (Inl io, w1) \<Rightarrow> Some (Inl (from_io_error io, delta_empty), s, w1)
           | (Inr _, w1) \<Rightarrow> Some (Inl (ParseError e, delta_empty), s, w1)))"

end
