(* ===== verification/Applied_Delta.thy ===== *)
theory Applied_Delta
  imports Apply_Patch
begin

text \<open>
  What the delta of \<^verbatim>\<open>apply_hunks_to_files\<close> says about the file system. While it is marked
  exact, its changes, replayed on the contents before the call, give the contents after it,
  also when the call fails half way; and each change records the contents it replaced.
\<close>

section \<open>The file system the delta describes\<close>

text \<open>The text of every file, by path.\<close>

type_synonym contents_map = "path_buf \<Rightarrow> rstr option"

definition plain_path :: "'s executor_file_system \<Rightarrow> path_buf \<Rightarrow> 's \<Rightarrow> bool" where
  "plain_path fs p s \<longleftrightarrow>
     (case get_metadata fs p s of
        Inr metadata \<Rightarrow> is_file metadata \<and> \<not> is_symlink metadata
      | Inl e \<Rightarrow> kind e = NotFound)"

definition reads_contents :: "'s executor_file_system \<Rightarrow> ('s \<Rightarrow> contents_map) \<Rightarrow> bool" where
  "reads_contents fs view \<longleftrightarrow>
     (\<forall>p s c. read_file_text fs p s = Inr c \<longrightarrow> view s p = Some c) \<and>
     (\<forall>p s e. read_file_text fs p s = Inl e \<longrightarrow> kind e = NotFound \<longrightarrow> view s p = None)"

text \<open>
  Writing a regular or missing file changes that file only; a write that fails because the
  file or its directory is missing changes nothing.
\<close>

definition writes_contents :: "'s executor_file_system \<Rightarrow> ('s \<Rightarrow> contents_map) \<Rightarrow> bool" where
  "writes_contents fs view \<longleftrightarrow>
     (\<forall>p c s s'. plain_path fs p s \<longrightarrow> write_file fs p c s = (Inr (), s') \<longrightarrow>
        view s' = (view s)(p \<mapsto> c)) \<and>
     (\<forall>p c s s' e. write_file fs p c s = (Inl e, s') \<longrightarrow> kind e = NotFound \<longrightarrow> s' = s)"

definition creates_directories :: "'s executor_file_system \<Rightarrow> ('s \<Rightarrow> contents_map) \<Rightarrow> bool" where
  "creates_directories fs view \<longleftrightarrow>
     (\<forall>p q s s'. path_parent p = Some q \<longrightarrow> create_directory fs q s = (Inr (), s') \<longrightarrow>
        view s' = view s \<and> (plain_path fs p s \<longrightarrow> plain_path fs p s'))"

definition removes_contents :: "'s executor_file_system \<Rightarrow> ('s \<Rightarrow> contents_map) \<Rightarrow> bool" where
  "removes_contents fs view \<longleftrightarrow>
     (\<forall>p s s'. remove fs p s = (Inr (), s') \<longrightarrow> view s' = (view s)(p := None)) \<and>
     (\<forall>p s s' e. remove fs p s = (Inl e, s') \<longrightarrow> (\<forall>q. q \<noteq> p \<longrightarrow> view s' q = view s q))"

definition fs_laws :: "'s executor_file_system \<Rightarrow> ('s \<Rightarrow> contents_map) \<Rightarrow> bool" where
  "fs_laws fs view \<longleftrightarrow> reads_contents fs view \<and> writes_contents fs view \<and>
     creates_directories fs view \<and> removes_contents fs view"

section \<open>Replaying a delta\<close>

fun change_result :: "path_buf \<Rightarrow> applied_patch_file_change \<Rightarrow> contents_map \<Rightarrow> contents_map" where
  "change_result p (AppliedAdd c _) m = m(p \<mapsto> c)"
| "change_result p (AppliedDelete _) m = m(p := None)"
| "change_result p (AppliedUpdate None _ _ c) m = m(p \<mapsto> c)"
| "change_result p (AppliedUpdate (Some dest) _ _ c) m = (m(p := None))(dest \<mapsto> c)"

text \<open>The contents a change says it replaced are those that were there.\<close>

fun change_accurate :: "path_buf \<Rightarrow> applied_patch_file_change \<Rightarrow> contents_map \<Rightarrow> bool" where
  "change_accurate p (AppliedAdd _ overwritten) m = (m p = overwritten)"
| "change_accurate p (AppliedDelete c) m = (m p = Some c)"
| "change_accurate p (AppliedUpdate None old _ _) m = (m p = Some old)"
| "change_accurate p (AppliedUpdate (Some dest) old overwritten _) m =
     (p \<noteq> dest \<and> m p = Some old \<and> m dest = overwritten)"

fun describes :: "contents_map \<Rightarrow> applied_patch_change list \<Rightarrow> contents_map \<Rightarrow> bool" where
  "describes m [] m' = (m = m')"
| "describes m (c # cs) m' =
     (change_accurate (change_path c) (change c) m \<and>
      describes (change_result (change_path c) (change c) m) cs m')"

lemma describes_append:
  "describes m (xs @ ys) m' \<longleftrightarrow> (\<exists>m1. describes m xs m1 \<and> describes m1 ys m')"
  by (induction xs arbitrary: m) auto

section \<open>Every step keeps the delta accurate\<close>

definition delta_step ::
    "('s \<Rightarrow> contents_map) \<Rightarrow> applied_patch_delta \<Rightarrow> 's \<Rightarrow> applied_patch_delta \<Rightarrow> 's \<Rightarrow> bool" where
  "delta_step view d s d' s' \<longleftrightarrow>
     (exact d' \<longrightarrow> exact d \<and>
        (\<exists>cs. changes d' = changes d @ cs \<and> describes (view s) cs (view s')))"

lemma delta_step_refl: "exact d' \<longrightarrow> exact d \<Longrightarrow> changes d' = changes d \<Longrightarrow> view s' = view s \<Longrightarrow>
    delta_step view d s d' s'"
  by (auto simp: delta_step_def)

lemma delta_step_trans:
  "delta_step view d s d1 s1 \<Longrightarrow> delta_step view d1 s1 d2 s2 \<Longrightarrow> delta_step view d s d2 s2"
  by (auto simp: delta_step_def describes_append)

lemma delta_step_inexact: "delta_step view d s (d'\<lparr>exact := False\<rparr>) s'"
  by (simp add: delta_step_def)

lemma and_exact_True [simp]: "and_exact True d = d"
  by (simp add: and_exact_def)

lemma delta_step_push:
  assumes "exact d1 \<longrightarrow> exact d" and "changes d1 = changes d"
    and "exact d1 \<Longrightarrow> change_accurate p c (view s) \<and> view s' = change_result p c (view s)"
  shows "delta_step view d s (push_change p c d1) s'"
  using assms by (auto simp: delta_step_def push_change_def)

lemma note_frame:
  "changes (note_existing_path_delta_support fs p s d) = changes d"
  "exact (note_existing_path_delta_support fs p s d) \<longleftrightarrow> exact d \<and> plain_path fs p s"
  by (auto simp: note_existing_path_delta_support_def plain_path_def split: sum.splits)

lemma read_optional_frame:
  assumes "read_optional_file_text_for_delta fs p s d = (o', d')" and "reads_contents fs view"
  shows "changes d' = changes d" and "exact d' \<longrightarrow> exact d \<and> plain_path fs p s \<and> view s p = o'"
  using assms
  by (auto simp: read_optional_file_text_for_delta_def reads_contents_def Let_def note_frame
      split: sum.splits if_splits)

lemma write_retry_view:
  assumes "write_file_with_missing_parent_retry fs p c s = (Inr u, s')" and "fs_laws fs view"
    and "plain_path fs p s"
  shows "view s' = (view s)(p \<mapsto> c)"
proof (cases "write_file fs p c s")
  case (Pair r s1)
  note W = assms(2) [unfolded fs_laws_def writes_contents_def creates_directories_def]
  show ?thesis
  proof (cases r)
    case (Inr v)
    then show ?thesis using Pair assms W
      by (auto simp: write_file_with_missing_parent_retry_def)
  next
    case (Inl e)
    then have nf: "kind e = NotFound"
      using Pair assms(1) by (auto simp: write_file_with_missing_parent_retry_def split: if_splits)
    then have s1: "s1 = s" using Inl Pair W by blast
    have retry: "\<exists>s2. view s2 = view s \<and> plain_path fs p s2 \<and> write_file fs p c s2 = (Inr (), s')"
    proof (cases "path_parent p")
      case None
      then show ?thesis using Pair Inl nf s1 assms(1,3)
        by (auto simp: write_file_with_missing_parent_retry_def split: prod.splits sum.splits)
    next
      case (Some q)
      then obtain s2 where "create_directory fs q s = (Inr (), s2)" "write_file fs p c s2 = (Inr (), s')"
        using Pair Inl nf s1 assms(1)
        by (auto simp: write_file_with_missing_parent_retry_def split: prod.splits sum.splits)
      then show ?thesis using W Some assms(3) by blast
    qed
    then show ?thesis using W by metis
  qed
qed

lemma apply_add_file_delta:
  assumes "fs_laws fs view" and "apply_add_file fs p c d s = (r, d', s')"
  shows "delta_step view d s d' s'"
proof -
  obtain o' d1 where ro: "read_optional_file_text_for_delta fs p s d = (o', d1)" by fastforce
  note fr = read_optional_frame [OF ro, of view]
  have laws: "reads_contents fs view" using assms(1) by (simp add: fs_laws_def)
  obtain w s1 where w: "write_file_with_missing_parent_retry fs p c s = (w, s1)" by fastforce
  show ?thesis
  proof (cases w)
    case (Inr u)
    then show ?thesis using assms ro w fr laws write_retry_view [of fs p c s u s1 view]
      by (auto simp: apply_add_file_def intro!: delta_step_push)
  qed (use assms ro w in \<open>auto simp: apply_add_file_def delta_step_inexact\<close>)
qed

lemma remove_view:
  assumes "fs_laws fs view"
  shows "remove fs p s = (Inr u, s') \<Longrightarrow> view s' = (view s)(p := None)"
    and "remove fs p s = (Inl e, s') \<Longrightarrow> remove_failure_was_side_effect_free fs p (Some c) s' \<Longrightarrow>
      view s p = Some c \<Longrightarrow> view s' = view s"
proof -
  show "view s' = (view s)(p := None)" if "remove fs p s = (Inr u, s')"
    using assms that by (simp add: fs_laws_def removes_contents_def)
  assume r: "remove fs p s = (Inl e, s')" "remove_failure_was_side_effect_free fs p (Some c) s'"
    "view s p = Some c"
  have "view s' p = Some c"
    using r(2) assms
    by (auto simp: remove_failure_was_side_effect_free_def fs_laws_def reads_contents_def split: sum.splits)
  moreover have "view s' q = view s q" if "q \<noteq> p" for q
    using assms r(1) that unfolding fs_laws_def removes_contents_def by blast
  ultimately show "view s' = view s" using r(3) by (metis ext)
qed

lemma apply_delete_file_delta:
  assumes "fs_laws fs view" and "apply_delete_file fs p d s = (r, d', s')"
  shows "delta_step view d s d' s'"
proof -
  define d1 where "d1 = note_existing_path_delta_support fs p s d"
  have d1: "changes d1 = changes d" "exact d1 \<longrightarrow> exact d" by (auto simp: d1_def note_frame)
  show ?thesis
  proof (cases "read_file_text fs p s")
    case (Inl e)
    then have "\<not> exact d'" using assms(2)
      by (auto simp: apply_delete_file_def Let_def and_exact_def split: sum.splits prod.splits)
    then show ?thesis by (simp add: delta_step_def)
  next
    case (Inr c)
    then have c: "view s p = Some c" using assms(1) by (auto simp: fs_laws_def reads_contents_def)
    note eq = assms(2) [unfolded apply_delete_file_def Let_def d1_def [symmetric], simplified Inr, simplified]
    show ?thesis
    proof (cases "ensure_not_directory fs p s")
      case (Inl e)
      then show ?thesis using eq d1 by (auto intro: delta_step_refl)
    next
      case (Inr u)
      obtain q s1 where rm: "remove fs p s = (q, s1)" by fastforce
      show ?thesis
      proof (cases q)
        case (Inl e)
        then have "d' = and_exact (remove_failure_was_side_effect_free fs p (Some c) s1) d1" "s' = s1"
          using eq Inr rm by auto
        then show ?thesis
          using d1 c Inl rm remove_view(2) [OF assms(1), of p s e s1 c]
          by (auto simp: delta_step_def and_exact_def)
      next
        case ok: (Inr v)
        then have "d' = push_change p (AppliedDelete c) d1" "s' = s1" using eq Inr rm by auto
        then show ?thesis
          using d1 c ok rm remove_view(1) [OF assms(1), of p s v s1] by (auto intro: delta_step_push)
      qed
    qed
  qed
qed

lemma apply_move_file_delta:
  assumes "fs_laws fs view" and "p \<noteq> dest" and "view s p = Some old"
    and "apply_move_file fs p dest old new d s = (r, d', s')"
  shows "delta_step view d s d' s'"
proof -
  obtain o' d1 where ro: "read_optional_file_text_for_delta fs dest s d = (o', d1)" by fastforce
  have laws: "reads_contents fs view" using assms(1) by (simp add: fs_laws_def)
  note fr = read_optional_frame [OF ro laws]
  obtain w s1 where w: "write_file_with_missing_parent_retry fs dest new s = (w, s1)" by fastforce
  show ?thesis
  proof (cases w)
    case (Inl e)
    then show ?thesis using assms ro w by (auto simp: apply_move_file_def delta_step_inexact)
  next
    case (Inr u)
    define d2 where "d2 = push_change dest (AppliedAdd new o') d1"
    have v1: "view s1 = (view s)(dest \<mapsto> new)" if "exact d1"
      using write_retry_view [of fs dest new s u s1 view] w Inr assms(1) fr(2) that by simp
    have step: "delta_step view d s d2 s1"
      unfolding d2_def using fr v1 by (intro delta_step_push) auto
    have undone: "delta_step view d s (and_exact b d2) s2"
      if "b \<longrightarrow> view s1 p = Some old \<longrightarrow> view s2 = view s1" for b s2
      using step v1 assms(2,3) that by (auto simp: delta_step_def and_exact_def d2_def push_change_def)
    note eq = assms(4) [unfolded apply_move_file_def Let_def, simplified ro w Inr, simplified, folded d2_def]
    show ?thesis
    proof (cases "ensure_not_directory fs p s1")
      case (Inl e)
      then show ?thesis using eq step by auto
    next
      case nodir: (Inr v)
      obtain q s2 where rm: "remove fs p s1 = (q, s2)" by fastforce
      show ?thesis
      proof (cases q)
        case (Inl e)
        then have "d' = and_exact (remove_failure_was_side_effect_free fs p (Some old) s2) d2" "s' = s2"
          using eq nodir rm by auto
        then show ?thesis
          using undone rm Inl remove_view(2) [OF assms(1), of p s1 e s2 old] by auto
      next
        case ok: (Inr x)
        have v2: "view s2 = (view s1)(p := None)" using remove_view(1) [OF assms(1)] rm ok by auto
        have "d' = push_change p (AppliedUpdate (Some dest) old o' new) d1" "s' = s2"
          using eq nodir rm ok by (auto simp: d2_def push_change_def)
        then show ?thesis
          using fr v1 v2 assms(2,3) by (auto intro!: delta_step_push fun_upd_twist)
      qed
    qed
  qed
qed

lemma derive_new_contents_original:
  assumes "derive_new_contents_from_chunks fs p cs s = Some (Inr (old, new))"
  shows "read_file_text fs p s = Inr old"
  using assms by (auto simp: derive_new_contents_from_chunks_def split: sum.splits option.splits)

lemma apply_update_file_delta:
  assumes "fs_laws fs view" and "\<forall>dest. mv = Some dest \<longrightarrow> p \<noteq> resolve_path_against_base home dest cwd"
    and "apply_update_file home cwd fs p mv cs d s = Some (r, d', s')"
  shows "delta_step view d s d' s'"
proof -
  define d1 where "d1 = note_existing_path_delta_support fs p s d"
  have d1: "changes d1 = changes d" "exact d1 \<longrightarrow> exact d \<and> plain_path fs p s"
    by (auto simp: d1_def note_frame)
  have noted: "delta_step view d s d1 s" using d1 by (auto intro: delta_step_refl)
  note eq = assms(3) [unfolded apply_update_file_def Let_def, folded d1_def]
  show ?thesis
  proof (cases "\<exists>old new. derive_new_contents_from_chunks fs p cs s = Some (Inr (old, new))")
    case False
    then show ?thesis using eq noted by (auto split: option.splits sum.splits)
  next
    case True
    then obtain old new where on: "derive_new_contents_from_chunks fs p cs s = Some (Inr (old, new))" by blast
    have old: "view s p = Some old"
      using derive_new_contents_original [OF on] assms(1) by (auto simp: fs_laws_def reads_contents_def)
    show ?thesis
    proof (cases mv)
      case (Some dest)
      then have "apply_move_file fs p (resolve_path_against_base home dest cwd) old new d1 s = (r, d', s')"
        using eq on by simp
      from apply_move_file_delta [OF assms(1) _ old this] show ?thesis
        using assms(2) Some noted by (auto intro: delta_step_trans)
    next
      case None
      then have eq: "apply_write_file fs p old new d1 s = (r, d', s')" using eq on by simp
      obtain w s1 where w: "write_file fs p new s = (w, s1)" by fastforce
      show ?thesis
      proof (cases w)
        case (Inl e)
        then show ?thesis using eq w by (auto simp: apply_write_file_def delta_step_inexact)
      next
        case (Inr u)
        have "view s1 = (view s)(p \<mapsto> new)" if "plain_path fs p s"
          using assms(1) w Inr that by (auto simp: fs_laws_def writes_contents_def)
        then show ?thesis using eq w Inr d1 old
          by (auto simp: apply_write_file_def intro!: delta_step_push)
      qed
    qed
  qed
qed

fun no_self_move :: "path_buf option \<Rightarrow> path_buf \<Rightarrow> hunk \<Rightarrow> bool" where
  "no_self_move home cwd (UpdateFile path (Some dest) _) =
     (resolve_path_against_base home path cwd \<noteq> resolve_path_against_base home dest cwd)"
| "no_self_move home cwd _ = True"

lemma apply_hunk_delta:
  assumes "fs_laws fs view" and "no_self_move home cwd h" and "apply_hunk home cwd fs h d s = Some (r, d', s')"
  shows "delta_step view d s d' s'"
proof (cases h)
  case (UpdateFile path mv cs)
  then show ?thesis using assms
    by (cases mv) (auto intro: apply_update_file_delta)
qed (use assms in \<open>auto intro: apply_add_file_delta apply_delete_file_delta\<close>)

lemma hunks_loop_delta:
  assumes "fs_laws fs view"
  shows "list_all (no_self_move home cwd) hs \<Longrightarrow> hunks_loop home cwd fs hs a d s = Some (r, d', s') \<Longrightarrow>
    delta_step view d s d' s'"
proof (induction hs arbitrary: a d s)
  case (Cons h hs)
  obtain q d1 s1 where h: "apply_hunk home cwd fs h d s = Some (q, d1, s1)"
    using Cons.prems by (auto split: option.splits)
  note step = apply_hunk_delta [OF assms _ h]
  show ?case
  proof (cases q)
    case (Inl e)
    then show ?thesis using Cons.prems h step by simp
  next
    case (Inr u)
    then show ?thesis using Cons.prems Cons.IH [of "note_affected h a" d1 s1] h step
      by (auto intro: delta_step_trans)
  qed
qed (auto intro: delta_step_refl)

lemma apply_hunks_to_files_delta:
  assumes "fs_laws fs view" and "list_all (no_self_move home cwd) hs"
    and "apply_hunks_to_files home cwd fs hs d s = Some (r, d', s')"
  shows "delta_step view d s d' s'"
  using assms hunks_loop_delta [OF assms(1,2)]
  by (auto simp: apply_hunks_to_files_def split: if_splits intro: delta_step_refl)

section \<open>Results\<close>

definition result_delta :: "apply_result \<Rightarrow> applied_patch_delta" where
  "result_delta r = (case r of Inl (e, d) \<Rightarrow> d | Inr d \<Rightarrow> d)"

lemma apply_hunks_delta:
  assumes "fs_laws fs view" and "list_all (no_self_move home cwd) hs"
    and "apply_hunks home cwd fs stdout stderr hs s w = Some (r, s', w')" and "exact (result_delta r)"
  shows "describes (view s) (changes (result_delta r)) (view s')"
proof -
  obtain q d where q: "apply_hunks_to_files home cwd fs hs delta_empty s = Some (q, d, s')" "result_delta r = d"
    using assms(3) by (auto simp: apply_hunks_def result_delta_def split: option.splits sum.splits prod.splits)
  from apply_hunks_to_files_delta [OF assms(1,2) q(1)] show ?thesis
    using assms(4) q(2) by (simp add: delta_step_def delta_empty_def)
qed

lemma derive_total: "\<exists>r. derive_new_contents_from_chunks fs p cs s = Some r"
proof (cases "read_file_text fs p s")
  case (Inr c)
  obtain r where "new_contents_from_chunks p c cs = Some r" using new_contents_total by blast
  then show ?thesis using Inr by (cases r) (auto simp: derive_new_contents_from_chunks_def)
qed (simp add: derive_new_contents_from_chunks_def)

lemma apply_hunk_total: "apply_hunk home cwd fs h d s \<noteq> None"
proof (cases h)
  case (UpdateFile p mv cs)
  obtain r where "derive_new_contents_from_chunks fs (resolve_path_against_base home p cwd) cs s = Some r"
    using derive_total [of fs "resolve_path_against_base home p cwd" cs s] by auto
  then show ?thesis using UpdateFile
    by (cases r; cases mv) (simp_all add: apply_update_file_def del: not_None_eq split: prod.split)
qed simp_all

lemma hunks_loop_total: "hunks_loop home cwd fs hs a d s \<noteq> None"
proof (induction hs arbitrary: a d s)
  case (Cons h hs)
  obtain q d1 s1 where h: "apply_hunk home cwd fs h d s = Some (q, d1, s1)"
    using apply_hunk_total [of home cwd fs h d s] by auto
  then show ?case using Cons by (cases q) auto
qed simp

lemma apply_hunks_total: "apply_hunks home cwd fs stdout stderr hs s w \<noteq> None"
proof -
  obtain q d s1 where "apply_hunks_to_files home cwd fs hs delta_empty s = Some (q, d, s1)"
    using hunks_loop_total [of home cwd fs hs "\<lparr>added = [], modified = [], deleted = []\<rparr>" delta_empty s]
    by (cases "hs = []") (auto simp: apply_hunks_to_files_def)
  then show ?thesis by (cases q) (auto simp: apply_hunks_def split: prod.splits sum.splits)
qed

lemma apply_patch_total: "apply_patch home cwd fs stdout stderr patch s w \<noteq> None"
  using apply_hunks_total by (auto simp: apply_patch_def split: sum.splits prod.splits)

section \<open>A file system in memory\<close>

text \<open>
  Every path holds a text or nothing and nothing but a removal of a missing file fails: an
  instance of the laws above.
\<close>

definition not_found :: io_error where
  "not_found = \<lparr>kind = NotFound, message = lit ''not found''\<rparr>"

definition mem_fs :: "contents_map executor_file_system" where
  "mem_fs =
     \<lparr>read_file_text = (\<lambda>p m. case m p of Some c \<Rightarrow> Inr c | None \<Rightarrow> Inl not_found),
      get_metadata = (\<lambda>p m. case m p of
         Some _ \<Rightarrow> Inr \<lparr>is_directory = False, is_file = True, is_symlink = False\<rparr>
       | None \<Rightarrow> Inl not_found),
      write_file = (\<lambda>p c m. (Inr (), m(p \<mapsto> c))),
      create_directory = (\<lambda>p m. (Inr (), m)),
      remove = (\<lambda>p m. case m p of Some _ \<Rightarrow> (Inr (), m(p := None)) | None \<Rightarrow> (Inl not_found, m))\<rparr>"

lemma mem_fs_laws: "fs_laws mem_fs (\<lambda>m. m)"
  by (auto simp: fs_laws_def reads_contents_def writes_contents_def creates_directories_def
      removes_contents_def mem_fs_def not_found_def split: option.splits)

definition quiet_writer :: "unit writer" where
  "quiet_writer = (\<lambda>t w. (Inr (), w))"

section \<open>Properties\<close>

text \<open>
  C30: Applying a patch never panics: for every patch text, file system and writer, with
  overlapping chunks too, \<^verbatim>\<open>apply_patch\<close> returns a delta or a failure.
\<close>

theorem apply_patch_never_panics: "apply_patch home cwd fs stdout stderr patch s w \<noteq> None"
  by (rule apply_patch_total)

text \<open>
  C2: An exact delta tells the truth. On a file system that obeys the laws, if the delta that
  \<^verbatim>\<open>apply_hunks\<close> returns, on success or on failure, is marked exact, then its changes replayed
  on the contents before the call give precisely the contents after it, and every change
  records the contents it replaced. Moves of a file onto itself are excluded.
\<close>

theorem exact_delta_describes_effects:
  assumes "fs_laws fs view" and "list_all (no_self_move home cwd) hs"
    and "apply_hunks home cwd fs stdout stderr hs s w = Some (r, s', w')" and "exact (result_delta r)"
  shows "describes (view s) (changes (result_delta r)) (view s')"
  by (rule apply_hunks_delta [OF assms])

definition demo_fs :: contents_map where
  "demo_fs = [lit ''/f'' \<mapsto> [97, 10]]"

definition demo_delta :: applied_patch_delta where
  "demo_delta = \<lparr>changes =
     [\<lparr>change_path = lit ''/g'', change = AppliedAdd [98, 10] None\<rparr>,
      \<lparr>change_path = lit ''/f'', change = AppliedDelete [97, 10]\<rparr>], exact = True\<rparr>"

lemma demo_resolve:
  "resolve_path_against_base None (lit ''g'') [slash] = lit ''/g''"
  "resolve_path_against_base None (lit ''f'') [slash] = lit ''/f''"
  by code_simp+

lemmas mem_eval = apply_hunks_def apply_hunks_to_files_def apply_add_file_def apply_delete_file_def
  read_optional_file_text_for_delta_def note_existing_path_delta_support_def
  write_file_with_missing_parent_retry_def ensure_not_directory_def mem_fs_def not_found_def
  push_change_def delta_empty_def and_exact_def

lemma demo_apply:
  "apply_hunks None [slash] mem_fs quiet_writer quiet_writer
     [AddFile (lit ''g'') [98, 10], DeleteFile (lit ''f'')] demo_fs () =
   Some (Inr demo_delta, (demo_fs(lit ''/g'' \<mapsto> [98, 10]))(lit ''/f'' := None), ())"
  by (simp add: mem_eval demo_resolve demo_fs_def demo_delta_def print_summary_def summary_lines_def
      quiet_writer_def)

theorem exact_delta_describes_effects_witness:
  "describes demo_fs (changes demo_delta) ((demo_fs(lit ''/g'' \<mapsto> [98, 10]))(lit ''/f'' := None))"
  using exact_delta_describes_effects [OF mem_fs_laws _ demo_apply]
  by (simp add: result_delta_def demo_delta_def)

section \<open>Deviations\<close>

text \<open>
  An update hunk that moves a file onto itself writes the new contents and then removes the
  file; the delta, still marked exact, says the file has the new contents.
\<close>

theorem self_move_deletes_file:
  "apply_hunk None [slash] mem_fs (UpdateFile (lit ''f'') (Some (lit ''f'')) [\<lparr>change_context = None,
      old_lines = [[97]], new_lines = [[98]], is_end_of_file = False\<rparr>]) delta_empty demo_fs =
   Some (Inr (), \<lparr>changes = [\<lparr>change_path = lit ''/f'',
      change = AppliedUpdate (Some (lit ''/f'')) [97, 10] (Some [97, 10]) [98, 10]\<rparr>], exact = True\<rparr>,
      demo_fs(lit ''/f'' := None))"
proof -
  have "new_contents_from_chunks (lit ''/f'') [97, 10] [\<lparr>change_context = None,
      old_lines = [[97]], new_lines = [[98]], is_end_of_file = False\<rparr>] = Some (Inr [98, 10])"
    by code_simp
  then show ?thesis
    by (simp add: apply_update_file_def derive_new_contents_from_chunks_def apply_move_file_def mem_eval
        demo_resolve demo_fs_def)
qed

end
