(* ===== verification/Turn_Diff.thy ===== *)
theory Turn_Diff
  imports Applied_Delta "HOL-Library.AList" "HOL-Library.List_Lexorder"
begin

text \<open>
  \<^verbatim>\<open>core/src/turn_diff_tracker.rs\<close>: the net diff of a turn, accumulated from the deltas of
  \<^verbatim>\<open>apply_patch\<close> without reading the file system again. A \<^verbatim>\<open>HashMap\<close> is an association list with
  distinct keys; the order in which it is iterated is the parameter \<open>iter\<close>. The SHA-1 blob
  id and the text differ of the crate \<^verbatim>\<open>similar\<close> are parameters too.
\<close>

section \<open>Model\<close>

type_synonym path_map = "(path_buf \<times> rstr) list"

record turn_diff_tracker =
  valid :: bool
  display_root :: "path_buf option"
  baseline_by_path :: path_map
  current_by_path :: path_map
  origin_by_current_path :: path_map

definition tracker_new :: turn_diff_tracker where
  "tracker_new = \<lparr>valid = True, display_root = None, baseline_by_path = [], current_by_path = [],
     origin_by_current_path = []\<rparr>"

definition with_display_root :: "path_buf \<Rightarrow> turn_diff_tracker" where
  "with_display_root root = tracker_new\<lparr>display_root := Some root\<rparr>"

abbreviation has_key :: "path_buf \<Rightarrow> path_map \<Rightarrow> bool" where
  "has_key p m \<equiv> map_of m p \<noteq> None"

definition insert_baseline :: "path_buf \<Rightarrow> rstr \<Rightarrow> turn_diff_tracker \<Rightarrow> turn_diff_tracker" where
  "insert_baseline p c t = t\<lparr>baseline_by_path := AList.update p c (baseline_by_path t)\<rparr>"

definition apply_add :: "path_buf \<Rightarrow> rstr \<Rightarrow> rstr option \<Rightarrow> turn_diff_tracker \<Rightarrow> turn_diff_tracker" where
  "apply_add path content overwritten_content t =
     (let t1 = t\<lparr>origin_by_current_path := AList.delete path (origin_by_current_path t)\<rparr>;
          t2 = (if \<not> has_key path (current_by_path t1) \<and> \<not> has_key path (baseline_by_path t1) then
                  (case overwritten_content of
                     Some c \<Rightarrow> insert_baseline path c t1
                   | None \<Rightarrow> t1)
                else t1)
      in t2\<lparr>current_by_path := AList.update path content (current_by_path t2)\<rparr>)"

definition apply_delete :: "path_buf \<Rightarrow> rstr \<Rightarrow> turn_diff_tracker \<Rightarrow> turn_diff_tracker" where
  "apply_delete path content t =
     (let was_current = has_key path (current_by_path t);
          t1 = t\<lparr>current_by_path := AList.delete path (current_by_path t)\<rparr>;
          t2 = (if \<not> was_current \<and> \<not> has_key path (baseline_by_path t1)
                then insert_baseline path content t1 else t1)
      in t2\<lparr>origin_by_current_path := AList.delete path (origin_by_current_path t2)\<rparr>)"

definition apply_update ::
    "path_buf \<Rightarrow> path_buf option \<Rightarrow> rstr \<Rightarrow> rstr option \<Rightarrow> rstr \<Rightarrow>
     turn_diff_tracker \<Rightarrow> turn_diff_tracker" where
  "apply_update source_path move_path old_content overwritten_move_content new_content t =
     (let t1 = (if \<not> has_key source_path (current_by_path t) \<and> \<not> has_key source_path (baseline_by_path t)
                then insert_baseline source_path old_content t else t)
      in case move_path of
           Some dest_path \<Rightarrow>
             (let t2 = (if \<not> has_key dest_path (current_by_path t1)
                           \<and> \<not> has_key dest_path (baseline_by_path t1) then
                          (case overwritten_move_content of
                             Some c \<Rightarrow> insert_baseline dest_path c t1
                           | None \<Rightarrow> t1)
                        else t1);
                  origin = (case map_of (origin_by_current_path t2) source_path of
                              Some o' \<Rightarrow> o' | None \<Rightarrow> source_path);
                  origins = AList.delete dest_path (AList.delete source_path (origin_by_current_path t2))
              in t2\<lparr>current_by_path :=
                       AList.update dest_path new_content
                         (AList.delete source_path (current_by_path t2)),
                    origin_by_current_path :=
                       (if dest_path \<noteq> origin then AList.update dest_path origin origins else origins)\<rparr>)
         | None \<Rightarrow> t1\<lparr>current_by_path := AList.update source_path new_content (current_by_path t1)\<rparr>)"

definition apply_change :: "applied_patch_change \<Rightarrow> turn_diff_tracker \<Rightarrow> turn_diff_tracker" where
  "apply_change c =
     (case change c of
        AppliedAdd content overwritten_content \<Rightarrow> apply_add (change_path c) content overwritten_content
      | AppliedDelete content \<Rightarrow> apply_delete (change_path c) content
      | AppliedUpdate move_path old_content overwritten_move_content new_content \<Rightarrow>
          apply_update (change_path c) move_path old_content overwritten_move_content new_content)"

definition invalidate :: "turn_diff_tracker \<Rightarrow> turn_diff_tracker" where
  "invalidate t = t\<lparr>valid := False\<rparr>"

definition track_delta :: "applied_patch_delta \<Rightarrow> turn_diff_tracker \<Rightarrow> turn_diff_tracker" where
  "track_delta d t = (if \<not> exact d then invalidate t else fold apply_change (changes d) t)"

subsection \<open>Rendering\<close>

record diff_env =
  iter :: "path_map \<Rightarrow> path_map"
  git_blob_oid :: "rstr \<Rightarrow> rstr"
  text_diff :: "rstr \<Rightarrow> rstr \<Rightarrow> rstr \<Rightarrow> rstr \<Rightarrow> rstr"

definition path_strip_prefix :: "path_buf \<Rightarrow> path_buf \<Rightarrow> path_buf option" where
  "path_strip_prefix root path =
     map_option path_of_components (strip_prefix (components root) (components path))"

definition display_path :: "turn_diff_tracker \<Rightarrow> path_buf \<Rightarrow> rstr" where
  "display_path t path =
     (let display = (case display_root t of
                       None \<Rightarrow> path
                     | Some root \<Rightarrow> (case path_strip_prefix root path of Some p \<Rightarrow> p | None \<Rightarrow> path))
      in map (\<lambda>c. if c = 92 then slash else c) display)"

definition ZERO_OID :: rstr where "ZERO_OID = replicate 40 48"

definition DEV_NULL :: rstr where "DEV_NULL = lit ''/dev/null''"

definition render_diff ::
    "diff_env \<Rightarrow> turn_diff_tracker \<Rightarrow> path_buf \<Rightarrow> rstr option \<Rightarrow> path_buf \<Rightarrow> rstr option \<Rightarrow> rstr option" where
  "render_diff env t left_path left_content right_path right_content =
     (if left_content = right_content then None
      else
        let left_display = display_path t left_path;
            right_display = display_path t right_path;
            oid = (\<lambda>c. case c of None \<Rightarrow> ZERO_OID | Some x \<Rightarrow> git_blob_oid env x);
            header = (\<lambda>pre disp c. case c of None \<Rightarrow> DEV_NULL | Some _ \<Rightarrow> lit pre @ disp);
            text_of = (\<lambda>c. case c of None \<Rightarrow> [] | Some x \<Rightarrow> x);
            mode = (case (left_content, right_content) of
                      (None, Some _) \<Rightarrow> lit ''new file mode 100644'' @ [newline]
                    | (Some _, None) \<Rightarrow> lit ''deleted file mode 100644'' @ [newline]
                    | _ \<Rightarrow> [])
        in Some (lit ''diff --git a/'' @ left_display @ lit '' b/'' @ right_display @ [newline] @ mode @
                 lit ''index '' @ oid left_content @ lit ''..'' @ oid right_content @ [newline] @
                 text_diff env (text_of left_content) (text_of right_content)
                   (header ''a/'' left_display left_content) (header ''b/'' right_display right_content)))"

definition render_path_diff :: "diff_env \<Rightarrow> turn_diff_tracker \<Rightarrow> path_buf \<Rightarrow> rstr option" where
  "render_path_diff env t path =
     render_diff env t path (map_of (baseline_by_path t) path) path (map_of (current_by_path t) path)"

definition render_rename_diff :: "diff_env \<Rightarrow> turn_diff_tracker \<Rightarrow> path_buf \<Rightarrow> path_buf \<Rightarrow> rstr option" where
  "render_rename_diff env t source_path dest_path =
     render_diff env t source_path (map_of (baseline_by_path t) source_path)
       dest_path (map_of (current_by_path t) dest_path)"

definition is_rename :: "turn_diff_tracker \<Rightarrow> path_buf \<times> path_buf \<Rightarrow> bool" where
  "is_rename t e = (case e of (dest_path, origin_path) \<Rightarrow>
     \<not> (dest_path = origin_path
        \<or> has_key origin_path (current_by_path t)
        \<or> \<not> has_key dest_path (current_by_path t)
        \<or> \<not> has_key origin_path (baseline_by_path t)
        \<or> has_key dest_path (baseline_by_path t)))"

text \<open>Collected into a \<^verbatim>\<open>HashMap\<close>, a later pair with the same origin replaces an earlier one.\<close>

definition rename_pairs :: "diff_env \<Rightarrow> turn_diff_tracker \<Rightarrow> path_map" where
  "rename_pairs env t =
     fold (\<lambda>(dest, origin). AList.update origin dest)
       (filter (is_rename t) (iter env (origin_by_current_path t))) []"

fun diff_loop ::
    "diff_env \<Rightarrow> turn_diff_tracker \<Rightarrow> path_map \<Rightarrow> path_buf list \<Rightarrow> path_buf list \<Rightarrow> rstr \<Rightarrow> rstr" where
  "diff_loop env t pairs [] handled aggregated = aggregated"
| "diff_loop env t pairs (path # paths) handled aggregated =
     (if path \<in> set handled then diff_loop env t pairs paths handled aggregated
      else if path \<in> snd ` set pairs then diff_loop env t pairs paths (path # handled) aggregated
      else
        let (diff, handled1) =
              (case map_of pairs path of
                 Some dest \<Rightarrow> (render_rename_diff env t path dest, dest # path # handled)
               | None \<Rightarrow> (render_path_diff env t path, path # handled))
        in diff_loop env t pairs paths handled1
             (case diff of
                None \<Rightarrow> aggregated
              | Some text \<Rightarrow>
                  (let a = aggregated @ text in if ends_with [newline] a then a else a @ [newline])))"

definition diff_paths :: "diff_env \<Rightarrow> turn_diff_tracker \<Rightarrow> path_buf list" where
  "diff_paths env t =
     remdups_adj (sort_key (display_path t)
       (map fst (iter env (baseline_by_path t)) @ map fst (iter env (current_by_path t))))"

definition get_unified_diff :: "diff_env \<Rightarrow> turn_diff_tracker \<Rightarrow> rstr option" where
  "get_unified_diff env t =
     (if \<not> valid t then None
      else
        let aggregated = diff_loop env t (rename_pairs env t) (diff_paths env t) [] []
        in if aggregated = [] then None else Some aggregated)"

section \<open>The tracker follows the file system\<close>

text \<open>
  The baseline holds the contents at the start of the turn (\<open>v0\<close>) and the current map those
  of now (\<open>v\<close>), for every path that changed.
\<close>

definition tracks :: "contents_map \<Rightarrow> contents_map \<Rightarrow> turn_diff_tracker \<Rightarrow> bool" where
  "tracks v0 v t \<longleftrightarrow>
     (\<forall>p. (map_of (baseline_by_path t) p, map_of (current_by_path t) p) = (v0 p, v p)
        \<or> \<not> has_key p (baseline_by_path t) \<and> \<not> has_key p (current_by_path t) \<and> v0 p = v p)"

lemma tracks_new: "tracks v v tracker_new"
  by (simp add: tracks_def tracker_new_def)

lemma tracksD:
  "tracks v0 v t \<Longrightarrow> (map_of (baseline_by_path t) p = v0 p \<and> map_of (current_by_path t) p = v p) \<or>
     (map_of (baseline_by_path t) p = None \<and> map_of (current_by_path t) p = None \<and> v0 p = v p)"
  by (auto simp: tracks_def)

lemma apply_add_tracks:
  assumes "tracks v0 v t" and "v p = ov"
  shows "tracks v0 (v(p \<mapsto> c)) (apply_add p c ov t)"
  using assms(2) tracksD [OF assms(1)] tracksD [OF assms(1), of p]
  by (auto simp: tracks_def apply_add_def Let_def insert_baseline_def update_conv' split: option.splits)

lemma apply_delete_tracks:
  assumes "tracks v0 v t" and "v p = Some c"
  shows "tracks v0 (v(p := None)) (apply_delete p c t)"
  using assms(2) tracksD [OF assms(1)] tracksD [OF assms(1), of p]
  by (auto simp: tracks_def apply_delete_def Let_def insert_baseline_def update_conv' delete_conv')

lemma apply_update_tracks:
  assumes "tracks v0 v t" and "v p = Some old"
  shows "tracks v0 (v(p \<mapsto> c)) (apply_update p None old ov c t)"
  using assms(2) tracksD [OF assms(1)] tracksD [OF assms(1), of p]
  by (auto simp: tracks_def apply_update_def Let_def insert_baseline_def update_conv')

text \<open>A move is the removal of the source followed by writing the destination.\<close>

lemma apply_move_maps:
  assumes "p \<noteq> dest"
  shows "map_of (baseline_by_path (apply_update p (Some dest) old ov c t)) =
      map_of (baseline_by_path (apply_add dest c ov (apply_delete p old t)))"
    and "map_of (current_by_path (apply_update p (Some dest) old ov c t)) =
      map_of (current_by_path (apply_add dest c ov (apply_delete p old t)))"
  using assms
  by (auto simp: apply_update_def apply_add_def apply_delete_def Let_def insert_baseline_def
      update_conv' delete_conv' split: option.splits)

lemma apply_move_tracks:
  assumes "tracks v0 v t" and "p \<noteq> dest" and "v p = Some old" and "v dest = ov"
  shows "tracks v0 ((v(p := None))(dest \<mapsto> c)) (apply_update p (Some dest) old ov c t)"
proof -
  have "tracks v0 ((v(p := None))(dest \<mapsto> c)) (apply_add dest c ov (apply_delete p old t))"
    using apply_add_tracks [OF apply_delete_tracks [OF assms(1,3)]] assms(2,4) by simp
  then show ?thesis
    by (simp add: tracks_def apply_move_maps [OF assms(2)])
qed

lemma apply_change_tracks:
  assumes "tracks v0 v t" and "change_accurate (change_path c) (change c) v"
  shows "tracks v0 (change_result (change_path c) (change c) v) (apply_change c t)"
proof (cases "change c")
  case (AppliedUpdate mv old ov new)
  then show ?thesis using assms
    by (cases mv) (auto simp: apply_change_def intro: apply_update_tracks apply_move_tracks)
qed (use assms in \<open>auto simp: apply_change_def intro: apply_add_tracks apply_delete_tracks\<close>)

lemma describes_tracks:
  "describes v cs v' \<Longrightarrow> tracks v0 v t \<Longrightarrow> tracks v0 v' (fold apply_change cs t)"
  by (induction cs arbitrary: v t) (auto intro: apply_change_tracks)

lemma fold_change_valid: "valid (fold apply_change cs t) = valid t"
proof (induction cs arbitrary: t)
  case (Cons c cs)
  have "valid (apply_change c t) = valid t"
    by (auto simp: apply_change_def apply_add_def apply_delete_def apply_update_def Let_def insert_baseline_def
        split: applied_patch_file_change.splits option.splits)
  then show ?case using Cons by simp
qed simp

lemma track_delta_tracks:
  assumes "exact d \<Longrightarrow> describes v (changes d) v'" and "valid t \<longrightarrow> tracks v0 v t"
  shows "valid (track_delta d t) \<longrightarrow> tracks v0 v' (track_delta d t)"
  using assms by (auto simp: track_delta_def invalidate_def fold_change_valid intro: describes_tracks)

section \<open>The diff shows the net change\<close>

lemma diff_loop_silent:
  "(\<And>p. p \<in> set paths \<Longrightarrow> render_path_diff env t p = None) \<Longrightarrow>
   diff_loop env t [] paths handled aggregated = aggregated"
  by (induction paths arbitrary: handled) (auto simp: Let_def)

lemma no_net_change_maps:
  assumes "tracks v v t"
  shows "map_of (baseline_by_path t) = map_of (current_by_path t)"
  using tracksD [OF assms] by (intro ext) metis

lemma no_net_change_no_diff:
  assumes "tracks v v t"
  shows "get_unified_diff env t = None"
proof -
  note eq = no_net_change_maps [OF assms]
  have "is_rename t e = False" for e
    by (cases e) (auto simp: is_rename_def eq)
  then have "rename_pairs env t = []" by (simp add: rename_pairs_def)
  moreover have "render_path_diff env t p = None" for p
    by (simp add: render_path_diff_def render_diff_def eq)
  ultimately show ?thesis by (simp add: get_unified_diff_def diff_loop_silent)
qed

lemma diff_loop_mono: "aggregated \<noteq> [] \<Longrightarrow> diff_loop env t pairs paths handled aggregated \<noteq> []"
  by (induction paths arbitrary: handled aggregated) (auto simp: Let_def split: option.splits prod.splits)

lemma diff_loop_shows:
  assumes "render_path_diff env t p = Some text" and "text \<noteq> []"
    and "p \<notin> snd ` set pairs" and "map_of pairs p = None"
  shows "p \<in> set paths \<Longrightarrow> p \<notin> set handled \<Longrightarrow> diff_loop env t pairs paths handled aggregated \<noteq> []"
proof (induction paths arbitrary: handled aggregated)
  case (Cons q paths)
  show ?case
  proof (cases "q = p")
    case True
    then show ?thesis using Cons.prems assms by (simp add: Let_def diff_loop_mono)
  next
    case False
    have "dest \<noteq> p" if "map_of pairs q = Some dest" for dest
      using that assms(3) map_of_SomeD by force
    then show ?thesis using Cons False by (auto simp: Let_def split: option.splits)
  qed
qed simp

lemma net_change_shown:
  assumes "tracks v0 v t" and "valid t" and "v0 p \<noteq> v p"
    and "\<And>m. set (iter env m) = set m"
    and "p \<notin> snd ` set (rename_pairs env t)" and "map_of (rename_pairs env t) p = None"
  shows "get_unified_diff env t \<noteq> None"
proof -
  have maps: "map_of (baseline_by_path t) p = v0 p" "map_of (current_by_path t) p = v p"
    using tracksD [OF assms(1), of p] assms(3) by auto
  then have "p \<in> set (diff_paths env t)"
    using assms(3) by (auto simp: diff_paths_def assms(4) dest!: map_of_SomeD simp: image_iff split: prod.splits)
      (metis fst_conv map_of_SomeD not_Some_eq)+
  moreover obtain out where "render_path_diff env t p = Some out" "out \<noteq> []"
    using assms(3) maps by (auto simp: render_path_diff_def render_diff_def Let_def lit_def)
  ultimately have "diff_loop env t (rename_pairs env t) (diff_paths env t) [] [] \<noteq> []"
    using diff_loop_shows assms(5,6) by simp
  then show ?thesis using assms(2) by (simp add: get_unified_diff_def Let_def)
qed

section \<open>A turn\<close>

text \<open>
  During a turn the agent applies patches one after the other and hands every delta, that of
  a failed patch too, to the tracker.
\<close>

inductive turn_reachable ::
    "path_buf option \<Rightarrow> path_buf \<Rightarrow> 's executor_file_system \<Rightarrow> 'w writer \<Rightarrow> 'w writer \<Rightarrow>
     's \<Rightarrow> hunk list list \<Rightarrow> 's \<Rightarrow> turn_diff_tracker \<Rightarrow> bool"
  for home cwd fs stdout stderr s0 where
  start: "turn_reachable home cwd fs stdout stderr s0 [] s0 tracker_new"
| patch: "turn_reachable home cwd fs stdout stderr s0 patches s t \<Longrightarrow>
    apply_hunks home cwd fs stdout stderr hs s w = Some (r, s', w') \<Longrightarrow>
    turn_reachable home cwd fs stdout stderr s0 (patches @ [hs]) s' (track_delta (result_delta r) t)"

lemma turn_tracks:
  assumes "turn_reachable home cwd fs stdout stderr s0 patches s t" and "fs_laws fs view"
    and "list_all (no_self_move home cwd) (concat patches)"
  shows "valid t \<longrightarrow> tracks (view s0) (view s) t"
  using assms(1,3)
proof (induction rule: turn_reachable.induct)
  case start
  show ?case by (simp add: tracks_new)
next
  case (patch patches s t hs w r s' w')
  have "list_all (no_self_move home cwd) hs" using patch.prems by simp
  note delta = apply_hunks_delta [OF assms(2) this patch.hyps(2)]
  show ?case by (rule track_delta_tracks [OF delta]) (use patch in simp_all)
qed

section \<open>Properties\<close>

definition demo_turn :: turn_diff_tracker where
  "demo_turn = track_delta demo_delta tracker_new"

definition demo_env :: diff_env where
  "demo_env = \<lparr>iter = rev, git_blob_oid = id, text_diff = (\<lambda>_ _ _ _. [])\<rparr>"

lemma demo_turn_reachable:
  "turn_reachable None [slash] mem_fs quiet_writer quiet_writer demo_fs
     [[AddFile (lit ''g'') [98, 10], DeleteFile (lit ''f'')]] ((demo_fs(lit ''/g'' \<mapsto> [98, 10]))(lit ''/f'' := None)) demo_turn"
  using turn_reachable.patch [OF turn_reachable.start demo_apply]
  by (simp add: demo_turn_def result_delta_def)

text \<open>
  C6: The tracker follows the file system. Over any sequence of patches of a turn, successful or
  failed, in which no hunk moves a file onto itself, and on a file system that obeys the laws: while
  the tracker is valid its baseline holds the contents from the start of the turn and its current
  map the contents of now for every path it knows, and all other paths are as they were, though it
  never reads the file system.
\<close>

theorem turn_diff_tracks_file_system:
  assumes "turn_reachable home cwd fs stdout stderr s0 patches s t" and "fs_laws fs view"
    and "list_all (no_self_move home cwd) (concat patches)" and "valid t"
  shows "tracks (view s0) (view s) t"
  using turn_tracks [OF assms(1-3)] assms(4) by simp

lemma demo_turn_valid: "valid demo_turn"
  using fold_change_valid [of "changes demo_delta" tracker_new]
  by (simp add: demo_turn_def track_delta_def demo_delta_def tracker_new_def)

theorem turn_diff_tracks_file_system_witness:
  "tracks demo_fs ((demo_fs(lit ''/g'' \<mapsto> [98, 10]))(lit ''/f'' := None)) demo_turn"
  by (rule turn_diff_tracks_file_system [OF demo_turn_reachable mem_fs_laws _ demo_turn_valid]) simp

text \<open>
  No net change, no diff. If the patches of a turn bring every file back to what it was,
  the turn has no unified diff, whatever the order in which the hash maps are iterated.
  As before no hunk moves a file onto itself.
\<close>

theorem no_net_change_yields_no_diff:
  assumes "turn_reachable home cwd fs stdout stderr s0 patches s t" and "fs_laws fs view"
    and "list_all (no_self_move home cwd) (concat patches)" and "view s = view s0"
  shows "get_unified_diff env t = None"
proof (cases "valid t")
  case True
  then have "tracks (view s0) (view s0) t" using turn_tracks [OF assms(1-3)] assms(4) by simp
  then show ?thesis by (rule no_net_change_no_diff)
qed (simp add: get_unified_diff_def)

theorem no_net_change_yields_no_diff_witness: "get_unified_diff demo_env tracker_new = None"
  using no_net_change_yields_no_diff [OF turn_reachable.start
    [of None "[slash]" mem_fs quiet_writer quiet_writer demo_fs] mem_fs_laws] by simp

text \<open>
  Every other net change is shown. A path whose contents differ from those at the start
  of the turn, and which is not one end of a rename, makes the diff of a valid tracker
  non-empty.
\<close>

theorem net_change_yields_diff:
  assumes "turn_reachable home cwd fs stdout stderr s0 patches s t" and "fs_laws fs view"
    and "list_all (no_self_move home cwd) (concat patches)" and "valid t"
    and "view s0 p \<noteq> view s p" and "\<And>m. set (iter env m) = set m"
    and "p \<notin> snd ` set (rename_pairs env t)" and "map_of (rename_pairs env t) p = None"
  shows "get_unified_diff env t \<noteq> None"
proof -
  have "tracks (view s0) (view s) t" using turn_tracks [OF assms(1-3)] assms(4) by simp
  from net_change_shown [OF this assms(4-8)] show ?thesis .
qed

theorem net_change_yields_diff_witness: "get_unified_diff demo_env demo_turn \<noteq> None"
proof (rule net_change_yields_diff [OF demo_turn_reachable mem_fs_laws _ demo_turn_valid])
  show "list_all (no_self_move None [slash]) (concat [[AddFile (lit ''g'') [98, 10], DeleteFile (lit ''f'')]])" by simp
  show "demo_fs (lit ''/f'') \<noteq> ((demo_fs(lit ''/g'' \<mapsto> [98, 10]))(lit ''/f'' := None)) (lit ''/f'')"
    by (simp add: demo_fs_def)
  show "set (iter demo_env m) = set m" for m by (simp add: demo_env_def)
  have "rename_pairs demo_env demo_turn = []"
    by (simp add: rename_pairs_def demo_env_def demo_turn_def track_delta_def demo_delta_def apply_change_def
        apply_add_def apply_delete_def tracker_new_def Let_def insert_baseline_def)
  then show "lit ''/f'' \<notin> snd ` set (rename_pairs demo_env demo_turn)"
    and "map_of (rename_pairs demo_env demo_turn) (lit ''/f'') = None" by simp_all
qed

end
