(* ===== verification/Hunk_Effects.thy ===== *)
theory Hunk_Effects
  imports Applied_Delta Patch_Grammar
begin

text \<open>
  The abstract meaning of a patch: each hunk as a partial function on the texts of files, and
  the refinement lemma that a successful \<^verbatim>\<open>apply_hunks\<close> with an exact delta implements it.
\<close>

section \<open>Hunks as functions on contents\<close>

definition updated_contents :: "path_buf \<Rightarrow> update_file_chunk list \<Rightarrow> contents_map \<Rightarrow> rstr option" where
  "updated_contents p cs m =
     (case m p of
        None \<Rightarrow> None
      | Some old \<Rightarrow>
          (case new_contents_from_chunks p old cs of Some (Inr new) \<Rightarrow> Some new | _ \<Rightarrow> None))"

fun hunk_effect :: "path_buf option \<Rightarrow> path_buf \<Rightarrow> hunk \<Rightarrow> contents_map \<Rightarrow> contents_map option" where
  "hunk_effect home cwd (AddFile p c) m = Some (m(resolve_path_against_base home p cwd \<mapsto> c))"
| "hunk_effect home cwd (DeleteFile p) m =
     (let q = resolve_path_against_base home p cwd in
      if m q = None then None else Some (m(q := None)))"
| "hunk_effect home cwd (UpdateFile p mv cs) m =
     (let q = resolve_path_against_base home p cwd in
      case updated_contents q cs m of
        None \<Rightarrow> None
      | Some new \<Rightarrow>
          (case mv of
             None \<Rightarrow> Some (m(q \<mapsto> new))
           | Some dest \<Rightarrow> Some ((m(q := None))(resolve_path_against_base home dest cwd \<mapsto> new))))"

fun hunks_effect :: "path_buf option \<Rightarrow> path_buf \<Rightarrow> hunk list \<Rightarrow> contents_map \<Rightarrow> contents_map option" where
  "hunks_effect home cwd [] m = Some m"
| "hunks_effect home cwd (h # hs) m =
     (case hunk_effect home cwd h m of None \<Rightarrow> None | Some m' \<Rightarrow> hunks_effect home cwd hs m')"

section \<open>Refinement\<close>

lemma apply_add_file_effect:
  assumes "fs_laws fs view" and "apply_add_file fs p c d s = (Inr u, d', s')" and "exact d'"
  shows "view s' = (view s)(p \<mapsto> c)"
proof -
  obtain o' d1 where ro: "read_optional_file_text_for_delta fs p s d = (o', d1)" by fastforce
  obtain w s1 where w: "write_file_with_missing_parent_retry fs p c s = (w, s1)" by fastforce
  have "w = Inr ()" "s1 = s'" "exact d1"
    using assms(2,3) ro w by (auto simp: apply_add_file_def push_change_def split: sum.splits)
  moreover have "plain_path fs p s"
    using read_optional_frame(2) [OF ro] assms(1) \<open>exact d1\<close> by (auto simp: fs_laws_def)
  ultimately show ?thesis using write_retry_view [of fs p c s "()" s1 view] assms(1) w by simp
qed

lemma apply_delete_file_effect:
  assumes "fs_laws fs view" and "apply_delete_file fs p d s = (Inr u, d', s')" and "exact d'"
  shows "view s p \<noteq> None" and "view s' = (view s)(p := None)"
proof -
  obtain c where c: "read_file_text fs p s = Inr c"
    using assms(2,3)
    by (cases "read_file_text fs p s")
      (auto simp: apply_delete_file_def Let_def and_exact_def split: sum.splits prod.splits)
  then show "view s p \<noteq> None" using assms(1) by (auto simp: fs_laws_def reads_contents_def)
  have "remove fs p s = (Inr (), s')"
    using assms(2) by (auto simp: apply_delete_file_def Let_def split: sum.splits prod.splits)
  then show "view s' = (view s)(p := None)" using remove_view(1) [OF assms(1)] by simp
qed

lemma apply_move_file_effect:
  assumes "fs_laws fs view" and "p \<noteq> dest" and "apply_move_file fs p dest old new d s = (Inr u, d', s')"
    and "exact d'"
  shows "view s' = ((view s)(p := None))(dest \<mapsto> new)"
proof -
  obtain o' d1 where ro: "read_optional_file_text_for_delta fs dest s d = (o', d1)" by fastforce
  obtain w s1 where w: "write_file_with_missing_parent_retry fs dest new s = (w, s1)" by fastforce
  have r: "w = Inr ()" "remove fs p s1 = (Inr (), s')" "exact d1"
    using assms(3,4) ro w
    by (auto simp: apply_move_file_def push_change_def Let_def split: sum.splits prod.splits)
  have "plain_path fs dest s"
    using read_optional_frame(2) [OF ro] assms(1) r(3) by (auto simp: fs_laws_def)
  then have "view s1 = (view s)(dest \<mapsto> new)" using write_retry_view [of fs dest new s "()" s1 view] assms(1) w r(1) by simp
  then show ?thesis using remove_view(1) [OF assms(1) r(2)] assms(2) by (simp add: fun_upd_twist)
qed

lemma apply_update_file_effect:
  assumes "fs_laws fs view" and "\<forall>dest. mv = Some dest \<longrightarrow> p \<noteq> resolve_path_against_base home dest cwd"
    and "apply_update_file home cwd fs p mv cs d s = Some (Inr u, d', s')" and "exact d'"
  shows "\<exists>new. updated_contents p cs (view s) = Some new \<and>
    view s' = (case mv of None \<Rightarrow> (view s)(p \<mapsto> new)
      | Some dest \<Rightarrow> ((view s)(p := None))(resolve_path_against_base home dest cwd \<mapsto> new))"
proof -
  define d1 where "d1 = note_existing_path_delta_support fs p s d"
  note eq = assms(3) [unfolded apply_update_file_def Let_def, folded d1_def]
  obtain old new where on: "derive_new_contents_from_chunks fs p cs s = Some (Inr (old, new))"
    using eq by (auto split: option.splits sum.splits)
  then have "read_file_text fs p s = Inr old" "new_contents_from_chunks p old cs = Some (Inr new)"
    by (auto simp: derive_new_contents_from_chunks_def split: sum.splits option.splits)
  then have u: "updated_contents p cs (view s) = Some new"
    using assms(1) by (auto simp: updated_contents_def fs_laws_def reads_contents_def)
  show ?thesis
  proof (cases mv)
    case (Some dest)
    then have "apply_move_file fs p (resolve_path_against_base home dest cwd) old new d1 s = (Inr u, d', s')"
      using eq on by simp
    from apply_move_file_effect [OF assms(1) _ this assms(4)] show ?thesis
      using u Some assms(2) by simp
  next
    case None
    then have w: "write_file fs p new s = (Inr (), s')" "exact d1"
      using eq on assms(4) by (auto simp: apply_write_file_def push_change_def split: sum.splits prod.splits)
    then have "plain_path fs p s" by (simp add: d1_def note_frame)
    then show ?thesis using u None w(1) assms(1) by (simp add: fs_laws_def writes_contents_def)
  qed
qed

lemma apply_hunk_effect:
  assumes "fs_laws fs view" and "no_self_move home cwd h"
    and "apply_hunk home cwd fs h d s = Some (Inr u, d', s')" and "exact d'"
  shows "hunk_effect home cwd h (view s) = Some (view s')"
proof (cases h)
  case (AddFile p c)
  then show ?thesis using assms apply_add_file_effect [OF assms(1)] by auto
next
  case (DeleteFile p)
  then show ?thesis using assms(3,4) apply_delete_file_effect [OF assms(1)] by (auto simp: Let_def)
next
  case (UpdateFile p mv cs)
  have "\<forall>dest. mv = Some dest \<longrightarrow>
      resolve_path_against_base home p cwd \<noteq> resolve_path_against_base home dest cwd"
    using assms(2) UpdateFile by auto
  from apply_update_file_effect [OF assms(1) this _ assms(4), of cs d s u s'] show ?thesis
    using assms(3) UpdateFile by (cases mv) (auto simp: Let_def)
qed

lemma hunks_loop_effect:
  assumes "fs_laws fs view"
  shows "list_all (no_self_move home cwd) hs \<Longrightarrow> hunks_loop home cwd fs hs a d s = Some (Inr a', d', s') \<Longrightarrow>
    exact d' \<Longrightarrow> hunks_effect home cwd hs (view s) = Some (view s')"
proof (induction hs arbitrary: a d s)
  case (Cons h hs)
  obtain u d1 s1 where h: "apply_hunk home cwd fs h d s = Some (Inr u, d1, s1)"
    "hunks_loop home cwd fs hs (note_affected h a) d1 s1 = Some (Inr a', d', s')"
    using Cons.prems by (auto split: option.splits sum.splits)
  have "exact d1"
    using hunks_loop_delta [OF assms _ h(2)] Cons.prems by (simp add: delta_step_def)
  then show ?case
    using apply_hunk_effect [OF assms _ h(1)] Cons.IH [OF _ h(2)] Cons.prems by simp
qed simp

lemma apply_hunks_effect:
  assumes "fs_laws fs view" and "list_all (no_self_move home cwd) hs"
    and "apply_hunks home cwd fs stdout stderr hs s w = Some (Inr d, s', w')" and "exact d"
  shows "hunks_effect home cwd hs (view s) = Some (view s')"
proof -
  obtain a where "hunks_loop home cwd fs hs \<lparr>added = [], modified = [], deleted = []\<rparr> delta_empty s = Some (Inr a, d, s')"
    using assms(3)
    by (auto simp: apply_hunks_def apply_hunks_to_files_def split: option.splits sum.splits prod.splits if_splits)
  from hunks_loop_effect [OF assms(1,2) this assms(4)] show ?thesis .
qed

section \<open>Properties\<close>

text \<open>
  C32: Applying hunks refines the abstract meaning of a patch. On a file system that obeys the
  laws, when no hunk moves a file onto itself and \<^verbatim>\<open>apply_hunks\<close> succeeds with an exact delta, the
  texts of all files are those that the hunks, taken one after the other as functions on texts,
  compute from the texts before.
\<close>

theorem apply_hunks_refines:
  assumes "fs_laws fs view" and "list_all (no_self_move home cwd) hs"
    and "apply_hunks home cwd fs stdout stderr hs s w = Some (Inr d, s', w')" and "exact d"
  shows "hunks_effect home cwd hs (view s) = Some (view s')"
  by (rule apply_hunks_effect [OF assms])

theorem apply_hunks_refines_witness:
  "hunks_effect None [slash] [AddFile (lit ''g'') [98, 10], DeleteFile (lit ''f'')] demo_fs =
     Some ((demo_fs(lit ''/g'' \<mapsto> [98, 10]))(lit ''/f'' := None))"
  using apply_hunks_refines [OF mem_fs_laws _ demo_apply] by (simp add: demo_delta_def)

end
