(* ===== verification/Invocation.thy ===== *)
theory Invocation
  imports Hunk_Effects "HOL-Library.AList"
begin

text \<open>
  \<^verbatim>\<open>apply-patch/src/invocation.rs\<close>: recognising an \<^verbatim>\<open>apply_patch\<close> call in an argument vector and
  computing, without touching any file, the changes it would make. The Tree-sitter query that
  takes the heredoc out of a shell script and the text differ are parameters.
\<close>

section \<open>Model\<close>

datatype apply_patch_shell = UnixShell | PowerShell | CmdShell

datatype extract_heredoc_error =
    CommandDidNotStartWithApplyPatch
  | FailedToLoadBashGrammar rstr
  | HeredocNotUtf8 rstr
  | FailedToParsePatchIntoAst
  | FailedToFindHeredocBody

datatype maybe_apply_patch =
    MaybeBody apply_patch_args
  | MaybeShellParseError extract_heredoc_error
  | PatchParseError parse_error
  | MaybeNotApplyPatch

datatype apply_patch_file_change =
    ChangeAdd rstr
  | ChangeDelete rstr
  | ChangeUpdate rstr "path_buf option" rstr

record apply_patch_action =
  action_changes :: "(path_buf \<times> apply_patch_file_change) list"
  action_patch :: rstr
  action_cwd :: path_buf

datatype maybe_apply_patch_verified =
    VerifiedBody apply_patch_action
  | VerifiedShellParseError extract_heredoc_error
  | CorrectnessError apply_patch_error
  | VerifiedNotApplyPatch

definition APPLY_PATCH_COMMANDS :: "rstr list" where
  "APPLY_PATCH_COMMANDS = [lit ''apply_patch'', lit ''applypatch'']"

text \<open>\<^verbatim>\<open>Path::file_stem\<close>: the last component up to its last dot, unless the dot is its first character\<close>

definition file_stem :: "path_buf \<Rightarrow> rstr option" where
  "file_stem p =
     (case last_opt (components p) of
        Some (Normal name) \<Rightarrow>
          (case rposition (\<lambda>c. c = 46) name of
             None \<Rightarrow> Some name
           | Some i \<Rightarrow> Some (if i = 0 then name else take i name))
      | _ \<Rightarrow> None)"

definition classify_shell_name :: "rstr \<Rightarrow> rstr option" where
  "classify_shell_name shell = map_option (map to_ascii_lower) (file_stem shell)"

definition classify_shell :: "rstr \<Rightarrow> rstr \<Rightarrow> apply_patch_shell option" where
  "classify_shell shell flag =
     (case classify_shell_name shell of
        None \<Rightarrow> None
      | Some name \<Rightarrow>
          if name \<in> {lit ''bash'', lit ''zsh'', lit ''sh''} \<and> flag \<in> {lit ''-lc'', lit ''-c''}
          then Some UnixShell
          else if name \<in> {lit ''pwsh'', lit ''powershell''} \<and> eq_ignore_ascii_case flag (lit ''-command'')
          then Some PowerShell
          else if name = lit ''cmd'' \<and> eq_ignore_ascii_case flag (lit ''/c'') then Some CmdShell
          else None)"

definition can_skip_flag :: "rstr \<Rightarrow> rstr \<Rightarrow> bool" where
  "can_skip_flag shell flag \<longleftrightarrow>
     (case classify_shell_name shell of
        None \<Rightarrow> False
      | Some name \<Rightarrow> name \<in> {lit ''pwsh'', lit ''powershell''}
          \<and> eq_ignore_ascii_case flag (lit ''-noprofile''))"

fun parse_shell_script :: "rstr list \<Rightarrow> (apply_patch_shell \<times> rstr) option" where
  "parse_shell_script [shell, flag, script] =
     map_option (\<lambda>shell_type. (shell_type, script)) (classify_shell shell flag)"
| "parse_shell_script [shell, skip_flag, flag, script] =
     (if can_skip_flag shell skip_flag
      then map_option (\<lambda>shell_type. (shell_type, script)) (classify_shell shell flag)
      else None)"
| "parse_shell_script _ = None"

type_synonym heredoc_query = "rstr \<Rightarrow> extract_heredoc_error + rstr \<times> rstr option"

fun extract_apply_patch_from_shell ::
    "heredoc_query \<Rightarrow> apply_patch_shell \<Rightarrow> rstr \<Rightarrow> extract_heredoc_error + rstr \<times> rstr option" where
  "extract_apply_patch_from_shell bash UnixShell script = bash script"
| "extract_apply_patch_from_shell bash PowerShell script = bash script"
| "extract_apply_patch_from_shell bash CmdShell script = bash script"

definition parse_body :: "rstr \<Rightarrow> rstr option \<Rightarrow> maybe_apply_patch" where
  "parse_body body wd =
     (case parse_patch body of
        Inr source \<Rightarrow> MaybeBody (source\<lparr>workdir := wd\<rparr>)
      | Inl e \<Rightarrow> PatchParseError e)"

definition maybe_parse_shell :: "heredoc_query \<Rightarrow> rstr list \<Rightarrow> maybe_apply_patch" where
  "maybe_parse_shell bash argv =
     (case parse_shell_script argv of
        None \<Rightarrow> MaybeNotApplyPatch
      | Some (shell, script) \<Rightarrow>
          (case extract_apply_patch_from_shell bash shell script of
             Inr (body, wd) \<Rightarrow> parse_body body wd
           | Inl CommandDidNotStartWithApplyPatch \<Rightarrow> MaybeNotApplyPatch
           | Inl e \<Rightarrow> MaybeShellParseError e))"

fun maybe_parse_apply_patch :: "heredoc_query \<Rightarrow> rstr list \<Rightarrow> maybe_apply_patch" where
  "maybe_parse_apply_patch bash [cmd, body] =
     (if cmd \<in> set APPLY_PATCH_COMMANDS then
        (case parse_patch body of Inr source \<Rightarrow> MaybeBody source | Inl e \<Rightarrow> PatchParseError e)
      else maybe_parse_shell bash [cmd, body])"
| "maybe_parse_apply_patch bash argv = maybe_parse_shell bash argv"

text \<open>\<open>differ\<close> is \<^verbatim>\<open>TextDiff::from_lines\<close> with one line of context.\<close>

definition unified_diff_from_chunks ::
    "(rstr \<Rightarrow> rstr \<Rightarrow> rstr) \<Rightarrow> 's executor_file_system \<Rightarrow> path_buf \<Rightarrow> update_file_chunk list \<Rightarrow> 's \<Rightarrow>
     (apply_patch_error + rstr \<times> rstr \<times> rstr) option" where
  "unified_diff_from_chunks differ fs path_abs chunks s =
     (case derive_new_contents_from_chunks fs path_abs chunks s of
        None \<Rightarrow> None
      | Some (Inl e) \<Rightarrow> Some (Inl e)
      | Some (Inr (original, new)) \<Rightarrow> Some (Inr (differ original new, original, new)))"

text \<open>One iteration of the loop over the hunks: the change to insert, or the error.\<close>

fun preview_hunk ::
    "(rstr \<Rightarrow> rstr \<Rightarrow> rstr) \<Rightarrow> path_buf option \<Rightarrow> path_buf \<Rightarrow> 's executor_file_system \<Rightarrow> 's \<Rightarrow> hunk \<Rightarrow>
     (apply_patch_error + apply_patch_file_change) option" where
  "preview_hunk differ home cwd fs s (AddFile p contents) = Some (Inr (ChangeAdd contents))"
| "preview_hunk differ home cwd fs s (DeleteFile p) =
     (let path = resolve_path_against_base home p cwd in
      case read_file_text fs path s of
        Inr content \<Rightarrow> Some (Inr (ChangeDelete content))
      | Inl e \<Rightarrow> Some (Inl (IoError (lit ''Failed to read '' @ path) e)))"
| "preview_hunk differ home cwd fs s (UpdateFile p move_path chunks) =
     (case unified_diff_from_chunks differ fs (resolve_path_against_base home p cwd) chunks s of
        None \<Rightarrow> None
      | Some (Inl e) \<Rightarrow> Some (Inl e)
      | Some (Inr (unified_diff, _, contents)) \<Rightarrow>
          Some (Inr (ChangeUpdate unified_diff
            (map_option (\<lambda>d. resolve_path_against_base home d cwd) move_path) contents)))"

fun preview_loop ::
    "(rstr \<Rightarrow> rstr \<Rightarrow> rstr) \<Rightarrow> path_buf option \<Rightarrow> path_buf \<Rightarrow> 's executor_file_system \<Rightarrow> 's \<Rightarrow> hunk list \<Rightarrow>
     (path_buf \<times> apply_patch_file_change) list \<Rightarrow>
     (apply_patch_error + (path_buf \<times> apply_patch_file_change) list) option" where
  "preview_loop differ home cwd fs s [] cs = Some (Inr cs)"
| "preview_loop differ home cwd fs s (h # hs) cs =
     (case preview_hunk differ home cwd fs s h of
        None \<Rightarrow> None
      | Some (Inl e) \<Rightarrow> Some (Inl e)
      | Some (Inr c) \<Rightarrow>
          preview_loop differ home cwd fs s hs
            (AList.update (resolve_path (resolve_path_against_base home) cwd h) c cs))"

definition verify_apply_patch_args ::
    "(rstr \<Rightarrow> rstr \<Rightarrow> rstr) \<Rightarrow> path_buf option \<Rightarrow> path_buf \<Rightarrow> 's executor_file_system \<Rightarrow> 's \<Rightarrow>
     apply_patch_args \<Rightarrow> maybe_apply_patch_verified option" where
  "verify_apply_patch_args differ home cwd fs s args =
     (let effective_cwd = (case workdir args of
                             Some dir \<Rightarrow> resolve_path_against_base home dir cwd
                           | None \<Rightarrow> cwd)
      in case preview_loop differ home effective_cwd fs s (hunks args) [] of
           None \<Rightarrow> None
         | Some (Inl e) \<Rightarrow> Some (CorrectnessError e)
         | Some (Inr cs) \<Rightarrow>
             Some (VerifiedBody \<lparr>action_changes = cs, action_patch = patch_text args,
               action_cwd = effective_cwd\<rparr>))"

definition parses :: "rstr \<Rightarrow> bool" where
  "parses body = (case parse_patch body of Inr _ \<Rightarrow> True | Inl _ \<Rightarrow> False)"

definition maybe_parse_apply_patch_verified ::
    "(rstr \<Rightarrow> rstr \<Rightarrow> rstr) \<Rightarrow> heredoc_query \<Rightarrow> path_buf option \<Rightarrow> path_buf \<Rightarrow> 's executor_file_system \<Rightarrow>
     's \<Rightarrow> rstr list \<Rightarrow> maybe_apply_patch_verified option" where
  "maybe_parse_apply_patch_verified differ bash home cwd fs s argv =
     (if (case argv of [body] \<Rightarrow> parses body | _ \<Rightarrow> False) then
        Some (CorrectnessError ImplicitInvocation)
      else if (case parse_shell_script argv of Some (_, script) \<Rightarrow> parses script | None \<Rightarrow> False) then
        Some (CorrectnessError ImplicitInvocation)
      else
        (case maybe_parse_apply_patch bash argv of
           MaybeBody args \<Rightarrow> verify_apply_patch_args differ home cwd fs s args
         | MaybeShellParseError e \<Rightarrow> Some (VerifiedShellParseError e)
         | PatchParseError e \<Rightarrow> Some (CorrectnessError (ParseError e))
         | MaybeNotApplyPatch \<Rightarrow> Some VerifiedNotApplyPatch))"

section \<open>The preview and the application\<close>










section \<open>Properties\<close>






text \<open>
  A patch body that is passed as the command itself, or as the whole script of a shell
  command, is never applied: the call is reported as an implicit invocation, whatever the
  heredoc query would say.
\<close>

theorem raw_patch_is_rejected:
  assumes "parse_patch body = Inr args"
  shows "maybe_parse_apply_patch_verified differ bash home cwd fs s [body] =
      Some (CorrectnessError ImplicitInvocation) \<and>
    (parse_shell_script [shell, flag, body] \<noteq> None \<longrightarrow>
      maybe_parse_apply_patch_verified differ bash home cwd fs s [shell, flag, body] =
        Some (CorrectnessError ImplicitInvocation))"
  using assms by (auto simp: maybe_parse_apply_patch_verified_def parses_def)

lemma empty_patch_ok: "patch_ok None []"
  by (simp add: patch_ok_def env_ok_def)

theorem raw_patch_is_rejected_witness:
  "maybe_parse_apply_patch_verified (\<lambda>_ _. []) (\<lambda>_. Inl FailedToFindHeredocBody) None [slash] mem_fs demo_fs
     [render_patch None []] = Some (CorrectnessError ImplicitInvocation)"
  by (rule conjunct1 [OF raw_patch_is_rejected [OF parse_patch_render_lemma [OF empty_patch_ok]]])

section \<open>Deviations\<close>

text \<open>
  The preview computes every hunk from the files on disk, and a later hunk of the same file
  replaces the earlier one in the map; the application runs the hunks one after the other. For
  two updates of one file the proposed content therefore misses the first change.
\<close>

definition demo_two_updates :: "hunk list" where
  "demo_two_updates =
     [UpdateFile (lit ''f'') None
        [\<lparr>change_context = None, old_lines = [[97]], new_lines = [[120]], is_end_of_file = False\<rparr>],
      UpdateFile (lit ''f'') None
        [\<lparr>change_context = None, old_lines = [[98]], new_lines = [[121]], is_end_of_file = False\<rparr>]]"

definition demo_two_lines :: contents_map where
  "demo_two_lines = [lit ''/f'' \<mapsto> [97, 10, 98, 10]]"

lemma demo_two_contents:
  "new_contents_from_chunks (lit ''/f'') [97, 10, 98, 10]
     [\<lparr>change_context = None, old_lines = [[97]], new_lines = [[120]], is_end_of_file = False\<rparr>] =
   Some (Inr [120, 10, 98, 10])"
  "new_contents_from_chunks (lit ''/f'') [97, 10, 98, 10]
     [\<lparr>change_context = None, old_lines = [[98]], new_lines = [[121]], is_end_of_file = False\<rparr>] =
   Some (Inr [97, 10, 121, 10])"
  "new_contents_from_chunks (lit ''/f'') [120, 10, 98, 10]
     [\<lparr>change_context = None, old_lines = [[98]], new_lines = [[121]], is_end_of_file = False\<rparr>] =
   Some (Inr [120, 10, 121, 10])"
  by code_simp+

theorem two_updates_preview_differs:
  "preview_loop (\<lambda>_ _. []) None [slash] mem_fs demo_two_lines demo_two_updates [] =
     Some (Inr [(lit ''/f'', ChangeUpdate [] None [97, 10, 121, 10])]) \<and>
   hunks_effect None [slash] demo_two_updates demo_two_lines = Some [lit ''/f'' \<mapsto> [120, 10, 121, 10]]"
  by (simp add: demo_two_updates_def demo_two_lines_def demo_resolve demo_two_contents mem_fs_def
      unified_diff_from_chunks_def derive_new_contents_from_chunks_def updated_contents_def)

end
