(* ===== verification/Head_Tail_Buffer.thy ===== *)
theory Head_Tail_Buffer
  imports Rust_Prelude Chunk_Stream "HOL-Library.Word"
begin

text \<open>
  \<^verbatim>\<open>core/src/unified_exec/head_tail_buffer.rs\<close>: the capped buffer for the output of a command. It
  keeps the first and the last bytes and counts what it drops. \<^verbatim>\<open>usize\<close> additions saturate at
  64 bits as in the code.
\<close>

section \<open>Model\<close>

type_synonym byte = "8 word"

record head_tail_buffer =
  max_bytes :: nat
  head_budget :: nat
  tail_budget :: nat
  buf_head :: "byte list list"
  buf_tail :: "byte list list"
  head_bytes :: nat
  tail_bytes :: nat
  omitted_bytes :: nat

definition UNIFIED_EXEC_OUTPUT_MAX_BYTES :: nat where
  "UNIFIED_EXEC_OUTPUT_MAX_BYTES = 1024 * 1024"

definition buffer_new :: "nat \<Rightarrow> head_tail_buffer" where
  "buffer_new limit =
     (let hb = limit div 2 in
      \<lparr>max_bytes = limit, head_budget = hb, tail_budget = limit - hb, buf_head = [], buf_tail = [],
       head_bytes = 0, tail_bytes = 0, omitted_bytes = 0\<rparr>)"

definition buffer_default :: head_tail_buffer where
  "buffer_default = buffer_new UNIFIED_EXEC_OUTPUT_MAX_BYTES"

definition retained_bytes :: "head_tail_buffer \<Rightarrow> nat" where
  "retained_bytes b = usat_add (head_bytes b) (tail_bytes b)"

text \<open>The loop of \<^verbatim>\<open>trim_tail_to_budget\<close> on the tail, its byte count and the omitted count\<close>

fun trim_loop :: "nat \<Rightarrow> byte list list \<Rightarrow> nat \<Rightarrow> nat \<Rightarrow> byte list list \<times> nat \<times> nat" where
  "trim_loop excess [] tb om = ([], tb, om)"
| "trim_loop excess (front # rest) tb om =
     (if excess = 0 then (front # rest, tb, om)
      else if excess \<ge> length front then
        trim_loop (excess - length front) rest (tb - length front) (usat_add om (length front))
      else (drop excess front # rest, tb - excess, usat_add om excess))"

definition trim_tail_to_budget :: "head_tail_buffer \<Rightarrow> head_tail_buffer" where
  "trim_tail_to_budget b =
     (case trim_loop (tail_bytes b - tail_budget b) (buf_tail b) (tail_bytes b) (omitted_bytes b) of
        (t, tb, om) \<Rightarrow> b\<lparr>buf_tail := t, tail_bytes := tb, omitted_bytes := om\<rparr>)"

definition push_to_tail :: "byte list \<Rightarrow> head_tail_buffer \<Rightarrow> head_tail_buffer" where
  "push_to_tail chunk b =
     (if tail_budget b = 0 then
        b\<lparr>omitted_bytes := usat_add (omitted_bytes b) (length chunk)\<rparr>
      else if length chunk \<ge> tail_budget b then
        let start = length chunk - tail_budget b;
            kept = drop start chunk;
            dropped = length chunk - length kept
        in b\<lparr>omitted_bytes := usat_add (usat_add (omitted_bytes b) (tail_bytes b)) dropped,
             buf_tail := [kept], tail_bytes := length kept\<rparr>
      else
        trim_tail_to_budget
          (b\<lparr>tail_bytes := usat_add (tail_bytes b) (length chunk), buf_tail := buf_tail b @ [chunk]\<rparr>))"

definition push_head :: "byte list \<Rightarrow> head_tail_buffer \<Rightarrow> head_tail_buffer" where
  "push_head chunk b =
     b\<lparr>head_bytes := usat_add (head_bytes b) (length chunk), buf_head := buf_head b @ [chunk]\<rparr>"

definition push_chunk :: "byte list \<Rightarrow> head_tail_buffer \<Rightarrow> head_tail_buffer" where
  "push_chunk chunk b =
     (if max_bytes b = 0 then
        b\<lparr>omitted_bytes := usat_add (omitted_bytes b) (length chunk)\<rparr>
      else if head_bytes b < head_budget b then
        let remaining_head = head_budget b - head_bytes b in
        if length chunk \<le> remaining_head then push_head chunk b
        else
          let head_part = take remaining_head chunk;
              tail_part = drop remaining_head chunk
          in push_to_tail tail_part (if head_part \<noteq> [] then push_head head_part b else b)
      else push_to_tail chunk b)"

definition snapshot_chunks :: "head_tail_buffer \<Rightarrow> byte list list" where
  "snapshot_chunks b = buf_head b @ buf_tail b"

definition to_bytes :: "head_tail_buffer \<Rightarrow> byte list" where
  "to_bytes b = concat (buf_head b) @ concat (buf_tail b)"

definition drain_chunks :: "head_tail_buffer \<Rightarrow> byte list list \<times> head_tail_buffer" where
  "drain_chunks b =
     (buf_head b @ buf_tail b,
      b\<lparr>buf_head := [], buf_tail := [], head_bytes := 0, tail_bytes := 0, omitted_bytes := 0\<rparr>)"

section \<open>Invariant\<close>

definition buffer_inv :: "head_tail_buffer \<Rightarrow> bool" where
  "buffer_inv b \<longleftrightarrow>
     max_bytes b \<le> usize_max \<and> head_budget b = max_bytes b div 2 \<and>
     tail_budget b = max_bytes b - head_budget b \<and>
     head_bytes b = length (concat (buf_head b)) \<and> tail_bytes b = length (concat (buf_tail b)) \<and>
     head_bytes b \<le> head_budget b \<and> tail_bytes b \<le> tail_budget b \<and> omitted_bytes b \<le> usize_max"

text \<open>What a reader of the buffer can see, and how a piece of output changes it.\<close>

type_synonym buffer_view = "nat \<times> nat \<times> byte list \<times> byte list \<times> nat"

definition buffer_view :: "head_tail_buffer \<Rightarrow> buffer_view" where
  "buffer_view b =
     (head_budget b, tail_budget b, concat (buf_head b), concat (buf_tail b), omitted_bytes b)"

definition view_step :: "byte list \<Rightarrow> buffer_view \<Rightarrow> buffer_view" where
  "view_step c v =
     (case v of (hb, tb, h, t, om) \<Rightarrow>
        let late = t @ drop (hb - length h) c;
            excess = length late - tb
        in (hb, tb, take hb (h @ c), drop excess late, usat_add om excess))"

lemma usat_add_0 [simp]: "a \<le> usize_max \<Longrightarrow> usat_add a 0 = a"
  by (simp add: usat_add_def)

lemma usat_add_le [simp]: "usat_add a b \<le> usize_max"
  by (simp add: usat_add_def)

lemma usat_add_assoc: "usat_add (usat_add a b) c = usat_add a (b + c)"
  by (simp add: usat_add_def)

lemma trim_loop_spec:
  "tb = length (concat ts) \<Longrightarrow> excess \<le> tb \<Longrightarrow> om \<le> usize_max \<Longrightarrow>
   trim_loop excess ts tb om = (ts', tb', om') \<Longrightarrow>
   concat ts' = drop excess (concat ts) \<and> tb' = tb - excess \<and> om' = usat_add om excess"
proof (induction excess ts tb om rule: trim_loop.induct)
  case (2 excess front rest tb om)
  show ?case
  proof (cases "excess \<ge> length front \<and> excess \<noteq> 0")
    case True
    then show ?thesis using 2 by (auto simp: usat_add_assoc split: if_splits)
  next
    case False
    then show ?thesis using "2.prems" by (auto split: if_splits)
  qed
qed simp

lemma tail_budget_bound: "buffer_inv b \<Longrightarrow> 2 * tail_budget b \<le> Suc usize_max"
  by (auto simp: buffer_inv_def usize_max_def)

lemma trim_tail_spec:
  assumes "tail_bytes b = length (concat (buf_tail b))" and "omitted_bytes b \<le> usize_max"
  shows "\<exists>t. concat t = drop (tail_bytes b - tail_budget b) (concat (buf_tail b)) \<and>
    trim_tail_to_budget b =
      b\<lparr>buf_tail := t, tail_bytes := tail_bytes b - (tail_bytes b - tail_budget b),
        omitted_bytes := usat_add (omitted_bytes b) (tail_bytes b - tail_budget b)\<rparr>"
proof -
  obtain t tb om where r: "trim_loop (tail_bytes b - tail_budget b) (buf_tail b) (tail_bytes b) (omitted_bytes b) = (t, tb, om)"
    by (metis prod_cases3)
  have "concat t = drop (tail_bytes b - tail_budget b) (concat (buf_tail b)) \<and>
      tb = tail_bytes b - (tail_bytes b - tail_budget b) \<and>
      om = usat_add (omitted_bytes b) (tail_bytes b - tail_budget b)"
    by (rule trim_loop_spec [OF assms(1) _ assms(2) r]) simp
  then show ?thesis by (intro exI [of _ t]) (simp add: trim_tail_to_budget_def r)
qed

lemma buffer_inv_omitted: "buffer_inv b \<Longrightarrow> om \<le> usize_max \<Longrightarrow> buffer_inv (b\<lparr>omitted_bytes := om\<rparr>)"
  by (auto simp: buffer_inv_def)

lemma buffer_inv_bounds:
  assumes "buffer_inv b"
  shows "length (concat (buf_head b)) \<le> head_budget b" "length (concat (buf_tail b)) \<le> tail_budget b"
    "omitted_bytes b \<le> usize_max" "head_bytes b = length (concat (buf_head b))"
    "tail_bytes b = length (concat (buf_tail b))"
  using assms by (auto simp: buffer_inv_def)

lemma push_to_tail_spec:
  assumes "buffer_inv b"
  shows "buffer_inv (push_to_tail c b)"
    and "buffer_view (push_to_tail c b) =
      (let late = concat (buf_tail b) @ c; excess = length late - tail_budget b
       in (head_budget b, tail_budget b, concat (buf_head b), drop excess late, usat_add (omitted_bytes b) excess))"
proof -
  note inv = assms [unfolded buffer_inv_def]
  have "buffer_inv (push_to_tail c b) \<and> buffer_view (push_to_tail c b) =
      (let late = concat (buf_tail b) @ c; excess = length late - tail_budget b
       in (head_budget b, tail_budget b, concat (buf_head b), drop excess late, usat_add (omitted_bytes b) excess))"
  proof (cases "tail_budget b = 0")
    case True
    have "length (concat (buf_tail b)) = tail_bytes b" "tail_bytes b \<le> tail_budget b"
      using inv by metis+
    then have e: "concat (buf_tail b) = []" using True by (simp only: length_0_conv [symmetric])
    show ?thesis using True assms
      by (simp add: push_to_tail_def buffer_inv_omitted buffer_view_def e del: concat_eq_Nil_conv)
  next
    case nz: False
    show ?thesis
    proof (cases "length c \<ge> tail_budget b")
      case True
      then have "length (concat (buf_tail b)) + length c - tail_budget b =
          length (concat (buf_tail b)) + (length c - tail_budget b)" by simp
      then show ?thesis using True nz inv
        by (auto simp: push_to_tail_def buffer_inv_def buffer_view_def Let_def usat_add_assoc)
    next
      case False
      define b1 where "b1 = b\<lparr>tail_bytes := usat_add (tail_bytes b) (length c), buf_tail := buf_tail b @ [c]\<rparr>"
      have no_overflow: "usat_add (tail_bytes b) (length c) = tail_bytes b + length c"
        using False inv tail_budget_bound [OF assms] by (intro usat_add_exact) linarith
      have b1: "tail_bytes b1 = length (concat (buf_tail b1))" "omitted_bytes b1 \<le> usize_max"
        using inv no_overflow by (simp_all add: b1_def)
      have eq: "push_to_tail c b = trim_tail_to_budget b1"
        using False nz by (simp add: push_to_tail_def b1_def)
      define e where "e = tail_bytes b1 - tail_budget b1"
      define n where "n = tail_bytes b1 - e"
      obtain t where t: "concat t = drop e (concat (buf_tail b1))"
        "trim_tail_to_budget b1 = b1\<lparr>buf_tail := t, tail_bytes := n,
          omitted_bytes := usat_add (omitted_bytes b1) e\<rparr>"
        using trim_tail_spec [OF b1] unfolding e_def n_def by blast
      have n: "n = length (concat t)" "n \<le> tail_budget b"
        using b1(1) t(1) by (simp_all only: n_def length_drop) (simp add: e_def b1_def)
      have "buffer_inv (push_to_tail c b)"
        unfolding eq t(2) using assms n by (auto simp: buffer_inv_def b1_def)
      moreover have "e = length (concat (buf_tail b) @ c) - tail_budget b"
        using b1(1) by (simp add: e_def) (simp add: b1_def)
      ultimately show ?thesis
        unfolding eq t(2) using t(1) by (simp add: buffer_view_def Let_def b1_def)
    qed
  qed
  then show "buffer_inv (push_to_tail c b)"
    and "buffer_view (push_to_tail c b) =
      (let late = concat (buf_tail b) @ c; excess = length late - tail_budget b
       in (head_budget b, tail_budget b, concat (buf_head b), drop excess late, usat_add (omitted_bytes b) excess))"
    by auto
qed

lemma push_head_spec:
  assumes "buffer_inv b" and "head_bytes b + length c \<le> head_budget b"
  shows "buffer_inv (push_head c b)"
    and "buffer_view (push_head c b) =
      (head_budget b, tail_budget b, concat (buf_head b) @ c, concat (buf_tail b), omitted_bytes b)"
proof -
  have "usat_add (head_bytes b) (length c) = head_bytes b + length c"
    using assms by (intro usat_add_exact) (auto simp: buffer_inv_def)
  then show "buffer_inv (push_head c b)"
    and "buffer_view (push_head c b) =
      (head_budget b, tail_budget b, concat (buf_head b) @ c, concat (buf_tail b), omitted_bytes b)"
    using assms by (auto simp: push_head_def buffer_inv_def buffer_view_def)
qed

lemma push_chunk_spec:
  assumes "buffer_inv b"
  shows "buffer_inv (push_chunk c b) \<and> buffer_view (push_chunk c b) = view_step c (buffer_view b)"
proof -
  have inv: "head_bytes b = length (concat (buf_head b))" "length (concat (buf_head b)) \<le> head_budget b"
    "length (concat (buf_tail b)) \<le> tail_budget b" "omitted_bytes b \<le> usize_max"
    "max_bytes b = 0 \<Longrightarrow> head_budget b = 0 \<and> tail_budget b = 0"
    using assms by (auto simp: buffer_inv_def)
  consider (zero) "max_bytes b = 0"
    | (fits) "max_bytes b \<noteq> 0" "head_bytes b < head_budget b" "length c \<le> head_budget b - head_bytes b"
    | (split) "max_bytes b \<noteq> 0" "head_bytes b < head_budget b" "length c > head_budget b - head_bytes b"
    | (full) "max_bytes b \<noteq> 0" "head_bytes b = head_budget b"
    using inv by linarith
  then show ?thesis
  proof cases
    case zero
    then have "concat (buf_head b) = []" "concat (buf_tail b) = []"
      using inv by (metis le_zero_eq length_0_conv)+
    then show ?thesis using assms zero inv
      by (simp add: push_chunk_def buffer_inv_omitted buffer_view_def view_step_def del: concat_eq_Nil_conv)
  next
    case fits
    then show ?thesis
      using inv push_head_spec [OF assms, of c]
      by (simp add: push_chunk_def buffer_view_def [of b] view_step_def)
  next
    case split
    define r where "r = head_budget b - head_bytes b"
    define b1 where "b1 = push_head (take r c) b"
    have ne: "take r c \<noteq> []" using split by (auto simp: r_def)
    have fit: "head_bytes b + length (take r c) \<le> head_budget b" using split by (simp add: r_def)
    note h = push_head_spec [OF assms fit, folded b1_def]
    have eq: "push_chunk c b = push_to_tail (drop r c) b1"
      using split ne by (simp add: push_chunk_def b1_def Let_def r_def)
    have v1: "head_budget b1 = head_budget b" "tail_budget b1 = tail_budget b"
      "concat (buf_head b1) = concat (buf_head b) @ take r c" "concat (buf_tail b1) = concat (buf_tail b)"
      "omitted_bytes b1 = omitted_bytes b"
      using h(2) by (auto simp: buffer_view_def)
    show ?thesis
      unfolding eq using push_to_tail_spec [OF h(1), of "drop r c"] inv split
      by (simp add: v1 buffer_view_def [of b] view_step_def Let_def r_def)
  next
    case full
    then show ?thesis
      using inv push_to_tail_spec [OF assms, of c]
      by (simp add: push_chunk_def buffer_view_def [of b] view_step_def Let_def)
  qed
qed

lemma view_step_append:
  assumes "length h \<le> hb"
  shows "view_step (a @ b) (hb, tb, h, t, om) = view_step b (view_step a (hb, tb, h, t, om))"
proof -
  let ?d = "hb - length h"
  define x where "x = t @ drop ?d a"
  define y where "y = drop (?d - length a) b"
  define x' where "x' = drop (length x - tb) x"
  have y: "drop (hb - length (take hb (h @ a))) b = y" using assms by (simp add: y_def min_def)
  have z: "t @ drop ?d (a @ b) = x @ y" by (simp add: x_def y_def)
  have e: "length (x @ y) - tb = (length x - tb) + (length (x' @ y) - tb)" by (auto simp: x'_def)
  have "drop (length x - tb) (x @ y) = x' @ y" by (simp add: x'_def)
  from this [symmetric] have d: "drop (length (x @ y) - tb) (x @ y) = drop (length (x' @ y) - tb) (x' @ y)"
    by (simp only: e drop_drop add.commute)
  have hd: "take hb (take hb (h @ a) @ b) = take hb (h @ a @ b)"
    using assms by (cases "length (h @ a) \<le> hb") (auto simp: min_def)
  have A: "view_step a (hb, tb, h, t, om) = (hb, tb, take hb (h @ a), x', usat_add om (length x - tb))"
    by (simp only: view_step_def prod.case Let_def x_def x'_def)
  have B: "view_step b (hb, tb, take hb (h @ a), x', usat_add om (length x - tb)) =
      (hb, tb, take hb (h @ a @ b), drop (length (x @ y) - tb) (x @ y), usat_add om (length (x @ y) - tb))"
    unfolding view_step_def prod.case Let_def y hd d by (simp only: usat_add_assoc e)
  show ?thesis
    unfolding A B by (simp only: view_step_def prod.case Let_def z)
qed

interpretation ht: chunk_stream buffer_inv push_chunk buffer_view view_step
proof unfold_locales
  fix s c a b
  assume inv: "buffer_inv s"
  show "buffer_inv (push_chunk c s)" and "buffer_view (push_chunk c s) = view_step c (buffer_view s)"
    using push_chunk_spec [OF inv] by auto
  show "view_step [] (buffer_view s) = buffer_view s"
    using buffer_inv_bounds [OF inv] by (simp add: view_step_def buffer_view_def)
  show "view_step (a @ b) (buffer_view s) = view_step b (view_step a (buffer_view s))"
    using buffer_inv_bounds(1) [OF inv] by (simp add: buffer_view_def view_step_append)
qed

lemma buffer_new_inv: "limit \<le> usize_max \<Longrightarrow> buffer_inv (buffer_new limit)"
  by (simp add: buffer_inv_def buffer_new_def Let_def)

lemma pushed_view:
  assumes "limit \<le> usize_max"
  shows "buffer_view (fold push_chunk cs (buffer_new limit)) =
    (limit div 2, limit - limit div 2, take (limit div 2) (concat cs),
     drop (length (concat cs) - limit) (drop (limit div 2) (concat cs)),
     usat_add 0 (length (concat cs) - limit))"
proof -
  have new: "buffer_view (buffer_new limit) = (limit div 2, limit - limit div 2, [], [], 0)"
    by (simp add: buffer_view_def buffer_new_def Let_def)
  have "length (concat cs) - limit div 2 - (limit - limit div 2) = length (concat cs) - limit" by simp
  then have "view_step (concat cs) (limit div 2, limit - limit div 2, [], [], 0) =
    (limit div 2, limit - limit div 2, take (limit div 2) (concat cs),
     drop (length (concat cs) - limit) (drop (limit div 2) (concat cs)),
     usat_add 0 (length (concat cs) - limit))"
    by (simp only: view_step_def prod.case Let_def append_Nil list.size diff_zero length_drop)
  then show ?thesis
    using ht.view_pushes [OF buffer_new_inv [OF assms], of cs] by (simp only: new)
qed

section \<open>Properties\<close>

text \<open>
  C34: Head and tail. However the output of a command is cut into chunks, the buffer holds the
  first half-budget of bytes followed by the last bytes that fit the rest of the budget; in
  particular it holds everything as long as the output fits.
\<close>

theorem buffer_keeps_head_and_tail:
  assumes "limit \<le> usize_max"
  shows "to_bytes (fold push_chunk cs (buffer_new limit)) =
    take (limit div 2) (concat cs) @
    drop (length (concat cs) - limit) (drop (limit div 2) (concat cs)) \<and>
    (length (concat cs) \<le> limit \<longrightarrow> to_bytes (fold push_chunk cs (buffer_new limit)) = concat cs)"
  using pushed_view [OF assms, of cs] by (auto simp: to_bytes_def buffer_view_def)

theorem buffer_keeps_head_and_tail_witness:
  "to_bytes (fold push_chunk [[1, 2], [3, 4, 5], [6]] (buffer_new 4)) = [1, 2, 5, 6]"
  using buffer_keeps_head_and_tail [of 4 "[[1, 2], [3, 4, 5], [6]]"] by (simp add: usize_max_def)

text \<open>
  Bounds. The buffer never holds more than its limit, none of its counters overflows, and
  as long as the output is shorter than 2 to the 64 bytes every byte is either retained or
  counted as omitted.
\<close>

theorem buffer_accounts_for_every_byte:
  assumes "limit \<le> usize_max" and "length (concat cs) \<le> usize_max"
  shows "length (to_bytes (fold push_chunk cs (buffer_new limit))) \<le> limit \<and>
    retained_bytes (fold push_chunk cs (buffer_new limit)) +
      omitted_bytes (fold push_chunk cs (buffer_new limit)) = length (concat cs)"
proof -
  define b where "b = fold push_chunk cs (buffer_new limit)"
  have inv: "buffer_inv b" unfolding b_def by (rule ht.inv_pushes [OF buffer_new_inv [OF assms(1)]])
  note v = pushed_view [OF assms(1), of cs, folded b_def, unfolded buffer_view_def prod.inject]
  have l: "length (concat (buf_head b)) = min (limit div 2) (length (concat cs))"
    "length (concat (buf_tail b)) = min (length (concat cs) - limit div 2) (limit - limit div 2)"
    using v by (auto simp: min_def)
  have "omitted_bytes b = length (concat cs) - limit" using v assms(2) by (simp add: usat_add_def)
  moreover have "retained_bytes b = length (concat (buf_head b)) + length (concat (buf_tail b))"
    unfolding retained_bytes_def buffer_inv_bounds(4,5) [OF inv]
    by (rule usat_add_exact) (use l assms in linarith)
  ultimately show ?thesis
    unfolding b_def [symmetric] to_bytes_def using l by (auto simp: min_def)
qed

theorem buffer_accounts_for_every_byte_witness:
  "retained_bytes (fold push_chunk [[1, 2], [3, 4, 5], [6]] (buffer_new 4)) +
     omitted_bytes (fold push_chunk [[1, 2], [3, 4, 5], [6]] (buffer_new 4)) = 6"
  using buffer_accounts_for_every_byte [of 4 "[[1, 2], [3, 4, 5], [6]]"] by (simp add: usize_max_def)

end
