(* ===== verification/Stream_Text.thy ===== *)
theory Stream_Text
  imports Rust_Prelude
begin

text \<open>
  \<^verbatim>\<open>utils/stream-parser/src/stream_text.rs\<close>: the chunks that streaming text parsers emit and the
  trait they implement. The trait is the locale \<open>stream_text_parser\<close>; its law says that
  pushing a text in two pieces and merging the two outputs is pushing it at once, and the
  lemma a caller relies on, that the pieces do not matter, is proved once for all parsers. A
  push that does not return is \<open>None\<close>.
\<close>

record 'x stream_text_chunk =
  visible_text :: rstr
  extracted :: "'x list"

definition chunk_default :: "'x stream_text_chunk" where
  "chunk_default = \<lparr>visible_text = [], extracted = []\<rparr>"

definition stream_chunk_is_empty :: "'x stream_text_chunk \<Rightarrow> bool" where
  "stream_chunk_is_empty c \<longleftrightarrow> visible_text c = [] \<and> extracted c = []"

definition chunk_merge ::
    "('x list \<Rightarrow> 'x list \<Rightarrow> 'x list) \<Rightarrow> 'x stream_text_chunk \<Rightarrow> 'x stream_text_chunk \<Rightarrow> 'x stream_text_chunk" where
  "chunk_merge f c d =
     \<lparr>visible_text = visible_text c @ visible_text d, extracted = f (extracted c) (extracted d)\<rparr>"

lemma chunk_merge_default [simp]:
  "f [] (extracted c) = extracted c \<Longrightarrow> chunk_merge f chunk_default c = c"
  "f (extracted c) [] = extracted c \<Longrightarrow> chunk_merge f c chunk_default = c"
  by (simp_all add: chunk_merge_def chunk_default_def)

lemma chunk_merge_assoc:
  "(\<And>x y z. f (f x y) z = f x (f y z)) \<Longrightarrow> chunk_merge f (chunk_merge f a b) c = chunk_merge f a (chunk_merge f b c)"
  by (simp add: chunk_merge_def)

text \<open>What a caller does: push one piece after the other and put the outputs together.\<close>

fun collect ::
    "(rstr \<Rightarrow> 'p \<Rightarrow> ('o \<times> 'p) option) \<Rightarrow> ('o \<Rightarrow> 'o \<Rightarrow> 'o) \<Rightarrow> 'o \<Rightarrow> 'p \<Rightarrow> rstr list \<Rightarrow> ('o \<times> 'p) option" where
  "collect push merge acc p [] = Some (acc, p)"
| "collect push merge acc p (c # cs) =
     (case push c p of
        None \<Rightarrow> None
      | Some (out, p') \<Rightarrow> collect push merge (merge acc out) p' cs)"

locale stream_text_parser =
  fixes inv :: "'p \<Rightarrow> bool"
    and push :: "rstr \<Rightarrow> 'p \<Rightarrow> ('o \<times> 'p) option"
    and merge :: "'o \<Rightarrow> 'o \<Rightarrow> 'o"
    and none :: 'o
  assumes push_total: "inv p \<Longrightarrow> \<exists>out p'. push c p = Some (out, p') \<and> inv p'"
    and push_Nil: "inv p \<Longrightarrow> push [] p = Some (none, p)"
    and push_append: "inv p \<Longrightarrow> push a p = Some (o1, p1) \<Longrightarrow> push b p1 = Some (o2, p2) \<Longrightarrow>
      push (a @ b) p = Some (merge o1 o2, p2)"
    and merge_none: "inv p \<Longrightarrow> push c p = Some (out, p') \<Longrightarrow> merge none out = out"
    and none_merge: "inv p \<Longrightarrow> push c p = Some (out, p') \<Longrightarrow> merge out none = out"
begin

lemma collect_from:
  "inv p \<Longrightarrow> push a p = Some (o1, p1) \<Longrightarrow>
   collect push merge o1 p1 cs = push (a @ concat cs) p"
proof (induction cs arbitrary: a o1 p1)
  case (Cons c cs)
  have "inv p1" using push_total [OF Cons.prems(1), of a] Cons.prems(2) by auto
  then obtain o2 p2 where c: "push c p1 = Some (o2, p2)" using push_total by blast
  from Cons.IH [OF Cons.prems(1) push_append [OF Cons.prems(1,2) c]] show ?case using c by simp
qed simp

lemma collect_pieces: "inv p \<Longrightarrow> collect push merge none p cs = push (concat cs) p"
  using collect_from [of p "[]" none p cs] push_Nil by simp

lemma collect_total: "inv p \<Longrightarrow> \<exists>out p'. collect push merge none p cs = Some (out, p') \<and> inv p'"
  using collect_pieces push_total by simp

lemma pieces_irrelevant:
  "inv p \<Longrightarrow> concat cs = concat ds \<Longrightarrow> collect push merge none p cs = collect push merge none p ds"
  by (simp add: collect_pieces)

end

end
