(* ===== verification/Inline_Tags.thy ===== *)
theory Inline_Tags
  imports Stream_Text
begin

text \<open>
  \<^verbatim>\<open>utils/stream-parser/src/inline_hidden_tag.rs\<close>: hiding inline tags from streamed text. Lengths
  and positions are in characters where the code counts bytes: every cut of the code is at a
  character boundary.
\<close>

section \<open>Substrings\<close>

definition find_sub :: "'a list \<Rightarrow> 'a list \<Rightarrow> nat option" where
  "find_sub pat s = find (\<lambda>i. take (length pat) (drop i s) = pat) [0..<Suc (length s) - length pat]"

definition longest_suffix_prefix_len :: "rstr \<Rightarrow> rstr \<Rightarrow> nat" where
  "longest_suffix_prefix_len s needle =
     (case find (\<lambda>k. ends_with (take k needle) s)
             (rev [1..<Suc (min (length s) (length needle - 1))]) of
        Some k \<Rightarrow> k
      | None \<Rightarrow> 0)"

definition occurs :: "'a list \<Rightarrow> 'a list \<Rightarrow> nat \<Rightarrow> bool" where
  "occurs pat s i \<longleftrightarrow> i + length pat \<le> length s \<and> take (length pat) (drop i s) = pat"

lemma find_sub_Some_iff: "find_sub pat s = Some i \<longleftrightarrow> occurs pat s i \<and> (\<forall>j < i. \<not> occurs pat s j)"
  unfolding find_sub_def find_upt_Some_iff occurs_def by (auto simp: less_diff_conv)

lemma find_sub_None_iff: "find_sub pat s = None \<longleftrightarrow> (\<forall>i. \<not> occurs pat s i)"
  unfolding find_sub_def find_upt_None_iff occurs_def by (auto simp: less_diff_conv)

lemma occurs_append: "i + length pat \<le> length s \<Longrightarrow> occurs pat (s @ b) i \<longleftrightarrow> occurs pat s i"
  by (simp add: occurs_def)

lemma occurs_shift: "occurs pat (u @ v) (length u + i) \<longleftrightarrow> occurs pat v i"
  by (auto simp: occurs_def)

lemma find_sub_append:
  assumes "find_sub pat s = Some i"
  shows "find_sub pat (s @ b) = Some i"
proof -
  note i = assms [unfolded find_sub_Some_iff]
  then have "i + length pat \<le> length s" by (simp add: occurs_def)
  then show ?thesis using i by (auto simp: find_sub_Some_iff occurs_append)
qed

lemma find_rev_upt:
  "find P (rev [1..<Suc n]) = Some k \<longleftrightarrow> 1 \<le> k \<and> k \<le> n \<and> P k \<and> (\<forall>j. k < j \<longrightarrow> j \<le> n \<longrightarrow> \<not> P j)"
proof (induction n)
  case (Suc n)
  have "rev [1..<Suc (Suc n)] = Suc n # rev [1..<Suc n]" by simp
  then have "find P (rev [1..<Suc (Suc n)]) = (if P (Suc n) then Some (Suc n) else find P (rev [1..<Suc n]))"
    by (simp only: find.simps)
  then have find: "find P (rev [1..<Suc (Suc n)]) = Some k \<longleftrightarrow>
      (if P (Suc n) then k = Suc n else find P (rev [1..<Suc n]) = Some k)" by auto
  have all: "(\<forall>j. k < j \<longrightarrow> j \<le> Suc n \<longrightarrow> \<not> P j) \<longleftrightarrow>
      (k < Suc n \<longrightarrow> \<not> P (Suc n)) \<and> (\<forall>j. k < j \<longrightarrow> j \<le> n \<longrightarrow> \<not> P j)"
    using le_Suc_eq by blast
  show ?case unfolding find all Suc.IH by (cases "P (Suc n)") (auto simp: le_Suc_eq)
qed auto

lemma find_rev_upt_None: "find P (rev [1..<Suc n]) = None \<longleftrightarrow> (\<forall>j. 1 \<le> j \<longrightarrow> j \<le> n \<longrightarrow> \<not> P j)"
  by (auto simp: find_None_iff)

lemma ends_with_take:
  "k \<le> length s \<Longrightarrow> k \<le> length d \<Longrightarrow> ends_with (take k d) s \<longleftrightarrow> drop (length s - k) s = take k d"
proof -
  assume k: "k \<le> length s" "k \<le> length d"
  have "ends_with (take k d) s \<longleftrightarrow> (\<exists>r. s = r @ take k d)"
    by (auto simp: ends_with_def starts_with_iff rev_swap intro: exI [of _ "rev _"])
  also have "\<dots> \<longleftrightarrow> drop (length s - k) s = take k d"
  proof
    assume "\<exists>r. s = r @ take k d"
    then obtain r where r: "s = r @ take k d" by blast
    then show "drop (length s - k) s = take k d" using k by (subst r) (simp add: min_def)
  next
    assume "drop (length s - k) s = take k d"
    then show "\<exists>r. s = r @ take k d" by (metis append_take_drop_id)
  qed
  finally show ?thesis .
qed

lemma suffix_prefix_len:
  shows "drop (length s - longest_suffix_prefix_len s d) s = take (longest_suffix_prefix_len s d) d"
    and "longest_suffix_prefix_len s d \<le> length s"
    and "d \<noteq> [] \<Longrightarrow> longest_suffix_prefix_len s d < length d"
    and "k \<le> length s \<Longrightarrow> k < length d \<Longrightarrow> drop (length s - k) s = take k d \<Longrightarrow>
      k \<le> longest_suffix_prefix_len s d"
proof -
  define n where "n = min (length s) (length d - 1)"
  define P where "P = (\<lambda>k. ends_with (take k d) s)"
  define l where "l = longest_suffix_prefix_len s d"
  have l: "l = 0 \<and> (\<forall>j. 1 \<le> j \<longrightarrow> j \<le> n \<longrightarrow> \<not> P j) \<or> l \<le> n \<and> P l \<and> (\<forall>j. l < j \<longrightarrow> j \<le> n \<longrightarrow> \<not> P j)"
  proof (cases "find P (rev [1..<Suc n])")
    case None
    then have "l = 0" by (simp add: l_def longest_suffix_prefix_len_def P_def n_def del: upt_Suc)
    then show ?thesis using None [unfolded find_rev_upt_None] by blast
  next
    case (Some k)
    then have "l = k" by (simp add: l_def longest_suffix_prefix_len_def P_def n_def del: upt_Suc)
    then show ?thesis using Some [unfolded find_rev_upt] by blast
  qed
  then have ln: "l \<le> n" by auto
  then show "longest_suffix_prefix_len s d \<le> length s" by (simp add: l_def n_def)
  show "drop (length s - longest_suffix_prefix_len s d) s = take (longest_suffix_prefix_len s d) d"
  proof (cases "l = 0")
    case False
    then have "P l" using l by blast
    moreover have "l \<le> length s" "l \<le> length d" using ln unfolding n_def by linarith+
    ultimately show ?thesis using ends_with_take [of l s d] by (simp add: P_def l_def)
  qed (simp add: l_def)
  show "longest_suffix_prefix_len s d < length d" if "d \<noteq> []"
  proof -
    have "0 < length d" using that by simp
    then show ?thesis using ln unfolding l_def n_def by linarith
  qed
  assume k: "k \<le> length s" "k < length d" "drop (length s - k) s = take k d"
  have "P k" unfolding P_def using k(3) ends_with_take [OF k(1) less_imp_le [OF k(2)]] by blast
  moreover have "k \<le> n" using k(1,2) unfolding n_def by linarith
  ultimately have "\<not> l < k" using l by force
  then show "k \<le> longest_suffix_prefix_len s d" by (simp add: l_def)
qed

section \<open>The parser\<close>

record 't inline_tag_spec =
  spec_tag :: 't
  spec_open :: rstr
  spec_close :: rstr

record 't extracted_inline_tag =
  ext_tag :: 't
  ext_content :: rstr

record 't active_tag =
  act_tag :: 't
  act_close :: rstr
  act_content :: rstr

record 't inline_parser =
  tag_specs :: "'t inline_tag_spec list"
  pending :: rstr
  active :: "'t active_tag option"

text \<open>The assertions of the constructor panic: \<open>None\<close>.\<close>

definition inline_new :: "'t inline_tag_spec list \<Rightarrow> 't inline_parser option" where
  "inline_new specs =
     (if specs = [] \<or> (\<exists>spec \<in> set specs. spec_open spec = [] \<or> spec_close spec = []) then None
      else Some \<lparr>tag_specs = specs, pending = [], active = None\<rparr>)"

definition open_candidates :: "'t inline_tag_spec list \<Rightarrow> rstr \<Rightarrow> (nat \<times> nat \<times> nat) list" where
  "open_candidates specs s =
     List.map_filter
       (\<lambda>(idx, spec). map_option (\<lambda>pos. (pos, length (spec_open spec), idx)) (find_sub (spec_open spec) s))
       (enumerate 0 specs)"

fun comes_before :: "nat \<times> nat \<times> nat \<Rightarrow> nat \<times> nat \<times> nat \<Rightarrow> bool" where
  "comes_before (pos_a, len_a, idx_a) (pos_b, len_b, idx_b) \<longleftrightarrow>
     pos_a < pos_b \<or> pos_a = pos_b \<and> (len_b < len_a \<or> len_b = len_a \<and> idx_a < idx_b)"

definition find_next_open :: "'t inline_tag_spec list \<Rightarrow> rstr \<Rightarrow> (nat \<times> nat) option" where
  "find_next_open specs s =
     (case open_candidates specs s of
        [] \<Rightarrow> None
      | c # cs \<Rightarrow>
          (case foldl (\<lambda>m d. if comes_before d m then d else m) c cs of
             (pos, len, idx) \<Rightarrow> Some (pos, idx)))"

definition max_open_prefix_suffix_len :: "'t inline_tag_spec list \<Rightarrow> rstr \<Rightarrow> nat" where
  "max_open_prefix_suffix_len specs s =
     foldl (\<lambda>m spec. max m (longest_suffix_prefix_len s (spec_open spec))) 0 specs"

partial_function (option) inline_loop ::
    "'t inline_tag_spec list \<Rightarrow> 't active_tag option \<Rightarrow> rstr \<Rightarrow> 't extracted_inline_tag stream_text_chunk \<Rightarrow>
     ('t extracted_inline_tag stream_text_chunk \<times> 't active_tag option \<times> rstr) option" where
  "inline_loop specs act pend out =
     (case act of
        Some a \<Rightarrow>
          (case find_sub (act_close a) pend of
             Some close_idx \<Rightarrow>
               inline_loop specs None (drop (close_idx + length (act_close a)) pend)
                 (out\<lparr>extracted := extracted out @
                    [\<lparr>ext_tag = act_tag a, ext_content = act_content a @ take close_idx pend\<rparr>]\<rparr>)
           | None \<Rightarrow>
               (let keep = longest_suffix_prefix_len pend (act_close a);
                    cut = length pend - keep
                in Some (out, Some (a\<lparr>act_content := act_content a @ take cut pend\<rparr>), drop cut pend)))
      | None \<Rightarrow>
          (case find_next_open specs pend of
             Some (open_idx, spec_idx) \<Rightarrow>
               inline_loop specs
                 (Some \<lparr>act_tag = spec_tag (specs ! spec_idx), act_close = spec_close (specs ! spec_idx),
                        act_content = []\<rparr>)
                 (drop (open_idx + length (spec_open (specs ! spec_idx))) pend)
                 (out\<lparr>visible_text := visible_text out @ take open_idx pend\<rparr>)
           | None \<Rightarrow>
               (let keep = max_open_prefix_suffix_len specs pend;
                    cut = length pend - keep
                in Some (out\<lparr>visible_text := visible_text out @ take cut pend\<rparr>, None, drop cut pend))))"

definition inline_push_str ::
    "rstr \<Rightarrow> 't inline_parser \<Rightarrow> ('t extracted_inline_tag stream_text_chunk \<times> 't inline_parser) option" where
  "inline_push_str chunk p =
     (case inline_loop (tag_specs p) (active p) (pending p @ chunk) chunk_default of
        None \<Rightarrow> None
      | Some (out, act, pend) \<Rightarrow> Some (out, p\<lparr>active := act, pending := pend\<rparr>))"

definition inline_finish ::
    "'t inline_parser \<Rightarrow> 't extracted_inline_tag stream_text_chunk \<times> 't inline_parser" where
  "inline_finish p =
     (case active p of
        Some a \<Rightarrow>
          (\<lparr>visible_text = [], extracted = [\<lparr>ext_tag = act_tag a, ext_content = act_content a @ pending p\<rparr>]\<rparr>,
           p\<lparr>active := None, pending := []\<rparr>)
      | None \<Rightarrow> (\<lparr>visible_text = pending p, extracted = []\<rparr>, p\<lparr>pending := []\<rparr>))"

section \<open>The next opening tag\<close>

definition first_open :: "'t inline_tag_spec list \<Rightarrow> rstr \<Rightarrow> nat \<Rightarrow> nat \<Rightarrow> bool" where
  "first_open specs s i k \<longleftrightarrow>
     k < length specs \<and> find_sub (spec_open (specs ! k)) s = Some i \<and>
     (\<forall>l j. l < length specs \<longrightarrow> l \<noteq> k \<longrightarrow> find_sub (spec_open (specs ! l)) s = Some j \<longrightarrow>
        comes_before (i, length (spec_open (specs ! k)), k) (j, length (spec_open (specs ! l)), l))"

lemma comes_before_trans: "comes_before a b \<Longrightarrow> comes_before b c \<Longrightarrow> comes_before a c"
  by (cases a; cases b; cases c) auto

lemma comes_before_total: "a \<noteq> b \<Longrightarrow> comes_before a b \<or> comes_before b a"
  by (cases a; cases b) auto

lemma comes_before_irrefl: "\<not> comes_before a a"
  by (cases a) auto

declare comes_before.simps [simp del]

lemma foldl_least:
  "foldl (\<lambda>m d. if comes_before d m then d else m) c cs \<in> set (c # cs) \<and>
   (\<forall>d \<in> set (c # cs). d \<noteq> foldl (\<lambda>m d. if comes_before d m then d else m) c cs \<longrightarrow>
      comes_before (foldl (\<lambda>m d. if comes_before d m then d else m) c cs) d)"
proof (induction cs arbitrary: c)
  case (Cons d cs)
  define c' where "c' = (if comes_before d c then d else c)"
  define r where "r = foldl (\<lambda>m d. if comes_before d m then d else m) c' cs"
  have IH: "r \<in> set (c' # cs)" "\<And>e. e \<in> set (c' # cs) \<Longrightarrow> e \<noteq> r \<Longrightarrow> comes_before r e"
    using Cons.IH [of c'] unfolding r_def by blast+
  have c': "c' \<in> {c, d}" "e \<in> {c, d} \<Longrightarrow> e \<noteq> c' \<Longrightarrow> comes_before c' e" for e
    using comes_before_total [of c d] by (auto simp: c'_def)
  have "comes_before r e" if "e \<in> set (c # d # cs)" "e \<noteq> r" for e
  proof (cases "e \<in> set (c' # cs)")
    case True
    then show ?thesis using IH(2) that by blast
  next
    case False
    then have "comes_before c' e" using that c'(2) [of e] by auto
    then show ?thesis using IH(2) [of c'] comes_before_trans by (cases "c' = r") auto
  qed
  moreover have "r \<in> set (c # d # cs)" using IH(1) c'(1) by auto
  ultimately show ?case by (simp add: r_def c'_def)
qed simp

lemma set_open_candidates:
  "x \<in> set (open_candidates specs s) \<longleftrightarrow>
   (\<exists>k i. k < length specs \<and> find_sub (spec_open (specs ! k)) s = Some i \<and> x = (i, length (spec_open (specs ! k)), k))"
  unfolding open_candidates_def map_filter_def
  by (force simp: in_set_enumerate_eq image_iff split: prod.splits)

lemma find_next_open_Some_iff: "find_next_open specs s = Some (i, k) \<longleftrightarrow> first_open specs s i k"
proof (cases "open_candidates specs s")
  case Nil
  have "False" if "first_open specs s i k"
  proof -
    have "(i, length (spec_open (specs ! k)), k) \<in> set (open_candidates specs s)"
      unfolding set_open_candidates using that [unfolded first_open_def] by blast
    then show False using Nil by simp
  qed
  moreover have "find_next_open specs s = None" using Nil by (simp add: find_next_open_def)
  ultimately show ?thesis by (metis option.distinct(1))
next
  case (Cons c cs)
  obtain j len l where r: "foldl (\<lambda>m d. if comes_before d m then d else m) c cs = (j, len, l)"
    by (cases "foldl (\<lambda>m d. if comes_before d m then d else m) c cs")
  have least: "(j, len, l) \<in> set (open_candidates specs s)"
      "\<And>d. d \<in> set (open_candidates specs s) \<Longrightarrow> d \<noteq> (j, len, l) \<Longrightarrow> comes_before (j, len, l) d"
    using foldl_least [of c cs] r Cons by auto
  have fno: "find_next_open specs s = Some (j, l)" using Cons r by (simp add: find_next_open_def)
  have jl: "first_open specs s j l"
    unfolding first_open_def
  proof (intro conjI allI impI)
    show "l < length specs" "find_sub (spec_open (specs ! l)) s = Some j"
      using least(1) [unfolded set_open_candidates] by auto
    fix k i
    assume "k < length specs" "k \<noteq> l" "find_sub (spec_open (specs ! k)) s = Some i"
    then have "(i, length (spec_open (specs ! k)), k) \<in> set (open_candidates specs s)"
      unfolding set_open_candidates by blast
    from least(2) [OF this] show "comes_before (j, length (spec_open (specs ! l)), l) (i, length (spec_open (specs ! k)), k)"
      using least(1) [unfolded set_open_candidates] \<open>k \<noteq> l\<close> by auto
  qed
  have "i = j \<and> k = l" if "first_open specs s i k"
  proof (cases "k = l")
    case True
    then show ?thesis using that jl by (auto simp: first_open_def)
  next
    case False
    then have "comes_before (i, length (spec_open (specs ! k)), k) (j, length (spec_open (specs ! l)), l)"
      "comes_before (j, length (spec_open (specs ! l)), l) (i, length (spec_open (specs ! k)), k)"
      using that jl by (auto simp: first_open_def)
    then show ?thesis using comes_before_trans comes_before_irrefl by blast
  qed
  then show ?thesis using fno jl by auto
qed

lemma find_next_open_None_iff:
  "find_next_open specs s = None \<longleftrightarrow> (\<forall>spec \<in> set specs. find_sub (spec_open spec) s = None)"
proof -
  have "find_next_open specs s = None \<longleftrightarrow> open_candidates specs s = []"
    by (auto simp: find_next_open_def split: list.splits prod.splits)
  also have "\<dots> \<longleftrightarrow> (\<forall>x. x \<notin> set (open_candidates specs s))" by (metis list.set_intros(1) neq_Nil_conv empty_iff list.set(1))
  also have "\<dots> \<longleftrightarrow> (\<forall>spec \<in> set specs. find_sub (spec_open spec) s = None)"
    unfolding set_open_candidates all_set_conv_all_nth by (metis not_None_eq)
  finally show ?thesis .
qed

lemma foldl_max_ge: "(m::nat) \<le> foldl (\<lambda>m x. max m (f x)) m xs"
  by (induction xs arbitrary: m) (auto intro: le_trans [OF max.cobounded1])

lemma foldl_max_ge_elem: "x \<in> set xs \<Longrightarrow> f x \<le> foldl (\<lambda>m x. max m (f x)) (m::nat) xs"
proof (induction xs arbitrary: m)
  case (Cons y ys)
  then show ?case using foldl_max_ge [of "max m (f y)" f ys] by auto
qed simp

lemma foldl_max_mem:
  "foldl (\<lambda>m x. max m (f x)) (m::nat) xs = m \<or> (\<exists>x \<in> set xs. foldl (\<lambda>m x. max m (f x)) m xs = f x)"
proof (induction xs arbitrary: m)
  case (Cons y ys)
  then show ?case using Cons.IH [of "max m (f y)"] by (auto simp: max_def)
qed simp

section \<open>Text that arrives in two pieces\<close>

text \<open>
  No opening delimiter may hide inside another one, or the choice between them would depend on
  how much of the text has arrived. One delimiter alone always satisfies this.
\<close>

definition separable :: "'t inline_tag_spec list \<Rightarrow> bool" where
  "separable specs \<longleftrightarrow>
     (\<forall>a \<in> set specs. \<forall>b \<in> set specs. find_sub (spec_open a) (butlast (spec_open b)) = None)"

definition delims_ok :: "'t inline_tag_spec list \<Rightarrow> bool" where
  "delims_ok specs \<longleftrightarrow> (\<forall>spec \<in> set specs. spec_open spec \<noteq> [] \<and> spec_close spec \<noteq> [])"

definition active_ok :: "'t active_tag option \<Rightarrow> bool" where
  "active_ok act \<longleftrightarrow> (\<forall>a. act = Some a \<longrightarrow> act_close a \<noteq> [])"

lemma separable_single: "delims_ok [spec] \<Longrightarrow> separable [spec]"
  by (auto simp: separable_def delims_ok_def find_sub_None_iff occurs_def Suc_le_eq)

lemma occurs_across:
  assumes o: "occurs d (s @ b) j" and j: "length s < j + length d"
  shows "length s - longest_suffix_prefix_len s d \<le> j"
proof (cases "j \<le> length s")
  case True
  have "take (length d) (drop j s @ b) = d" using o True by (simp add: occurs_def)
  then have "take (length s - j) d = drop j s"
    using j True by (metis (no_types, lifting) add.commute append_eq_conv_conj diff_le_self le_diff_conv
      length_drop less_imp_le_nat min.absorb2 take_append take_take)
  then have "length s - j \<le> longest_suffix_prefix_len s d"
    using True j by (intro suffix_prefix_len(4)) simp_all
  then show ?thesis by simp
qed simp

lemma no_occurrence_before:
  assumes "find_sub d s = None" "longest_suffix_prefix_len s d \<le> keep" "j < length s - keep"
  shows "\<not> occurs d (s @ b) j"
proof
  assume o: "occurs d (s @ b) j"
  then have "length s < j + length d"
    using assms(1) [unfolded find_sub_None_iff] occurs_append [of j d s b] not_le by blast
  from occurs_across [OF o this] show False using assms(2,3) by linarith
qed

lemma find_sub_shift:
  assumes "\<And>j. j < length u \<Longrightarrow> \<not> occurs d (u @ w) j"
  shows "find_sub d (u @ w) = map_option ((+) (length u)) (find_sub d w)"
proof -
  have occ: "occurs d (u @ w) j \<longleftrightarrow> (\<exists>i. j = length u + i \<and> occurs d w i)" for j
    using assms [of j] occurs_shift [of d u w "j - length u"] occurs_shift [of d u w]
    by (cases "j < length u") (auto intro!: exI [of _ "j - length u"])
  show ?thesis
  proof (cases "find_sub d w")
    case None
    then have "find_sub d (u @ w) = None" by (simp add: find_sub_None_iff occ)
    then show ?thesis using None by simp
  next
    case (Some i)
    then have "find_sub d (u @ w) = Some (length u + i)" by (auto simp: find_sub_Some_iff occ)
    then show ?thesis using Some by simp
  qed
qed

lemma suffix_prefix_len_shift:
  assumes "\<And>k. length w < k \<Longrightarrow> k \<le> length (u @ w) \<Longrightarrow> k < length d \<Longrightarrow>
      drop (length (u @ w) - k) (u @ w) \<noteq> take k d"
    and d: "d \<noteq> []"
  shows "longest_suffix_prefix_len (u @ w) d = longest_suffix_prefix_len w d"
proof (rule antisym)
  let ?k = "longest_suffix_prefix_len (u @ w) d"
  have k: "drop (length (u @ w) - ?k) (u @ w) = take ?k d" "?k \<le> length (u @ w)" "?k < length d"
    using suffix_prefix_len [where s = "u @ w"] d by blast+
  then have "?k \<le> length w" using assms(1) [of ?k] not_le by blast
  then show "?k \<le> longest_suffix_prefix_len w d"
    using k by (intro suffix_prefix_len(4)) simp_all
next
  let ?k = "longest_suffix_prefix_len w d"
  show "?k \<le> longest_suffix_prefix_len (u @ w) d"
    using suffix_prefix_len(1) [of w d] suffix_prefix_len(2) [of w d] suffix_prefix_len(3) [OF d, of w]
    by (intro suffix_prefix_len(4)) simp_all
qed

lemma suffix_prefix_len_append:
  assumes d: "d \<noteq> []" and keep: "longest_suffix_prefix_len (u @ r) d \<le> length r"
  shows "longest_suffix_prefix_len (u @ r @ b) d = longest_suffix_prefix_len (r @ b) d"
proof (rule suffix_prefix_len_shift [OF _ d])
  fix k
  assume k: "length (r @ b) < k" "k \<le> length (u @ r @ b)" "k < length d"
  define n where "n = k - length b"
  have n: "length r < n" "n \<le> length (u @ r)" "n < length d" using k by (auto simp: n_def)
  show "drop (length (u @ r @ b) - k) (u @ r @ b) \<noteq> take k d"
  proof
    assume e: "drop (length (u @ r @ b) - k) (u @ r @ b) = take k d"
    have l: "length (u @ r @ b) - k = length (u @ r) - n" using k by (simp add: n_def)
    have "drop (length (u @ r) - n) (u @ r) @ b = take k d" using e n unfolding l by simp
    then have "take n (drop (length (u @ r) - n) (u @ r) @ b) = take n (take k d)" by (rule arg_cong)
    then have "drop (length (u @ r) - n) (u @ r) = take n d" using n k by (simp add: n_def min_def)
    then have "n \<le> longest_suffix_prefix_len (u @ r) d" using n by (intro suffix_prefix_len(4)) simp_all
    then show False using keep n by simp
  qed
qed

lemma max_open_ge: "spec \<in> set specs \<Longrightarrow> longest_suffix_prefix_len s (spec_open spec) \<le> max_open_prefix_suffix_len specs s"
  unfolding max_open_prefix_suffix_len_def by (rule foldl_max_ge_elem)

lemma max_open_le: "max_open_prefix_suffix_len specs s \<le> length s"
  using foldl_max_mem [of "\<lambda>spec. longest_suffix_prefix_len s (spec_open spec)" 0 specs] suffix_prefix_len(2)
  unfolding max_open_prefix_suffix_len_def by force

lemma find_next_open_shift:
  assumes "\<And>spec. spec \<in> set specs \<Longrightarrow>
      find_sub (spec_open spec) s = map_option ((+) n) (find_sub (spec_open spec) w)"
  shows "find_next_open specs s = map_option (\<lambda>(i, k). (n + i, k)) (find_next_open specs w)"
proof (cases "find_next_open specs w")
  case None
  then have "find_next_open specs s = None"
    unfolding find_next_open_None_iff using assms by simp
  then show ?thesis using None by simp
next
  case (Some ik)
  obtain i k where ik: "ik = (i, k)" by force
  have w: "first_open specs w i k" using Some ik find_next_open_Some_iff by blast
  have "first_open specs s (n + i) k"
    unfolding first_open_def using w assms [OF nth_mem] by (auto simp: first_open_def comes_before.simps)
  then have "find_next_open specs s = Some (n + i, k)" by (simp add: find_next_open_Some_iff)
  then show ?thesis using Some ik by simp
qed

lemma find_next_open_append:
  assumes sep: "separable specs" and f: "find_next_open specs s = Some (i, k)"
  shows "find_next_open specs (s @ b) = Some (i, k)"
proof -
  let ?d = "\<lambda>l. spec_open (specs ! l)"
  have s: "first_open specs s i k" using f find_next_open_Some_iff by blast
  then have k: "k < length specs" "find_sub (?d k) s = Some i" by (auto simp: first_open_def)
  have occ: "occurs (?d k) s i" using k(2) find_sub_Some_iff by blast
  have later: "i < j" if l: "l < length specs" "find_sub (?d l) s = None" "find_sub (?d l) (s @ b) = Some j" for l j
  proof (rule ccontr)
    assume "\<not> i < j"
    then have ji: "j \<le> i" by simp
    have o: "occurs (?d l) (s @ b) j" using l(3) find_sub_Some_iff by blast
    have len: "length s < j + length (?d l)"
      using l(2) [unfolded find_sub_None_iff] o occurs_append [of j "?d l" s b] not_le by blast
    define n where "n = length (?d l)"
    have D: "take n (drop j (s @ b)) = ?d l" using o by (simp add: occurs_def n_def)
    have "butlast (?d l) = take (n - 1) (take n (drop j (s @ b)))"
      unfolding D by (simp add: butlast_conv_take n_def)
    then have but: "butlast (?d l) = take (n - 1) (drop j (s @ b))"
      unfolding take_take by (simp only: min.absorb1 diff_le_self)
    have m: "i - j + length (?d k) \<le> n - 1" "i + length (?d k) \<le> length s" "take (length (?d k)) (drop i s) = ?d k"
      using occ len ji unfolding n_def by (auto simp: occurs_def)
    have "take (length (?d k)) (drop (i - j) (butlast (?d l))) = take (length (?d k)) (drop i (s @ b))"
      unfolding but drop_take take_take drop_drop using m(1) ji by (simp only: min.absorb1 le_diff_conv2 le_add_diff_inverse le_add_diff_inverse2 add.commute)
    also have "\<dots> = ?d k" using m(2,3) by simp
    finally have "occurs (?d k) (butlast (?d l)) (i - j)"
      using m(1) by (simp add: occurs_def n_def)
    then show False using sep k(1) l(1) nth_mem by (auto simp: separable_def find_sub_None_iff)
  qed
  have "first_open specs (s @ b) i k"
    unfolding first_open_def
  proof (intro conjI allI impI)
    fix l j
    assume l: "l < length specs" "l \<noteq> k" "find_sub (?d l) (s @ b) = Some j"
    show "comes_before (i, length (?d k), k) (j, length (?d l), l)"
    proof (cases "find_sub (?d l) s")
      case None
      then show ?thesis using later [OF l(1) None l(3)] by (simp add: comes_before.simps)
    next
      case (Some j')
      then show ?thesis using find_sub_append [OF Some, of b] l s by (simp add: first_open_def)
    qed
  qed (use k find_sub_append in auto)
  then show ?thesis using find_next_open_Some_iff by blast
qed

section \<open>The loop\<close>

definition merge_inline ::
    "'t extracted_inline_tag stream_text_chunk \<Rightarrow> 't extracted_inline_tag stream_text_chunk \<Rightarrow>
     't extracted_inline_tag stream_text_chunk" where
  "merge_inline = chunk_merge (@)"

lemma merge_inline_simps [simp]:
  "merge_inline chunk_default c = c"
  "merge_inline c chunk_default = c"
  "(merge_inline c d)\<lparr>visible_text := visible_text (merge_inline c d) @ v\<rparr> =
     merge_inline c (d\<lparr>visible_text := visible_text d @ v\<rparr>)"
  "(merge_inline c d)\<lparr>extracted := extracted (merge_inline c d) @ e\<rparr> =
     merge_inline c (d\<lparr>extracted := extracted d @ e\<rparr>)"
  by (simp_all add: merge_inline_def chunk_merge_def chunk_default_def)

lemma drop_found:
  assumes "find_sub d s = Some i" "d \<noteq> []"
  shows "length (drop (i + length d) s) < length s"
proof -
  have "i + length d \<le> length s" using assms(1) by (simp add: find_sub_Some_iff occurs_def)
  then show ?thesis using assms(2) by (simp flip: length_greater_0_conv)
qed

lemma next_open_found:
  assumes "find_next_open specs s = Some (i, k)"
  shows "k < length specs" "find_sub (spec_open (specs ! k)) s = Some i"
  using assms by (auto simp: find_next_open_Some_iff first_open_def)

lemma delims_nth: "delims_ok specs \<Longrightarrow> k < length specs \<Longrightarrow> spec_open (specs ! k) \<noteq> [] \<and> spec_close (specs ! k) \<noteq> []"
  by (simp add: delims_ok_def)

text \<open>The loop ends: every turn that does not end it consumes a delimiter.\<close>

lemma inline_loop_total:
  assumes specs: "delims_ok specs"
  shows "active_ok act \<Longrightarrow> \<exists>out' act' pend'. inline_loop specs act pend out = Some (out', act', pend') \<and> active_ok act'"
proof (induction "length pend" arbitrary: act pend out rule: less_induct)
  case less
  show ?case
  proof (cases act)
    case None
    show ?thesis
    proof (cases "find_next_open specs pend")
      case N: None
      then show ?thesis using None by (subst inline_loop.simps) (simp add: active_ok_def Let_def)
    next
      case (Some ik)
      obtain i k where ik: "ik = (i, k)" by force
      have f: "find_next_open specs pend = Some (i, k)" using Some ik by simp
      note k = next_open_found [OF f] delims_nth [OF specs next_open_found(1) [OF f]]
      show ?thesis
        using less.hyps [OF drop_found [OF k(2)]] k(3) None f
        by (subst inline_loop.simps) (simp add: active_ok_def)
    qed
  next
    case (Some a)
    then have d: "act_close a \<noteq> []" using less.prems by (simp add: active_ok_def)
    show ?thesis
    proof (cases "find_sub (act_close a) pend")
      case None
      then show ?thesis using Some d by (subst inline_loop.simps) (simp add: active_ok_def Let_def)
    next
      case c: (Some i)
      show ?thesis
        using less.hyps [OF drop_found [OF c d]] Some c
        by (subst inline_loop.simps) (simp add: active_ok_def)
    qed
  qed
qed

lemma inline_loop_out:
  assumes specs: "delims_ok specs"
  shows "active_ok act \<Longrightarrow> inline_loop specs act pend (merge_inline out0 out) =
    map_option (\<lambda>(o', r). (merge_inline out0 o', r)) (inline_loop specs act pend out)"
proof (induction "length pend" arbitrary: act pend out rule: less_induct)
  case less
  show ?case
  proof (cases act)
    case None
    show ?thesis
    proof (cases "find_next_open specs pend")
      case N: None
      then show ?thesis using None
        by (subst inline_loop.simps, subst (2) inline_loop.simps) (simp add: Let_def)
    next
      case (Some ik)
      obtain i k where ik: "ik = (i, k)" by force
      have f: "find_next_open specs pend = Some (i, k)" using Some ik by simp
      note k = next_open_found [OF f] delims_nth [OF specs next_open_found(1) [OF f]]
      show ?thesis
        using less.hyps [OF drop_found [OF k(2)]] k(3) None f
        by (subst inline_loop.simps, subst (2) inline_loop.simps) (simp add: active_ok_def)
    qed
  next
    case (Some a)
    then have d: "act_close a \<noteq> []" using less.prems by (simp add: active_ok_def)
    show ?thesis
    proof (cases "find_sub (act_close a) pend")
      case None
      then show ?thesis using Some d
        by (subst inline_loop.simps, subst (2) inline_loop.simps) (simp add: Let_def)
    next
      case c: (Some i)
      show ?thesis
        using less.hyps [OF drop_found [OF c d]] Some c
        by (subst inline_loop.simps, subst (2) inline_loop.simps) (simp add: active_ok_def)
    qed
  qed
qed

lemma inline_loop_active_append:
  assumes d: "act_close a \<noteq> []" and f: "find_sub (act_close a) (u @ r) = None"
    and r: "length r = longest_suffix_prefix_len (u @ r) (act_close a)"
  shows "inline_loop specs (Some a) (u @ r @ b) out =
    inline_loop specs (Some (a\<lparr>act_content := act_content a @ u\<rparr>)) (r @ b) out"
proof -
  let ?d = "act_close a"
  have find: "find_sub ?d (u @ r @ b) = map_option ((+) (length u)) (find_sub ?d (r @ b))"
    using no_occurrence_before [OF f, of "length r" _ b] r by (intro find_sub_shift) simp
  have keep: "longest_suffix_prefix_len (u @ r @ b) ?d = longest_suffix_prefix_len (r @ b) ?d"
    using r by (intro suffix_prefix_len_append [OF d]) simp
  show ?thesis
  proof (cases "find_sub ?d (r @ b)")
    case None
    then show ?thesis using find suffix_prefix_len(2) [of "r @ b" ?d]
      by (subst inline_loop.simps, subst (2) inline_loop.simps) (simp add: keep Let_def)
  next
    case (Some i)
    then show ?thesis using find
      by (subst inline_loop.simps, subst (2) inline_loop.simps) (simp add: add.assoc)
  qed
qed

lemma inline_loop_idle_append:
  assumes specs: "delims_ok specs" and f: "find_next_open specs (u @ r) = None"
    and r: "length r = max_open_prefix_suffix_len specs (u @ r)"
  shows "inline_loop specs None (u @ r @ b) out =
    inline_loop specs None (r @ b) (out\<lparr>visible_text := visible_text out @ u\<rparr>)"
proof -
  have le: "longest_suffix_prefix_len (u @ r) (spec_open spec) \<le> length r" if "spec \<in> set specs" for spec
    using max_open_ge [OF that, of "u @ r"] r by simp
  have find: "find_next_open specs (u @ r @ b) =
      map_option (\<lambda>(i, k). (length u + i, k)) (find_next_open specs (r @ b))"
  proof (intro find_next_open_shift find_sub_shift)
    fix spec j
    assume s: "spec \<in> set specs" and j: "j < length u"
    have "find_sub (spec_open spec) (u @ r) = None" using f s by (simp add: find_next_open_None_iff)
    from no_occurrence_before [OF this le [OF s], of j b] show "\<not> occurs (spec_open spec) (u @ r @ b) j"
      using j by simp
  qed
  have "longest_suffix_prefix_len (u @ r @ b) (spec_open spec) = longest_suffix_prefix_len (r @ b) (spec_open spec)"
    if "spec \<in> set specs" for spec
    using that specs le by (intro suffix_prefix_len_append) (auto simp: delims_ok_def)
  then have keep: "max_open_prefix_suffix_len specs (u @ r @ b) = max_open_prefix_suffix_len specs (r @ b)"
    unfolding max_open_prefix_suffix_len_def by (intro foldl_cong) auto
  show ?thesis
  proof (cases "find_next_open specs (r @ b)")
    case None
    then show ?thesis using find max_open_le [of specs "r @ b"]
      by (subst inline_loop.simps, subst (2) inline_loop.simps) (simp add: keep Let_def)
  next
    case (Some ik)
    obtain i k where ik: "ik = (i, k)" by force
    show ?thesis using find Some ik
      by (subst inline_loop.simps, subst (2) inline_loop.simps) (simp add: add.assoc)
  qed
qed

lemma inline_loop_append:
  assumes specs: "delims_ok specs" "separable specs"
  shows "active_ok act \<Longrightarrow> inline_loop specs act s out = Some (o1, a1, r1) \<Longrightarrow>
    inline_loop specs act (s @ b) out = inline_loop specs a1 (r1 @ b) o1"
proof (induction "length s" arbitrary: act s out rule: less_induct)
  case less
  show ?case
  proof (cases act)
    case None
    show ?thesis
    proof (cases "find_next_open specs s")
      case N: None
      define cut where "cut = length s - max_open_prefix_suffix_len specs s"
      have r: "o1 = out\<lparr>visible_text := visible_text out @ take cut s\<rparr>" "a1 = None" "r1 = drop cut s"
        using less.prems(2) None N by (auto simp: inline_loop.simps [of _ _ s] Let_def cut_def)
      have "length (drop cut s) = max_open_prefix_suffix_len specs s"
        using max_open_le [of specs s] by (simp add: cut_def)
      then show ?thesis
        using inline_loop_idle_append [OF specs(1), of "take cut s" "drop cut s" b out] N None r
        by (simp flip: append.assoc)
    next
      case (Some ik)
      obtain i k where ik: "ik = (i, k)" by force
      have f: "find_next_open specs s = Some (i, k)" using Some ik by simp
      note k = next_open_found [OF f] delims_nth [OF specs(1) next_open_found(1) [OF f]]
      have "i + length (spec_open (specs ! k)) \<le> length s" using k(2) by (simp add: find_sub_Some_iff occurs_def)
      then show ?thesis
        using less.hyps [OF drop_found [OF k(2)]] k(3) None f find_next_open_append [OF specs(2) f, of b] less.prems(2)
        by (subst inline_loop.simps, subst (asm) (3) inline_loop.simps) (simp add: active_ok_def)
    qed
  next
    case (Some a)
    then have d: "act_close a \<noteq> []" using less.prems by (simp add: active_ok_def)
    show ?thesis
    proof (cases "find_sub (act_close a) s")
      case None
      define cut where "cut = length s - longest_suffix_prefix_len s (act_close a)"
      have r: "o1 = out" "a1 = Some (a\<lparr>act_content := act_content a @ take cut s\<rparr>)" "r1 = drop cut s"
        using less.prems(2) None Some by (auto simp: inline_loop.simps [of _ _ s] Let_def cut_def)
      have "length (drop cut s) = longest_suffix_prefix_len s (act_close a)"
        using suffix_prefix_len(2) [of s "act_close a"] by (simp add: cut_def)
      then show ?thesis
        using inline_loop_active_append [OF d, of "take cut s" "drop cut s" specs b out] None Some r
        by (simp flip: append.assoc)
    next
      case c: (Some i)
      have "i + length (act_close a) \<le> length s" using c by (simp add: find_sub_Some_iff occurs_def)
      then show ?thesis
        using less.hyps [OF drop_found [OF c d]] Some c find_sub_append [OF c, of b] less.prems(2)
        by (subst inline_loop.simps, subst (asm) (3) inline_loop.simps) (simp add: active_ok_def)
    qed
  qed
qed

section \<open>The parser implements the trait\<close>

text \<open>
  Between two pushes the parser has settled: nothing more can be said about the pending text
  until more arrives.
\<close>

definition inline_inv :: "'t inline_parser \<Rightarrow> bool" where
  "inline_inv p \<longleftrightarrow>
     delims_ok (tag_specs p) \<and> separable (tag_specs p) \<and> active_ok (active p) \<and>
     inline_loop (tag_specs p) (active p) (pending p) chunk_default = Some (chunk_default, active p, pending p)"

lemma merge_inline_cancel: "merge_inline c d = c \<Longrightarrow> d = chunk_default"
  by (cases c; cases d) (simp add: merge_inline_def chunk_merge_def chunk_default_def)

lemma inline_push_str_total:
  assumes "inline_inv p"
  obtains out p' where "inline_push_str c p = Some (out, p')" "inline_inv p'"
    "tag_specs p' = tag_specs p"
    "inline_loop (tag_specs p) (active p) (pending p @ c) chunk_default = Some (out, active p', pending p')"
proof -
  have inv: "delims_ok (tag_specs p)" "separable (tag_specs p)" "active_ok (active p)"
    using assms by (auto simp: inline_inv_def)
  obtain out act pend where loop: "inline_loop (tag_specs p) (active p) (pending p @ c) chunk_default = Some (out, act, pend)"
    and act: "active_ok act"
    using inline_loop_total [OF inv(1,3)] by blast
  have "Some (out, act, pend) = inline_loop (tag_specs p) act pend (merge_inline out chunk_default)"
    using inline_loop_append [OF inv loop, of "[]"] loop by simp
  also have "\<dots> = map_option (\<lambda>(o', r). (merge_inline out o', r)) (inline_loop (tag_specs p) act pend chunk_default)"
    by (rule inline_loop_out [OF inv(1) act])
  finally have "inline_loop (tag_specs p) act pend chunk_default = Some (chunk_default, act, pend)"
    using merge_inline_cancel [of out, OF sym] by (cases "inline_loop (tag_specs p) act pend chunk_default") auto
  then have "inline_inv (p\<lparr>active := act, pending := pend\<rparr>)" using inv act by (simp add: inline_inv_def)
  then show thesis using that [of out "p\<lparr>active := act, pending := pend\<rparr>"] loop by (simp add: inline_push_str_def)
qed

lemma inline_push_str_append:
  assumes inv: "inline_inv p" and a: "inline_push_str a p = Some (o1, p1)" and b: "inline_push_str b p1 = Some (o2, p2)"
  shows "inline_push_str (a @ b) p = Some (merge_inline o1 o2, p2)"
proof -
  have p: "delims_ok (tag_specs p)" "separable (tag_specs p)" "active_ok (active p)"
    using inv by (auto simp: inline_inv_def)
  from inv obtain out p' where pushed: "inline_push_str a p = Some (out, p')" "inline_inv p'" "tag_specs p' = tag_specs p"
    "inline_loop (tag_specs p) (active p) (pending p @ a) chunk_default = Some (out, active p', pending p')"
    by (rule inline_push_str_total)
  have e: "out = o1" "p' = p1" using pushed(1) a by simp_all
  have "inline_loop (tag_specs p) (active p) (pending p @ a @ b) chunk_default =
      inline_loop (tag_specs p) (active p1) (pending p1 @ b) (merge_inline o1 chunk_default)"
    using inline_loop_append [OF p pushed(4), of b] e by simp
  also have "\<dots> = map_option (\<lambda>(o', r). (merge_inline o1 o', r))
      (inline_loop (tag_specs p) (active p1) (pending p1 @ b) chunk_default)"
    using pushed(2) e by (intro inline_loop_out [OF p(1)]) (simp add: inline_inv_def)
  finally have loop: "inline_loop (tag_specs p) (active p) (pending p @ a @ b) chunk_default = \<dots>" .
  have "p1 = p\<lparr>active := active p1, pending := pending p1\<rparr>"
    using a by (auto simp: inline_push_str_def split: option.splits)
  then show ?thesis using b pushed(3) e loop
    by (cases p1; cases p) (auto simp: inline_push_str_def split: option.splits)
qed

interpretation inline: stream_text_parser inline_inv inline_push_str merge_inline chunk_default
proof
  show "\<exists>out p'. inline_push_str c p = Some (out, p') \<and> inline_inv p'" if "inline_inv p"
    for c and p :: "'t inline_parser"
    using that by (metis inline_push_str_total)
  show "inline_push_str [] p = Some (chunk_default, p)" if "inline_inv p" for p :: "'t inline_parser"
    using that by (simp add: inline_inv_def inline_push_str_def)
qed (simp_all add: inline_push_str_append)

lemma inline_new_inv:
  assumes "inline_new specs = Some p" "separable specs"
  shows "inline_inv p"
proof -
  have p: "delims_ok specs" "p = \<lparr>tag_specs = specs, pending = [], active = None\<rparr>"
    using assms(1) by (auto simp: inline_new_def delims_ok_def split: if_splits)
  have "find_next_open specs [] = None"
    using p(1) by (auto simp: find_next_open_None_iff find_sub_None_iff occurs_def delims_ok_def)
  then have "inline_loop specs None [] chunk_default = Some (chunk_default, None, [])"
    by (subst inline_loop.simps) (simp add: Let_def)
  then show ?thesis using p assms(2) by (simp add: inline_inv_def active_ok_def)
qed

section \<open>Marked-up text\<close>

text \<open>Text with hidden passages, and what a reader sees of it.\<close>

fun mark_up :: "rstr \<Rightarrow> rstr \<Rightarrow> (rstr \<times> rstr) list \<Rightarrow> rstr \<Rightarrow> rstr" where
  "mark_up opn cls [] final = final"
| "mark_up opn cls ((plain, hidden) # ps) final = plain @ opn @ hidden @ cls @ mark_up opn cls ps final"

text \<open>A passage is free of a delimiter when followed by it the first occurrence is that one.\<close>

definition free_of :: "rstr \<Rightarrow> rstr \<Rightarrow> bool" where
  "free_of d s \<longleftrightarrow> find_sub d (s @ butlast d) = None"

lemma free_of_found:
  assumes "free_of d s" "d \<noteq> []"
  shows "find_sub d (s @ d @ t) = Some (length s)"
  unfolding find_sub_Some_iff
proof (intro conjI allI impI)
  fix j
  assume j: "j < length s"
  have split: "s @ d @ t = (s @ butlast d) @ (last d # t)"
    using append_butlast_last_id [OF assms(2)] by (metis append.assoc append_Cons append_Nil)
  have "0 < length d" using assms(2) by simp
  then have "j + length d \<le> length (s @ butlast d)" using j by simp
  then have "occurs d (s @ d @ t) j \<longleftrightarrow> occurs d (s @ butlast d) j"
    unfolding split by (rule occurs_append)
  then show "\<not> occurs d (s @ d @ t) j" using assms(1) by (simp add: free_of_def find_sub_None_iff)
qed (simp add: occurs_def)

definition inline_end :: "'t inline_tag_spec list \<Rightarrow> 't active_tag option \<Rightarrow> rstr \<Rightarrow>
    't extracted_inline_tag stream_text_chunk" where
  "inline_end specs act pend = fst (inline_finish \<lparr>tag_specs = specs, pending = pend, active = act\<rparr>)"

lemma find_next_open_single: "find_next_open [spec] s = map_option (\<lambda>i. (i, 0)) (find_sub (spec_open spec) s)"
  by (cases "find_sub (spec_open spec) s")
    (simp_all add: find_next_open_Some_iff find_next_open_None_iff first_open_def)

lemma inline_loop_mark_up:
  assumes d: "spec_open spec \<noteq> []" "spec_close spec \<noteq> []"
  shows "\<forall>(plain, hidden) \<in> set ps. free_of (spec_open spec) plain \<and> free_of (spec_close spec) hidden \<Longrightarrow>
    find_sub (spec_open spec) final = None \<Longrightarrow>
    \<exists>out' pend. inline_loop [spec] None (mark_up (spec_open spec) (spec_close spec) ps final) out = Some (out', None, pend) \<and>
      merge_inline out' (inline_end [spec] None pend) =
      merge_inline out \<lparr>visible_text = concat (map fst ps) @ final,
        extracted = map (\<lambda>p. \<lparr>ext_tag = spec_tag spec, ext_content = snd p\<rparr>) ps\<rparr>"
proof (induction ps arbitrary: out)
  case Nil
  then show ?case
    by (subst inline_loop.simps)
      (simp add: find_next_open_single Let_def merge_inline_def chunk_merge_def inline_end_def inline_finish_def)
next
  case (Cons ph ps)
  obtain plain hidden where ph: "ph = (plain, hidden)" by force
  let ?rest = "mark_up (spec_open spec) (spec_close spec) ps final"
  have f: "free_of (spec_open spec) plain" "free_of (spec_close spec) hidden" using Cons.prems(1) ph by auto
  define out1 where "out1 = out\<lparr>visible_text := visible_text out @ plain\<rparr>"
  define out2 where "out2 = out1\<lparr>extracted := extracted out1 @ [\<lparr>ext_tag = spec_tag spec, ext_content = hidden\<rparr>]\<rparr>"
  have "inline_loop [spec] None (mark_up (spec_open spec) (spec_close spec) (ph # ps) final) out =
      inline_loop [spec] (Some \<lparr>act_tag = spec_tag spec, act_close = spec_close spec, act_content = []\<rparr>)
        (hidden @ spec_close spec @ ?rest) out1"
    using free_of_found [OF f(1) d(1)] ph
    by (subst inline_loop.simps) (simp add: find_next_open_single out1_def)
  also have "\<dots> = inline_loop [spec] None ?rest out2"
    using free_of_found [OF f(2) d(2)] by (subst inline_loop.simps) (simp add: out2_def)
  finally have step: "inline_loop [spec] None (mark_up (spec_open spec) (spec_close spec) (ph # ps) final) out = \<dots>" .
  show ?case
    unfolding step using Cons.IH [of out2] Cons.prems ph
    by (auto simp: merge_inline_def chunk_merge_def out2_def out1_def)
qed

end
