(* ===== verification/Tagged_Lines.thy ===== *)
theory Tagged_Lines
  imports Stream_Text
begin

text \<open>
  \<^verbatim>\<open>utils/stream-parser/src/tagged_line_parser.rs\<close>: splitting streamed text into normal text and the
  blocks between lines that consist of a tag. The parser decides as early as it can that a line
  is not a tag; \<open>tagged_segments\<close> is the reference that looks at whole lines of the whole text.
\<close>

section \<open>The parser\<close>

record 't tag_spec =
  tag_open :: rstr
  tag_close :: rstr
  tag_of :: 't

datatype 't tagged_line_segment =
    Normal rstr
  | TagStart 't
  | TagDelta 't rstr
  | TagEnd 't

record 't tagged_line_parser =
  line_specs :: "'t tag_spec list"
  active_tag :: "'t option"
  detect_tag :: bool
  line_buffer :: rstr

definition tagged_new :: "'t tag_spec list \<Rightarrow> 't tagged_line_parser" where
  "tagged_new specs = \<lparr>line_specs = specs, active_tag = None, detect_tag = True, line_buffer = []\<rparr>"

fun push_segment :: "'t tagged_line_segment list \<Rightarrow> 't tagged_line_segment \<Rightarrow> 't tagged_line_segment list" where
  "push_segment segments (Normal delta) =
     (if delta = [] then segments
      else case last_opt segments of
             Some (Normal existing) \<Rightarrow> butlast segments @ [Normal (existing @ delta)]
           | _ \<Rightarrow> segments @ [Normal delta])"
| "push_segment segments (TagDelta tag delta) =
     (if delta = [] then segments
      else case last_opt segments of
             Some (TagDelta existing_tag existing) \<Rightarrow>
               (if existing_tag = tag then butlast segments @ [TagDelta tag (existing @ delta)]
                else segments @ [TagDelta tag delta])
           | _ \<Rightarrow> segments @ [TagDelta tag delta])"
| "push_segment segments (TagStart tag) = segments @ [TagStart tag]"
| "push_segment segments (TagEnd tag) = segments @ [TagEnd tag]"

definition push_text ::
    "'t option \<Rightarrow> rstr \<Rightarrow> 't tagged_line_segment list \<Rightarrow> 't tagged_line_segment list" where
  "push_text act s segments =
     (case act of
        Some tag \<Rightarrow> push_segment segments (TagDelta tag s)
      | None \<Rightarrow> push_segment segments (Normal s))"

definition is_tag_prefix :: "'t tag_spec list \<Rightarrow> rstr \<Rightarrow> bool" where
  "is_tag_prefix specs slug =
     list_ex (\<lambda>spec. starts_with (trim_end slug) (tag_open spec) \<or> starts_with (trim_end slug) (tag_close spec)) specs"

definition match_open :: "'t tag_spec list \<Rightarrow> rstr \<Rightarrow> 't option" where
  "match_open specs slug = map_option tag_of (find (\<lambda>spec. tag_open spec = slug) specs)"

definition match_close :: "'t tag_spec list \<Rightarrow> rstr \<Rightarrow> 't option" where
  "match_close specs slug = map_option tag_of (find (\<lambda>spec. tag_close spec = slug) specs)"

definition line_slug :: "rstr \<Rightarrow> rstr" where
  "line_slug line =
     trim_end (trim_start (case strip_suffix [newline] line of Some l \<Rightarrow> l | None \<Rightarrow> line))"

definition finish_line ::
    "'t tagged_line_parser \<Rightarrow> 't tagged_line_segment list \<Rightarrow> 't tagged_line_parser \<times> 't tagged_line_segment list" where
  "finish_line p segments =
     (let line = line_buffer p; slug = line_slug line; p = p\<lparr>line_buffer := []\<rparr>
      in if match_open (line_specs p) slug \<noteq> None \<and> active_tag p = None then
           (p\<lparr>active_tag := match_open (line_specs p) slug, detect_tag := True\<rparr>,
            push_segment segments (TagStart (the (match_open (line_specs p) slug))))
         else if match_close (line_specs p) slug \<noteq> None \<and> active_tag p = match_close (line_specs p) slug then
           (p\<lparr>active_tag := None, detect_tag := True\<rparr>,
            push_segment segments (TagEnd (the (match_close (line_specs p) slug))))
         else (p\<lparr>detect_tag := True\<rparr>, push_text (active_tag p) line segments))"

fun parse_loop ::
    "'t tagged_line_parser \<Rightarrow> rstr \<Rightarrow> 't tagged_line_segment list \<Rightarrow> rstr \<Rightarrow>
     't tagged_line_parser \<times> 't tagged_line_segment list" where
  "parse_loop p run segments [] =
     (p, if run \<noteq> [] then push_text (active_tag p) run segments else segments)"
| "parse_loop p run segments (ch # rest) =
     (if detect_tag p then
        (let segments = (if run \<noteq> [] then push_text (active_tag p) run segments else segments);
             p = p\<lparr>line_buffer := line_buffer p @ [ch]\<rparr>
         in if ch = newline then
              (case finish_line p segments of (p, segments) \<Rightarrow> parse_loop p [] segments rest)
            else
              (let slug = trim_start (line_buffer p)
               in if slug = [] \<or> is_tag_prefix (line_specs p) slug then parse_loop p [] segments rest
                  else parse_loop (p\<lparr>line_buffer := [], detect_tag := False\<rparr>) []
                         (push_text (active_tag p) (line_buffer p) segments) rest))
      else if ch = newline then
        parse_loop (p\<lparr>detect_tag := True\<rparr>) [] (push_text (active_tag p) (run @ [ch]) segments) rest
      else parse_loop p (run @ [ch]) segments rest)"

definition parse_tagged ::
    "rstr \<Rightarrow> 't tagged_line_parser \<Rightarrow> 't tagged_line_segment list \<times> 't tagged_line_parser" where
  "parse_tagged delta p = (case parse_loop p [] [] delta of (p', segments) \<Rightarrow> (segments, p'))"

definition finish_tagged ::
    "'t tagged_line_parser \<Rightarrow> 't tagged_line_segment list \<times> 't tagged_line_parser" where
  "finish_tagged p =
     (let (p, segments) =
        (if line_buffer p \<noteq> [] then
           (let buffered = line_buffer p; slug = line_slug buffered; p = p\<lparr>line_buffer := []\<rparr>
            in if match_open (line_specs p) slug \<noteq> None \<and> active_tag p = None then
                 (p\<lparr>active_tag := match_open (line_specs p) slug\<rparr>,
                  push_segment [] (TagStart (the (match_open (line_specs p) slug))))
               else if match_close (line_specs p) slug \<noteq> None \<and> active_tag p = match_close (line_specs p) slug then
                 (p\<lparr>active_tag := None\<rparr>,
                  push_segment [] (TagEnd (the (match_close (line_specs p) slug))))
               else (p, push_text (active_tag p) buffered []))
         else (p, []));
          segments = (case active_tag p of Some tag \<Rightarrow> push_segment segments (TagEnd tag) | None \<Rightarrow> segments)
      in (segments, p\<lparr>active_tag := None, detect_tag := True\<rparr>))"

section \<open>Segments grow at their end\<close>

abbreviation append_segments ::
    "'t tagged_line_segment list \<Rightarrow> 't tagged_line_segment list \<Rightarrow> 't tagged_line_segment list" where
  "append_segments \<equiv> foldl push_segment"

lemma push_text_Nil [simp]: "push_text act [] segments = segments"
  by (simp add: push_text_def split: option.splits)

lemma push_text_push_text [simp]: "push_text act t (push_text act s segments) = push_text act (s @ t) segments"
  by (cases segments rule: rev_cases)
    (auto simp: push_text_def last_opt_def butlast_append split: option.splits tagged_line_segment.splits)

lemma push_segment_grows: "push_segment (append_segments s0 segs) x = append_segments s0 (push_segment segs x)"
proof (cases segs rule: rev_cases)
  case Nil
  then show ?thesis by (cases x) auto
next
  case (snoc ys y)
  then show ?thesis
    by (cases x; cases y)
      (auto simp: last_opt_def butlast_append split: option.splits tagged_line_segment.splits)
qed

declare push_segment.simps [simp del]

lemma append_segments_assoc:
  "append_segments (append_segments a b) c = append_segments a (append_segments b c)"
  by (induction c rule: rev_induct) (simp_all add: push_segment_grows)

lemma push_text_grows: "push_text act t (append_segments s0 segs) = append_segments s0 (push_text act t segs)"
  by (simp add: push_text_def push_segment_grows split: option.splits)

lemma finish_line_grows:
  "finish_line p (append_segments s0 segs) = (case finish_line p segs of (p', segs') \<Rightarrow> (p', append_segments s0 segs'))"
  unfolding finish_line_def Let_def
  by (simp add: push_text_grows push_segment_grows)

text \<open>Pushing an empty run changes nothing, so the tests for one can go.\<close>

lemma flush_run: "(if run \<noteq> [] then push_text act run segs else segs) = push_text act run segs"
  by simp

lemmas parse_loop_eqs = parse_loop.simps [unfolded flush_run Let_def]

lemma parse_loop_grows:
  "parse_loop p run (append_segments s0 segs) delta =
   (case parse_loop p run segs delta of (p', segs') \<Rightarrow> (p', append_segments s0 segs'))"
proof (induction delta arbitrary: p run segs)
  case Nil
  show ?case unfolding parse_loop_eqs by (simp add: push_text_grows)
next
  case (Cons ch delta)
  show ?case unfolding parse_loop_eqs by (simp add: push_text_grows finish_line_grows Cons.IH split: prod.splits)
qed

lemma parse_loop_run:
  "parse_loop p run segs delta = parse_loop p [] (push_text (active_tag p) run segs) delta"
proof (induction delta arbitrary: p run segs)
  case Nil
  show ?case unfolding parse_loop_eqs by simp
next
  case (Cons ch delta)
  show ?case
    unfolding parse_loop_eqs
    using Cons.IH [of p "run @ [ch]" segs] Cons.IH [of p "[ch]" "push_text (active_tag p) run segs"] by simp
qed

lemma parse_loop_append:
  "parse_loop p run segs (a @ b) = (case parse_loop p run segs a of (p', segs') \<Rightarrow> parse_loop p' [] segs' b)"
proof (induction a arbitrary: p run segs)
  case Nil
  show ?case unfolding parse_loop_eqs append_Nil using parse_loop_run by simp
next
  case (Cons ch a)
  show ?case unfolding parse_loop_eqs append_Cons by (simp add: Cons.IH split: prod.splits)
qed

declare parse_loop.simps [simp del]

definition tagged_push ::
    "rstr \<Rightarrow> 't tagged_line_parser \<Rightarrow> ('t tagged_line_segment list \<times> 't tagged_line_parser) option" where
  "tagged_push delta p = Some (parse_tagged delta p)"

interpretation tagged: stream_text_parser "\<lambda>_. True" tagged_push append_segments "[]"
proof
  fix p p1 p2 p' :: "'t tagged_line_parser" and a b c o1 o2 out
  show "\<exists>out p'. tagged_push c p = Some (out, p') \<and> True" by (simp add: tagged_push_def)
  show "tagged_push [] p = Some ([], p)" by (simp add: tagged_push_def parse_tagged_def parse_loop_eqs)
  show "tagged_push (a @ b) p = Some (append_segments o1 o2, p2)"
    if "tagged_push a p = Some (o1, p1)" "tagged_push b p1 = Some (o2, p2)"
    using that parse_loop_grows [of p1 "[]" o1 "[]" b]
    by (auto simp: tagged_push_def parse_tagged_def parse_loop_append split: prod.splits)
  show "append_segments [] out = out" if "tagged_push c p = Some (out, p')"
    using that parse_loop_grows [of p "[]" "[]" "[]" c]
    by (auto simp: tagged_push_def parse_tagged_def split: prod.splits)
qed simp

section \<open>The reference\<close>

text \<open>Whole lines, each with its line end; the last one may have none.\<close>

fun whole_lines :: "rstr \<Rightarrow> rstr list" where
  "whole_lines [] = []"
| "whole_lines (c # s) =
     (if c = newline then [c] # whole_lines s
      else case whole_lines s of [] \<Rightarrow> [[c]] | l # ls \<Rightarrow> (c # l) # ls)"

definition classify_line ::
    "'t tag_spec list \<Rightarrow> rstr \<Rightarrow> 't option \<times> 't tagged_line_segment list \<Rightarrow> 't option \<times> 't tagged_line_segment list" where
  "classify_line specs line s =
     (case s of (act, segments) \<Rightarrow>
        (case (act, match_open specs (line_slug line)) of
           (None, Some tag) \<Rightarrow> (Some tag, push_segment segments (TagStart tag))
         | _ \<Rightarrow>
             if act \<noteq> None \<and> match_close specs (line_slug line) = act
             then (None, push_segment segments (TagEnd (the act)))
             else (act, push_text act line segments)))"

definition tagged_segments :: "'t tag_spec list \<Rightarrow> rstr \<Rightarrow> 't tagged_line_segment list" where
  "tagged_segments specs s =
     (case fold (classify_line specs) (whole_lines s) (None, []) of
        (Some tag, segments) \<Rightarrow> push_segment segments (TagEnd tag)
      | (None, segments) \<Rightarrow> segments)"

lemma finish_line_classify:
  "finish_line p segs =
   (case classify_line (line_specs p) (line_buffer p) (active_tag p, segs) of
      (act, segs') \<Rightarrow> (p\<lparr>line_buffer := [], active_tag := act, detect_tag := True\<rparr>, segs'))"
  by (cases p) (auto simp: finish_line_def classify_line_def Let_def split: option.splits)

lemma finish_tagged_classify:
  "finish_tagged p =
   (case (if line_buffer p \<noteq> [] then classify_line (line_specs p) (line_buffer p) (active_tag p, []) else (active_tag p, [])) of
      (act, segs) \<Rightarrow>
        (case act of Some tag \<Rightarrow> push_segment segs (TagEnd tag) | None \<Rightarrow> segs,
         p\<lparr>line_buffer := [], active_tag := None, detect_tag := True\<rparr>))"
  by (cases p) (auto simp: finish_tagged_def classify_line_def Let_def split: option.splits)

lemma trim_end_append_ws: "list_all is_whitespace w \<Longrightarrow> trim_end (x @ w) = trim_end x"
  by (induction w rule: rev_induct) (simp_all add: trim_end_def)

lemma trim_end_append: "\<exists>r. trim_end (x @ y) = trim_end x @ r"
proof (cases "trim_end y = []")
  case True
  then have "list_all is_whitespace y" using trim_end_prefix [of y] by auto
  then show ?thesis by (simp add: trim_end_append_ws)
next
  case False
  obtain w where w: "y = trim_end y @ w" "list_all is_whitespace w" using trim_end_prefix by blast
  have "trim_end ((x @ trim_end y) @ w) = trim_end (x @ trim_end y)" by (rule trim_end_append_ws [OF w(2)])
  also have "\<dots> = x @ trim_end y" using False by (simp add: trim_end_append_solid)
  finally have e: "trim_end (x @ y) = x @ trim_end y" using w(1) by simp
  obtain w' where "x = trim_end x @ w'" using trim_end_prefix by blast
  then show ?thesis using e by (metis append.assoc)
qed

lemma trim_start_append: "trim_start x \<noteq> [] \<Longrightarrow> trim_start (x @ y) = trim_start x @ y"
  by (induction x) (auto simp: trim_start_def)

lemma line_slug_newline: "line_slug (l @ [newline]) = trim_end (trim_start l)"
  by (simp add: line_slug_def)

text \<open>A line that has been given up as a tag is none.\<close>

lemma not_a_tag:
  assumes "trim_start b \<noteq> []" "\<not> is_tag_prefix specs (trim_start b)"
  shows "match_open specs (trim_end (trim_start (b @ l))) = None"
    and "match_close specs (trim_end (trim_start (b @ l))) = None"
proof -
  obtain r where r: "trim_end (trim_start (b @ l)) = trim_end (trim_start b) @ r"
    using trim_end_append [of "trim_start b" l] trim_start_append [OF assms(1), of l] by auto
  have "tag_open spec \<noteq> trim_end (trim_start b) @ r" "tag_close spec \<noteq> trim_end (trim_start b) @ r"
    if "spec \<in> set specs" for spec
    using assms(2) that by (auto simp: is_tag_prefix_def list_ex_iff starts_with_iff)
  then show "match_open specs (trim_end (trim_start (b @ l))) = None"
    "match_close specs (trim_end (trim_start (b @ l))) = None"
    unfolding r match_open_def match_close_def by (auto simp: find_None_iff)
qed

lemma classify_text:
  "match_open specs (line_slug line) = None \<Longrightarrow> match_close specs (line_slug line) = None \<Longrightarrow>
   classify_line specs line (act, segs) = (act, push_text act line segs)"
  by (auto simp: classify_line_def split: option.splits)

lemma classify_grows:
  "classify_line specs line (act, append_segments s0 segs) =
   (case classify_line specs line (act, segs) of (act', segs') \<Rightarrow> (act', append_segments s0 segs'))"
  by (auto simp: classify_line_def push_text_grows push_segment_grows split: option.splits)

lemma line_slug_open:
  assumes "newline \<notin> set l"
  shows "line_slug l = trim_end (trim_start l)"
proof (cases "strip_suffix [newline] l")
  case (Some r)
  then have "l = r @ [newline]" by (simp only: strip_suffix_Some_iff)
  then show ?thesis using assms by simp
qed (simp add: line_slug_def)

text \<open>The three ways a line is read: already given up, still a candidate, cut off by the end.\<close>

lemma given_up_line:
  "\<not> detect_tag p \<Longrightarrow> newline \<notin> set l \<Longrightarrow>
   parse_loop p run segs (l @ newline # rest) =
   parse_loop (p\<lparr>detect_tag := True\<rparr>) [] (push_text (active_tag p) (run @ l @ [newline]) segs) rest"
  by (induction l arbitrary: run) (simp_all add: parse_loop_eqs)

lemma given_up_end:
  "\<not> detect_tag p \<Longrightarrow> newline \<notin> set l \<Longrightarrow>
   parse_loop p run segs l = (p, push_text (active_tag p) (run @ l) segs)"
  by (induction l arbitrary: run) (simp_all add: parse_loop_eqs)

lemma candidate_line:
  "detect_tag p \<Longrightarrow> newline \<notin> set l \<Longrightarrow>
   parse_loop p [] segs (l @ newline # rest) =
   (case classify_line (line_specs p) (line_buffer p @ l @ [newline]) (active_tag p, segs) of
      (act, segs') \<Rightarrow> parse_loop (p\<lparr>line_buffer := [], active_tag := act\<rparr>) [] segs' rest)"
proof (induction l arbitrary: p)
  case Nil
  then show ?case
    by (cases p) (simp add: parse_loop_eqs finish_line_classify split: prod.splits)
next
  case (Cons ch l)
  let ?b = "line_buffer p @ [ch]"
  have ch: "ch \<noteq> newline" "newline \<notin> set l" using Cons.prems(2) by auto
  show ?case
  proof (cases "trim_start ?b = [] \<or> is_tag_prefix (line_specs p) (trim_start ?b)")
    case True
    then show ?thesis using Cons.prems ch Cons.IH [of "p\<lparr>line_buffer := ?b\<rparr>"] by (simp add: parse_loop_eqs)
  next
    case False
    note plain = not_a_tag [of ?b "line_specs p" l]
    have "classify_line (line_specs p) (line_buffer p @ (ch # l) @ [newline]) (active_tag p, segs) =
        (active_tag p, push_text (active_tag p) (line_buffer p @ (ch # l) @ [newline]) segs)"
      using plain False line_slug_newline [of "?b @ l"] by (intro classify_text) simp_all
    then show ?thesis
      using False Cons.prems(1) ch given_up_line [of "p\<lparr>line_buffer := [], detect_tag := False\<rparr>" l "[]"]
      by (cases p) (simp add: parse_loop_eqs)
  qed
qed

definition finished :: "'t tagged_line_parser \<times> 't tagged_line_segment list \<Rightarrow> 't tagged_line_segment list" where
  "finished r = (case r of (p, segs) \<Rightarrow> append_segments segs (fst (finish_tagged p)))"

definition close_block :: "'t option \<times> 't tagged_line_segment list \<Rightarrow> 't tagged_line_segment list" where
  "close_block s = (case s of (Some tag, segs) \<Rightarrow> push_segment segs (TagEnd tag) | (None, segs) \<Rightarrow> segs)"

lemma append_close_block:
  "append_segments segs (close_block (act, s)) = close_block (act, append_segments segs s)"
  by (simp add: close_block_def push_segment_grows split: option.splits)

lemma finished_eq:
  "finished (p, segs) =
   close_block (if line_buffer p \<noteq> [] then classify_line (line_specs p) (line_buffer p) (active_tag p, segs)
                else (active_tag p, segs))"
  using classify_grows [of "line_specs p" "line_buffer p" "active_tag p" segs "[]"]
  by (auto simp: finished_def finish_tagged_classify append_close_block [of segs, symmetric] close_block_def push_segment_grows push_segment.simps
      split: prod.splits option.splits)

lemma candidate_end:
  "detect_tag p \<Longrightarrow> newline \<notin> set (line_buffer p @ l) \<Longrightarrow>
   finished (parse_loop p [] segs l) =
   close_block (if line_buffer p @ l = [] then (active_tag p, segs)
     else classify_line (line_specs p) (line_buffer p @ l) (active_tag p, segs))"
proof (induction l arbitrary: p)
  case Nil
  then show ?case by (simp add: parse_loop_eqs finished_eq)
next
  case (Cons ch l)
  let ?b = "line_buffer p @ [ch]"
  have ch: "ch \<noteq> newline" "newline \<notin> set l" "newline \<notin> set (line_buffer p)" using Cons.prems(2) by auto
  show ?case
  proof (cases "trim_start ?b = [] \<or> is_tag_prefix (line_specs p) (trim_start ?b)")
    case True
    then show ?thesis using Cons.prems ch Cons.IH [of "p\<lparr>line_buffer := ?b\<rparr>"] by (simp add: parse_loop_eqs)
  next
    case False
    note plain = not_a_tag [of ?b "line_specs p" l]
    have "classify_line (line_specs p) (line_buffer p @ ch # l) (active_tag p, segs) =
        (active_tag p, push_text (active_tag p) (line_buffer p @ ch # l) segs)"
      using plain False line_slug_open [of "?b @ l"] ch by (intro classify_text) simp_all
    then show ?thesis
      using False Cons.prems(1) ch given_up_end [of "p\<lparr>line_buffer := [], detect_tag := False\<rparr>" l "[]"]
      by (simp add: parse_loop_eqs finished_eq)
  qed
qed

lemma whole_lines_line: "newline \<notin> set l \<Longrightarrow> whole_lines (l @ newline # rest) = (l @ [newline]) # whole_lines rest"
  by (induction l) auto

lemma whole_lines_end: "newline \<notin> set l \<Longrightarrow> whole_lines l = (if l = [] then [] else [l])"
  by (induction l) auto

lemma parse_loop_reference:
  "detect_tag p \<Longrightarrow> line_buffer p = [] \<Longrightarrow>
   finished (parse_loop p [] segs s) = close_block (fold (classify_line (line_specs p)) (whole_lines s) (active_tag p, segs))"
proof (induction "length s" arbitrary: p segs s rule: less_induct)
  case less
  show ?case
  proof (cases "newline \<in> set s")
    case True
    then obtain l rest where s: "s = l @ newline # rest" "newline \<notin> set l" by (metis split_list_first)
    obtain act segs' where c: "classify_line (line_specs p) (l @ [newline]) (active_tag p, segs) = (act, segs')" by force
    show ?thesis
      using less.hyps [of rest "p\<lparr>line_buffer := [], active_tag := act\<rparr>" segs'] less.prems s c candidate_line [of p l segs rest]
      by (simp add: whole_lines_line)
  next
    case False
    then show ?thesis using candidate_end [of p s segs] less.prems by (simp add: whole_lines_end)
  qed
qed

text \<open>What the parser emits in all, however the text arrives, is what the reference says.\<close>

lemma tagged_reference:
  assumes "collect tagged_push append_segments [] (tagged_new specs) cs = Some (segs, p)"
  shows "append_segments segs (fst (finish_tagged p)) = tagged_segments specs (concat cs)"
proof -
  have "parse_loop (tagged_new specs) [] [] (concat cs) = (p, segs)"
    using assms by (simp add: tagged.collect_pieces tagged_push_def parse_tagged_def split: prod.splits)
  then show ?thesis
    using parse_loop_reference [of "tagged_new specs" "[]" "concat cs"]
    by (simp add: tagged_new_def finished_def tagged_segments_def close_block_def)
qed

end
