(* ===== verification/Assistant_Text.thy ===== *)
theory Assistant_Text
  imports Inline_Tags Tagged_Lines
begin

text \<open>
  \<^verbatim>\<open>utils/stream-parser/src/citation.rs\<close>, \<^verbatim>\<open>proposed_plan.rs\<close> and \<^verbatim>\<open>assistant_text.rs\<close>: the parsers
  for citations and proposed plans, and the parser of assistant text that runs the second on
  what the first leaves visible.
\<close>

section \<open>Citations\<close>

datatype citation_tag = Citation

definition CITATION_OPEN :: rstr where "CITATION_OPEN = lit ''<oai-mem-citation>''"
definition CITATION_CLOSE :: rstr where "CITATION_CLOSE = lit ''</oai-mem-citation>''"

type_synonym citation_stream_parser = "citation_tag inline_parser"

definition citation_new :: "citation_stream_parser option" where
  "citation_new =
     inline_new [\<lparr>spec_tag = Citation, spec_open = CITATION_OPEN, spec_close = CITATION_CLOSE\<rparr>]"

definition citation_chunk :: "citation_tag extracted_inline_tag stream_text_chunk \<Rightarrow> rstr stream_text_chunk" where
  "citation_chunk c = \<lparr>visible_text = visible_text c, extracted = map ext_content (extracted c)\<rparr>"

definition citation_push_str ::
    "rstr \<Rightarrow> citation_stream_parser \<Rightarrow> (rstr stream_text_chunk \<times> citation_stream_parser) option" where
  "citation_push_str chunk p =
     (case inline_push_str chunk p of
        None \<Rightarrow> None
      | Some (c, p') \<Rightarrow> Some (citation_chunk c, p'))"

definition citation_finish ::
    "citation_stream_parser \<Rightarrow> rstr stream_text_chunk \<times> citation_stream_parser" where
  "citation_finish p = (case inline_finish p of (c, p') \<Rightarrow> (citation_chunk c, p'))"

definition strip_citations :: "rstr \<Rightarrow> (rstr \<times> rstr list) option" where
  "strip_citations s =
     (case citation_new of
        None \<Rightarrow> None
      | Some p \<Rightarrow>
          (case citation_push_str s p of
             None \<Rightarrow> None
           | Some (out, p) \<Rightarrow>
               (let rest = fst (citation_finish p)
                in Some (visible_text out @ visible_text rest, extracted out @ extracted rest))))"

section \<open>Proposed plans\<close>

datatype plan_tag = ProposedPlan

datatype proposed_plan_segment =
    PlanNormal rstr
  | ProposedPlanStart
  | ProposedPlanDelta rstr
  | ProposedPlanEnd

definition OPEN_TAG :: rstr where "OPEN_TAG = lit ''<proposed_plan>''"
definition CLOSE_TAG :: rstr where "CLOSE_TAG = lit ''</proposed_plan>''"

type_synonym proposed_plan_parser = "plan_tag tagged_line_parser"

definition plan_specs :: "plan_tag tag_spec list" where
  "plan_specs = [\<lparr>tag_open = OPEN_TAG, tag_close = CLOSE_TAG, tag_of = ProposedPlan\<rparr>]"

definition plan_new :: proposed_plan_parser where
  "plan_new = tagged_new plan_specs"

fun mapped_segment :: "plan_tag tagged_line_segment \<Rightarrow> proposed_plan_segment" where
  "mapped_segment (Normal s) = PlanNormal s"
| "mapped_segment (TagStart ProposedPlan) = ProposedPlanStart"
| "mapped_segment (TagDelta ProposedPlan s) = ProposedPlanDelta s"
| "mapped_segment (TagEnd ProposedPlan) = ProposedPlanEnd"

definition map_segments ::
    "plan_tag tagged_line_segment list \<Rightarrow> proposed_plan_segment stream_text_chunk" where
  "map_segments segments =
     foldl (\<lambda>out segment.
       let mapped = mapped_segment segment;
           out = (case mapped of
                    PlanNormal s \<Rightarrow> out\<lparr>visible_text := visible_text out @ s\<rparr>
                  | _ \<Rightarrow> out)
       in out\<lparr>extracted := extracted out @ [mapped]\<rparr>) chunk_default segments"

definition plan_push_str ::
    "rstr \<Rightarrow> proposed_plan_parser \<Rightarrow> proposed_plan_segment stream_text_chunk \<times> proposed_plan_parser" where
  "plan_push_str chunk p = (case parse_tagged chunk p of (segs, p') \<Rightarrow> (map_segments segs, p'))"

definition plan_finish ::
    "proposed_plan_parser \<Rightarrow> proposed_plan_segment stream_text_chunk \<times> proposed_plan_parser" where
  "plan_finish p = (case finish_tagged p of (segs, p') \<Rightarrow> (map_segments segs, p'))"

definition strip_proposed_plan_blocks :: "rstr \<Rightarrow> rstr" where
  "strip_proposed_plan_blocks s =
     (case plan_push_str s plan_new of
        (out, p) \<Rightarrow> visible_text out @ visible_text (fst (plan_finish p)))"

fun plan_text_step :: "rstr \<times> bool \<Rightarrow> proposed_plan_segment \<Rightarrow> rstr \<times> bool" where
  "plan_text_step (plan_text, saw) ProposedPlanStart = ([], True)"
| "plan_text_step (plan_text, saw) (ProposedPlanDelta delta) = (plan_text @ delta, saw)"
| "plan_text_step (plan_text, saw) ProposedPlanEnd = (plan_text, saw)"
| "plan_text_step (plan_text, saw) (PlanNormal _) = (plan_text, saw)"

definition extract_proposed_plan_text :: "rstr \<Rightarrow> rstr option" where
  "extract_proposed_plan_text s =
     (case plan_push_str s plan_new of
        (out, p) \<Rightarrow>
          (case foldl plan_text_step ([], False) (extracted out @ extracted (fst (plan_finish p))) of
             (plan_text, saw_plan_block) \<Rightarrow> if saw_plan_block then Some plan_text else None))"

section \<open>Assistant text\<close>

record assistant_text_chunk =
  out_visible :: rstr
  out_citations :: "rstr list"
  out_plan_segments :: "proposed_plan_segment list"

definition assistant_chunk_default :: assistant_text_chunk where
  "assistant_chunk_default = \<lparr>out_visible = [], out_citations = [], out_plan_segments = []\<rparr>"

definition assistant_chunk_is_empty :: "assistant_text_chunk \<Rightarrow> bool" where
  "assistant_chunk_is_empty c \<longleftrightarrow> out_visible c = [] \<and> out_citations c = [] \<and> out_plan_segments c = []"

record assistant_text_parser =
  plan_mode :: bool
  citations :: citation_stream_parser
  plan :: proposed_plan_parser

definition assistant_new :: "bool \<Rightarrow> assistant_text_parser option" where
  "assistant_new mode =
     (case citation_new of
        None \<Rightarrow> None
      | Some c \<Rightarrow> Some \<lparr>plan_mode = mode, citations = c, plan = plan_new\<rparr>)"

definition parse_visible_text ::
    "rstr \<Rightarrow> assistant_text_parser \<Rightarrow> assistant_text_chunk \<times> assistant_text_parser" where
  "parse_visible_text visible p =
     (if \<not> plan_mode p then (assistant_chunk_default\<lparr>out_visible := visible\<rparr>, p)
      else case plan_push_str visible (plan p) of
             (c, pl) \<Rightarrow>
               (assistant_chunk_default\<lparr>out_visible := visible_text c, out_plan_segments := extracted c\<rparr>,
                p\<lparr>plan := pl\<rparr>))"

definition assistant_push_str ::
    "rstr \<Rightarrow> assistant_text_parser \<Rightarrow> (assistant_text_chunk \<times> assistant_text_parser) option" where
  "assistant_push_str chunk p =
     (case citation_push_str chunk (citations p) of
        None \<Rightarrow> None
      | Some (c, cp) \<Rightarrow>
          (case parse_visible_text (visible_text c) (p\<lparr>citations := cp\<rparr>) of
             (out, p) \<Rightarrow> Some (out\<lparr>out_citations := extracted c\<rparr>, p)))"

definition assistant_finish ::
    "assistant_text_parser \<Rightarrow> assistant_text_chunk \<times> assistant_text_parser" where
  "assistant_finish p =
     (let (c, cp) = citation_finish (citations p);
          (out, p) = parse_visible_text (visible_text c) (p\<lparr>citations := cp\<rparr>);
          (out, p) =
            (if plan_mode p then
               (case plan_finish (plan p) of
                  (rest, pl) \<Rightarrow>
                    (if stream_chunk_is_empty rest then out
                     else out\<lparr>out_visible := out_visible out @ visible_text rest,
                             out_plan_segments := out_plan_segments out @ extracted rest\<rparr>,
                     p\<lparr>plan := pl\<rparr>))
             else (out, p))
      in (out\<lparr>out_citations := extracted c\<rparr>, p))"

section \<open>The citation parser implements the trait\<close>

definition merge_texts :: "rstr stream_text_chunk \<Rightarrow> rstr stream_text_chunk \<Rightarrow> rstr stream_text_chunk" where
  "merge_texts = chunk_merge (@)"

lemma merge_texts_simps [simp]:
  "merge_texts chunk_default c = c" "merge_texts c chunk_default = c"
  by (simp_all add: merge_texts_def)

lemma citation_chunk_merge: "citation_chunk (merge_inline c d) = merge_texts (citation_chunk c) (citation_chunk d)"
  by (simp add: citation_chunk_def merge_inline_def merge_texts_def chunk_merge_def)

lemma citation_chunk_default [simp]: "citation_chunk chunk_default = chunk_default"
  by (simp add: citation_chunk_def chunk_default_def)

interpretation citation: stream_text_parser inline_inv citation_push_str merge_texts chunk_default
proof
  fix p p1 p2 :: citation_stream_parser and a b c o1 o2
  assume inv: "inline_inv p"
  show "\<exists>out p'. citation_push_str c p = Some (out, p') \<and> inline_inv p'"
    using inline.push_total [OF inv, of c] by (auto simp: citation_push_str_def)
  show "citation_push_str [] p = Some (chunk_default, p)"
    using inline.push_Nil [OF inv] by (simp add: citation_push_str_def)
  show "citation_push_str (a @ b) p = Some (merge_texts o1 o2, p2)"
    if "citation_push_str a p = Some (o1, p1)" "citation_push_str b p1 = Some (o2, p2)"
    using that inline.push_append [OF inv, of a _ p1 b _ p2]
    by (auto simp: citation_push_str_def citation_chunk_merge split: option.splits)
qed simp_all

lemma citation_new_inv:
  obtains p where "citation_new = Some p" "inline_inv p"
    "p = \<lparr>tag_specs = [\<lparr>spec_tag = Citation, spec_open = CITATION_OPEN, spec_close = CITATION_CLOSE\<rparr>],
      pending = [], active = None\<rparr>"
proof -
  let ?specs = "[\<lparr>spec_tag = Citation, spec_open = CITATION_OPEN, spec_close = CITATION_CLOSE\<rparr>]"
  have n: "citation_new = Some \<lparr>tag_specs = ?specs, pending = [], active = None\<rparr>"
    by (simp add: citation_new_def inline_new_def CITATION_OPEN_def CITATION_CLOSE_def)
  have "separable ?specs"
    by (rule separable_single) (simp add: delims_ok_def CITATION_OPEN_def CITATION_CLOSE_def)
  then show thesis using that n inline_new_inv n [unfolded citation_new_def] by blast
qed

text \<open>
  C35: in text marked up with citations, \<^verbatim>\<open>strip_citations\<close> shows exactly the passages
  outside the citations and returns exactly their bodies, in order.
\<close>

theorem strip_citations_round_trip:
  assumes "\<forall>(plain, hidden) \<in> set ps. free_of CITATION_OPEN plain \<and> free_of CITATION_CLOSE hidden"
    and "find_sub CITATION_OPEN final = None"
  shows "strip_citations (mark_up CITATION_OPEN CITATION_CLOSE ps final) =
    Some (concat (map fst ps) @ final, map snd ps)"
proof -
  define spec where "spec = \<lparr>spec_tag = Citation, spec_open = CITATION_OPEN, spec_close = CITATION_CLOSE\<rparr>"
  obtain out pend where l: "inline_loop [spec] None (mark_up CITATION_OPEN CITATION_CLOSE ps final) chunk_default = Some (out, None, pend)"
    and m: "merge_inline out (inline_end [spec] None pend) =
      \<lparr>visible_text = concat (map fst ps) @ final, extracted = map (\<lambda>p. \<lparr>ext_tag = Citation, ext_content = snd p\<rparr>) ps\<rparr>"
    using inline_loop_mark_up [of spec ps final chunk_default] assms
    by (auto simp: spec_def CITATION_OPEN_def CITATION_CLOSE_def)
  have p: "citation_new = Some \<lparr>tag_specs = [spec], pending = [], active = None\<rparr>"
    by (rule citation_new_inv) (simp add: spec_def)
  have "strip_citations (mark_up CITATION_OPEN CITATION_CLOSE ps final) =
      (let c = citation_chunk (merge_inline out (inline_end [spec] None pend)) in Some (visible_text c, extracted c))"
    unfolding strip_citations_def p using l
    by (simp add: citation_push_str_def inline_push_str_def citation_finish_def
        inline_end_def inline_finish_def citation_chunk_merge merge_texts_def chunk_merge_def Let_def)
  also have "\<dots> = Some (concat (map fst ps) @ final, map snd ps)"
    unfolding m by (simp add: citation_chunk_def comp_def)
  finally show ?thesis .
qed

theorem strip_citations_round_trip_witness:
  "strip_citations (mark_up CITATION_OPEN CITATION_CLOSE [(lit ''see '', lit ''doc'')] (lit '' <now>'')) =
     Some (lit ''see '' @ lit '' <now>'', [lit ''doc''])"
proof -
  have "free_of CITATION_OPEN (lit ''see '')" "free_of CITATION_CLOSE (lit ''doc'')"
    "find_sub CITATION_OPEN (lit '' <now>'') = None"
    by (simp_all add: free_of_def find_sub_def CITATION_OPEN_def CITATION_CLOSE_def rust_eval upt_rec)
  then show ?thesis
    using strip_citations_round_trip [of "[(lit ''see '', lit ''doc'')]" "lit '' <now>''"] by simp
qed

section \<open>The plan parser\<close>

definition normal_text :: "'t tagged_line_segment list \<Rightarrow> rstr" where
  "normal_text segs = concat (map (\<lambda>s. case s of Normal t \<Rightarrow> t | _ \<Rightarrow> []) segs)"

lemma normal_text_simps [simp]:
  "normal_text [] = []" "normal_text (a @ b) = normal_text a @ normal_text b"
  "normal_text (Normal t # a) = t @ normal_text a" "normal_text (TagStart g # a) = normal_text a"
  "normal_text (TagDelta g t # a) = normal_text a" "normal_text (TagEnd g # a) = normal_text a"
  by (simp_all add: normal_text_def)

lemma normal_text_push: "normal_text (push_segment segs x) = normal_text segs @ normal_text [x]"
  by (cases segs rule: rev_cases; cases x)
    (auto simp: normal_text_def push_segment.simps last_opt_def split: option.splits tagged_line_segment.splits)

lemma normal_text_append_segments: "normal_text (append_segments a b) = normal_text a @ normal_text b"
  by (induction b rule: rev_induct) (simp_all add: normal_text_push)

lemma map_segments_eq: "map_segments segs = \<lparr>visible_text = normal_text segs, extracted = map mapped_segment segs\<rparr>"
proof (induction segs rule: rev_induct)
  case (snoc x segs)
  have "mapped_segment x = PlanNormal (normal_text [x]) \<and> (\<exists>t. x = Normal t) \<or>
      normal_text [x] = [] \<and> (\<forall>t. mapped_segment x \<noteq> PlanNormal t)"
    by (cases x rule: mapped_segment.cases) auto
  then show ?case using snoc by (auto simp: map_segments_def Let_def split: proposed_plan_segment.splits)
qed (simp add: map_segments_def chunk_default_def)

fun unmapped_segment :: "proposed_plan_segment \<Rightarrow> plan_tag tagged_line_segment" where
  "unmapped_segment (PlanNormal s) = Normal s"
| "unmapped_segment ProposedPlanStart = TagStart ProposedPlan"
| "unmapped_segment (ProposedPlanDelta s) = TagDelta ProposedPlan s"
| "unmapped_segment ProposedPlanEnd = TagEnd ProposedPlan"

lemma unmapped_mapped [simp]: "unmapped_segment (mapped_segment s) = s"
  by (cases s rule: mapped_segment.cases) auto

text \<open>Plan segments are put together as the line parser does, adjoining text is joined.\<close>

definition append_plan_segments ::
    "proposed_plan_segment list \<Rightarrow> proposed_plan_segment list \<Rightarrow> proposed_plan_segment list" where
  "append_plan_segments a b =
     map mapped_segment (append_segments (map unmapped_segment a) (map unmapped_segment b))"

lemma unmapped_mapped_list [simp]: "map unmapped_segment (map mapped_segment segs) = segs"
  by (induction segs) simp_all

lemma map_segments_append:
  "map_segments (append_segments a b) = chunk_merge append_plan_segments (map_segments a) (map_segments b)"
  by (simp add: map_segments_eq chunk_merge_def append_plan_segments_def normal_text_append_segments
      del: map_map)

definition plan_push ::
    "rstr \<Rightarrow> proposed_plan_parser \<Rightarrow> (proposed_plan_segment stream_text_chunk \<times> proposed_plan_parser) option" where
  "plan_push chunk p = Some (plan_push_str chunk p)"

interpretation plan: stream_text_parser "\<lambda>_. True" plan_push "chunk_merge append_plan_segments" chunk_default
proof
  fix p p1 p2 p' :: proposed_plan_parser and a b c o1 o2 out
  show "\<exists>out p'. plan_push c p = Some (out, p') \<and> True" by (simp add: plan_push_def)
  have Nil: "map_segments [] = chunk_default" by (simp add: map_segments_def)
  show "plan_push [] p = Some (chunk_default, p)"
    using tagged.push_Nil [of p] by (simp add: plan_push_def plan_push_str_def tagged_push_def Nil)
  show "plan_push (a @ b) p = Some (chunk_merge append_plan_segments o1 o2, p2)"
    if "plan_push a p = Some (o1, p1)" "plan_push b p1 = Some (o2, p2)"
    using that tagged.push_append [of a p _ p1 b _ p2]
    by (auto simp: plan_push_def plan_push_str_def tagged_push_def map_segments_append split: prod.splits)
  have merged: "append_segments [] segs = segs" if "parse_tagged c p = (segs, p')" for segs
    using tagged.merge_none [of c p segs p'] that by (simp add: tagged_push_def)
  assume "plan_push c p = Some (out, p')"
  then obtain segs where segs: "parse_tagged c p = (segs, p')" "out = map_segments segs"
    by (auto simp: plan_push_def plan_push_str_def split: prod.splits)
  show "chunk_merge append_plan_segments chunk_default out = out"
    using map_segments_append [of "[]" segs] merged [OF segs(1)] segs(2) by (simp add: Nil)
  show "chunk_merge append_plan_segments out chunk_default = out"
    using map_segments_append [of segs "[]"] segs(2) by (simp add: Nil)
qed

lemma plan_collected:
  assumes "collect plan_push (chunk_merge append_plan_segments) chunk_default plan_new cs = Some (out, p)"
  shows "chunk_merge append_plan_segments out (fst (plan_finish p)) = map_segments (tagged_segments plan_specs (concat cs))"
proof -
  have "plan_push (concat cs) plan_new = Some (out, p)" using assms plan.collect_pieces by simp
  then obtain segs where segs: "parse_tagged (concat cs) plan_new = (segs, p)" "out = map_segments segs"
    by (auto simp: plan_push_def plan_push_str_def split: prod.splits)
  have "append_segments segs (fst (finish_tagged p)) = tagged_segments plan_specs (concat cs)"
    using tagged.collect_pieces [of plan_new cs] segs
    by (intro tagged_reference) (simp add: tagged_push_def plan_new_def)
  moreover have "fst (plan_finish p) = map_segments (fst (finish_tagged p))" by (simp add: plan_finish_def split_beta)
  ultimately show ?thesis using segs(2) map_segments_append [of segs "fst (finish_tagged p)"] by simp
qed

text \<open>
  C36: the plan parser recognises exactly the tag lines. However the text is cut into chunks,
  the pushes and the final flush together yield the segments that come from looking at every
  whole line of the text, and the visible text is the normal text of those segments.
\<close>

theorem plan_parser_reference:
  assumes "collect plan_push (chunk_merge append_plan_segments) chunk_default plan_new cs = Some (out, p)"
  shows "chunk_merge append_plan_segments out (fst (plan_finish p)) =
    \<lparr>visible_text = normal_text (tagged_segments plan_specs (concat cs)),
     extracted = map mapped_segment (tagged_segments plan_specs (concat cs))\<rparr>"
  using plan_collected [OF assms] by (simp add: map_segments_eq)

theorem plan_parser_reference_witness:
  "\<exists>out p. collect plan_push (chunk_merge append_plan_segments) chunk_default plan_new
       [lit ''a<prop'', lit ''osed_plan>''] = Some (out, p) \<and>
     chunk_merge append_plan_segments out (fst (plan_finish p)) =
       \<lparr>visible_text = normal_text (tagged_segments plan_specs (lit ''a<proposed_plan>'')),
        extracted = map mapped_segment (tagged_segments plan_specs (lit ''a<proposed_plan>''))\<rparr>"
proof -
  obtain out p where c: "collect plan_push (chunk_merge append_plan_segments) chunk_default plan_new
      [lit ''a<prop'', lit ''osed_plan>''] = Some (out, p)"
    using plan.collect_total by blast
  have "concat [lit ''a<prop'', lit ''osed_plan>''] = lit ''a<proposed_plan>''" by (simp add: lit_def)
  then show ?thesis using plan_parser_reference [OF c] c by metis
qed

section \<open>Extracting a plan\<close>

definition no_tag_line :: "rstr \<Rightarrow> bool" where
  "no_tag_line line \<longleftrightarrow> line_slug line \<noteq> OPEN_TAG \<and> line_slug line \<noteq> CLOSE_TAG"

definition plan_document :: "rstr \<Rightarrow> rstr \<Rightarrow> rstr \<Rightarrow> rstr" where
  "plan_document before body after =
     before @ OPEN_TAG @ [newline] @ body @ CLOSE_TAG @ [newline] @ after"

text \<open>Text that ends with a line end, or is empty.\<close>

definition full_lines :: "rstr \<Rightarrow> bool" where
  "full_lines s \<longleftrightarrow> s = [] \<or> last s = newline"

lemma whole_lines_append: "full_lines a \<Longrightarrow> whole_lines (a @ b) = whole_lines a @ whole_lines b"
proof (induction "length a" arbitrary: a rule: less_induct)
  case less
  show ?case
  proof (cases "newline \<in> set a")
    case True
    then obtain l rest where a: "a = l @ newline # rest" "newline \<notin> set l" by (metis split_list_first)
    then have "full_lines rest" using less.prems by (auto simp: full_lines_def split: if_splits)
    then show ?thesis using less.hyps [of rest] a by (simp add: whole_lines_line)
  next
    case False
    then have "a = []" using less.prems unfolding full_lines_def by (metis last_in_set)
    then show ?thesis by simp
  qed
qed

lemma concat_whole_lines [simp]: "concat (whole_lines s) = s"
  by (induction s rule: whole_lines.induct) (auto split: list.splits)

lemma classify_no_tag:
  "no_tag_line line \<Longrightarrow> classify_line plan_specs line (act, segs) = (act, push_text act line segs)"
  by (rule classify_text) (auto simp: no_tag_line_def match_open_def match_close_def plan_specs_def)

lemma classify_no_tags:
  "list_all no_tag_line ls \<Longrightarrow>
   fold (classify_line plan_specs) ls (act, segs) = (act, push_text act (concat ls) segs)"
  by (induction ls arbitrary: segs) (simp_all add: classify_no_tag)

lemma tag_slugs: "line_slug (OPEN_TAG @ [newline]) = OPEN_TAG" "line_slug (CLOSE_TAG @ [newline]) = CLOSE_TAG"
  "newline \<notin> set OPEN_TAG" "newline \<notin> set CLOSE_TAG" "OPEN_TAG \<noteq> CLOSE_TAG"
  unfolding line_slug_newline
  by (simp_all add: OPEN_TAG_def CLOSE_TAG_def rust_eval newline_def trim_defs is_whitespace_def)

lemma classify_tags:
  "classify_line plan_specs (OPEN_TAG @ [newline]) (None, segs) = (Some ProposedPlan, segs @ [TagStart ProposedPlan])"
  "classify_line plan_specs (CLOSE_TAG @ [newline]) (Some ProposedPlan, segs) = (None, segs @ [TagEnd ProposedPlan])"
  using tag_slugs
  by (auto simp: classify_line_def match_open_def match_close_def plan_specs_def push_segment.simps)

lemma tagged_segments_document:
  assumes "full_lines before" "full_lines body"
    and "list_all no_tag_line (whole_lines before)" "list_all no_tag_line (whole_lines body)" "list_all no_tag_line (whole_lines after)"
  shows "tagged_segments plan_specs (plan_document before body after) =
    push_text None after (push_text (Some ProposedPlan) body (push_text None before [] @ [TagStart ProposedPlan]) @ [TagEnd ProposedPlan])"
proof -
  have "whole_lines (plan_document before body after) =
      whole_lines before @ [OPEN_TAG @ [newline]] @ whole_lines body @ [CLOSE_TAG @ [newline]] @ whole_lines after"
    using whole_lines_append [OF assms(1)] whole_lines_append [OF assms(2)]
      whole_lines_line [OF tag_slugs(3)] whole_lines_line [OF tag_slugs(4)]
    by (simp add: plan_document_def)
  then show ?thesis using assms(3-5) by (simp add: tagged_segments_def classify_no_tags classify_tags)
qed

text \<open>The plan text that a list of segments stands for does not depend on how text is joined.\<close>

definition segments_plan :: "proposed_plan_segment list \<Rightarrow> rstr \<times> bool" where
  "segments_plan = foldl plan_text_step ([], False)"

lemma plan_text_step_joined:
  "foldl plan_text_step r (map mapped_segment (push_segment segs x)) =
   plan_text_step (foldl plan_text_step r (map mapped_segment segs)) (mapped_segment x)"
proof (cases segs rule: rev_cases)
  case Nil
  then show ?thesis
    by (cases r; cases x rule: mapped_segment.cases) (auto simp: push_segment.simps)
next
  case (snoc ys y)
  obtain t b where "foldl plan_text_step r (map mapped_segment ys) = (t, b)" by force
  then show ?thesis using snoc
    by (cases x rule: mapped_segment.cases; cases y rule: mapped_segment.cases)
      (auto simp: push_segment.simps last_opt_def butlast_append)
qed

lemma plan_text_joined:
  "foldl plan_text_step r (map mapped_segment (append_segments a b)) =
   foldl plan_text_step r (map mapped_segment a @ map mapped_segment b)"
  by (induction b rule: rev_induct) (simp_all add: plan_text_step_joined)

lemma extract_reference:
  "extract_proposed_plan_text s =
   (case segments_plan (map mapped_segment (tagged_segments plan_specs s)) of
      (plan_text, saw) \<Rightarrow> if saw then Some plan_text else None)"
proof -
  obtain segs p where segs: "parse_tagged s plan_new = (segs, p)" by force
  have "append_segments segs (fst (finish_tagged p)) = tagged_segments plan_specs s"
    using tagged_reference [of plan_specs "[s]" "append_segments [] segs" p] segs tagged.merge_none [of s plan_new segs p]
    by (simp add: tagged_push_def plan_new_def)
  then show ?thesis
    using plan_text_joined [of "([], False)" segs "fst (finish_tagged p)"] segs
    by (simp add: extract_proposed_plan_text_def plan_push_str_def plan_finish_def map_segments_eq segments_plan_def
        split_beta)
qed

lemma mapped_delta: "mapped_segment (TagDelta tag t) = ProposedPlanDelta t"
  by (cases tag) simp

lemma plan_text_push:
  "foldl plan_text_step r (map mapped_segment (push_text act t segs)) =
   (case act of
      None \<Rightarrow> foldl plan_text_step r (map mapped_segment segs)
    | Some _ \<Rightarrow> (fst (foldl plan_text_step r (map mapped_segment segs)) @ t, snd (foldl plan_text_step r (map mapped_segment segs))))"
  by (cases "foldl plan_text_step r (map mapped_segment segs)")
    (auto simp: push_text_def plan_text_step_joined mapped_delta split: option.splits)

text \<open>
  \<^verbatim>\<open>extract_proposed_plan_text\<close> returns the body of a plan block exactly, and
  \<^verbatim>\<open>strip_proposed_plan_blocks\<close> returns the text around it exactly, when no other line is a tag.
\<close>

theorem extract_plan_round_trip:
  assumes "full_lines before" "full_lines body"
    and "list_all no_tag_line (whole_lines before)" "list_all no_tag_line (whole_lines body)"
      "list_all no_tag_line (whole_lines after)"
  shows "extract_proposed_plan_text (plan_document before body after) = Some body \<and>
    strip_proposed_plan_blocks (plan_document before body after) = before @ after"
proof -
  let ?s = "plan_document before body after"
  note doc = tagged_segments_document [OF assms]
  have "segments_plan (map mapped_segment (tagged_segments plan_specs ?s)) = (body, True)"
    unfolding doc segments_plan_def by (simp add: plan_text_push)
  then have "extract_proposed_plan_text ?s = Some body" by (simp add: extract_reference)
  moreover have "strip_proposed_plan_blocks ?s = normal_text (tagged_segments plan_specs ?s)"
  proof -
    obtain segs p where segs: "parse_tagged ?s plan_new = (segs, p)" by force
    have "append_segments segs (fst (finish_tagged p)) = tagged_segments plan_specs ?s"
      using tagged_reference [of plan_specs "[?s]" "append_segments [] segs" p] segs tagged.merge_none [of ?s plan_new segs p]
      by (simp add: tagged_push_def plan_new_def)
    then show ?thesis
      using normal_text_append_segments [of segs "fst (finish_tagged p)"] segs
      by (simp add: strip_proposed_plan_blocks_def plan_push_str_def plan_finish_def map_segments_eq split_beta)
  qed
  moreover have "normal_text (tagged_segments plan_specs ?s) = before @ after"
    unfolding doc by (simp add: push_text_def normal_text_push)
  ultimately show ?thesis by simp
qed

theorem extract_plan_round_trip_witness:
  "extract_proposed_plan_text (plan_document (lit ''hi'' @ [newline]) (lit ''do <it>'' @ [newline]) (lit ''bye'')) =
     Some (lit ''do <it>'' @ [newline]) \<and>
   strip_proposed_plan_blocks (plan_document (lit ''hi'' @ [newline]) (lit ''do <it>'' @ [newline]) (lit ''bye'')) =
     (lit ''hi'' @ [newline]) @ lit ''bye''"
proof (rule extract_plan_round_trip)
  show "full_lines (lit ''hi'' @ [newline])" "full_lines (lit ''do <it>'' @ [newline])"
    by (simp_all add: full_lines_def)
  show "list_all no_tag_line (whole_lines (lit ''hi'' @ [newline]))"
    "list_all no_tag_line (whole_lines (lit ''do <it>'' @ [newline]))" "list_all no_tag_line (whole_lines (lit ''bye''))"
    by (simp_all add: no_tag_line_def line_slug_def strip_suffix_def strip_prefix_def trim_defs is_whitespace_def
        newline_def OPEN_TAG_def CLOSE_TAG_def rust_eval)
qed

section \<open>The assistant parser\<close>

definition merge_assistant :: "assistant_text_chunk \<Rightarrow> assistant_text_chunk \<Rightarrow> assistant_text_chunk" where
  "merge_assistant c d =
     \<lparr>out_visible = out_visible c @ out_visible d, out_citations = out_citations c @ out_citations d,
      out_plan_segments = append_plan_segments (out_plan_segments c) (out_plan_segments d)\<rparr>"

definition assistant_inv :: "assistant_text_parser \<Rightarrow> bool" where
  "assistant_inv p \<longleftrightarrow> inline_inv (citations p)"

definition plan_part :: "rstr \<Rightarrow> assistant_text_parser \<Rightarrow> proposed_plan_segment stream_text_chunk \<times> proposed_plan_parser" where
  "plan_part v p = (if plan_mode p then plan_push_str v (plan p) else (\<lparr>visible_text = v, extracted = []\<rparr>, plan p))"

lemma assistant_push_str_eq:
  "assistant_push_str chunk p =
   (case citation_push_str chunk (citations p) of
      None \<Rightarrow> None
    | Some (c, cp) \<Rightarrow>
        (case plan_part (visible_text c) p of
           (d, pl) \<Rightarrow> Some (\<lparr>out_visible = visible_text d, out_citations = extracted c, out_plan_segments = extracted d\<rparr>,
             p\<lparr>citations := cp, plan := pl\<rparr>)))"
  by (cases p)
    (auto simp: assistant_push_str_def parse_visible_text_def plan_part_def assistant_chunk_default_def split: option.splits prod.splits)

lemma append_plan_segments_Nil [simp]: "append_plan_segments [] [] = []"
  by (simp add: append_plan_segments_def)

lemma plan_part_append:
  assumes "plan_part a p = (o1, pl)" "plan_part b (p\<lparr>citations := cp, plan := pl\<rparr>) = (o2, pl2)"
  shows "plan_part (a @ b) p = (chunk_merge append_plan_segments o1 o2, pl2)"
  using assms plan.push_append [of a "plan p" o1 pl b o2 pl2]
  by (auto simp: plan_part_def plan_push_def chunk_merge_def split: if_splits)

lemma plan_part_Nil: "plan_part [] p = (chunk_default, plan p)"
  using plan.push_Nil [of "plan p"] by (simp add: plan_part_def plan_push_def chunk_default_def)

lemma plan_part_merge:
  assumes "plan_part a p = (d, pl)"
  shows "append_plan_segments [] (extracted d) = extracted d" "append_plan_segments (extracted d) [] = extracted d"
  using assms plan.merge_none [of a "plan p" d pl] plan.none_merge [of a "plan p" d pl]
  by (cases d; auto simp: plan_part_def plan_push_def chunk_merge_def chunk_default_def split: if_splits)+

interpretation assistant: stream_text_parser assistant_inv assistant_push_str merge_assistant assistant_chunk_default
proof
  fix p p1 p2 p' :: assistant_text_parser and a b c o1 o2 out
  assume "assistant_inv p"
  then have inv: "inline_inv (citations p)" by (simp add: assistant_inv_def)
  show "\<exists>out p'. assistant_push_str c p = Some (out, p') \<and> assistant_inv p'"
    using citation.push_total [OF inv, of c]
    by (auto simp: assistant_push_str_eq assistant_inv_def split: prod.splits)
  show "assistant_push_str [] p = Some (assistant_chunk_default, p)"
    using citation.push_Nil [OF inv] plan_part_Nil [of p]
    by (simp add: assistant_push_str_eq assistant_chunk_default_def chunk_default_def)
  show "assistant_push_str (a @ b) p = Some (merge_assistant o1 o2, p2)"
    if first: "assistant_push_str a p = Some (o1, p1)" and second: "assistant_push_str b p1 = Some (o2, p2)"
  proof -
    obtain c1 cp1 d1 pl1 where 1: "citation_push_str a (citations p) = Some (c1, cp1)"
      "plan_part (visible_text c1) p = (d1, pl1)" "p1 = p\<lparr>citations := cp1, plan := pl1\<rparr>"
      "o1 = \<lparr>out_visible = visible_text d1, out_citations = extracted c1, out_plan_segments = extracted d1\<rparr>"
      using first by (auto simp: assistant_push_str_eq split: option.splits prod.splits)
    obtain c2 cp2 d2 pl2 where 2: "citation_push_str b cp1 = Some (c2, cp2)"
      "plan_part (visible_text c2) p1 = (d2, pl2)" "p2 = p\<lparr>citations := cp2, plan := pl2\<rparr>"
      "o2 = \<lparr>out_visible = visible_text d2, out_citations = extracted c2, out_plan_segments = extracted d2\<rparr>"
      using second 1(3) by (auto simp: assistant_push_str_eq split: option.splits prod.splits)
    have "citation_push_str (a @ b) (citations p) = Some (merge_texts c1 c2, cp2)"
      using citation.push_append [OF inv 1(1) 2(1)] .
    moreover have "plan_part (visible_text (merge_texts c1 c2)) p = (chunk_merge append_plan_segments d1 d2, pl2)"
      using plan_part_append [OF 1(2) 2(2) [unfolded 1(3)]] by (simp add: merge_texts_def chunk_merge_def)
    ultimately show ?thesis using 1(4) 2(3,4)
      by (simp add: assistant_push_str_eq merge_assistant_def merge_texts_def chunk_merge_def)
  qed
  assume "assistant_push_str c p = Some (out, p')"
  then obtain e :: "rstr stream_text_chunk" and d pl where "plan_part (visible_text e) p = (d, pl)"
    "out = \<lparr>out_visible = visible_text d, out_citations = extracted e, out_plan_segments = extracted d\<rparr>"
    by (auto simp: assistant_push_str_eq split: option.splits prod.splits)
  then show "merge_assistant assistant_chunk_default out = out" "merge_assistant out assistant_chunk_default = out"
    using plan_part_merge by (auto simp: merge_assistant_def assistant_chunk_default_def)
qed

lemma assistant_new_inv:
  obtains p where "assistant_new mode = Some p" "assistant_inv p"
proof -
  obtain c where c: "citation_new = Some c" "inline_inv c" by (rule citation_new_inv)
  show thesis
    using that [of "\<lparr>plan_mode = mode, citations = c, plan = plan_new\<rparr>"] c(2)
    unfolding assistant_new_def c(1) by (simp add: assistant_inv_def)
qed

text \<open>
  C37: streamed assistant text is parsed the same however it arrives. From a new parser, in
  either mode, pushing a text in pieces always returns, and the merged visible text, citations
  and plan segments and the parser left behind are those of pushing the whole text at once.
\<close>

theorem assistant_text_chunking:
  assumes "assistant_new mode = Some p"
  shows "\<exists>out p'. assistant_push_str (concat cs) p = Some (out, p') \<and>
    collect assistant_push_str merge_assistant assistant_chunk_default p cs = Some (out, p')"
proof -
  obtain q where "assistant_new mode = Some q" "assistant_inv q" by (rule assistant_new_inv)
  then have "assistant_inv p" using assms by simp
  then show ?thesis using assistant.collect_pieces assistant.push_total [of p "concat cs"] by auto
qed

theorem assistant_text_chunking_witness:
  "\<exists>p out p'. assistant_new True = Some p \<and>
    assistant_push_str (concat [lit ''a<oai-'', lit ''mem-citation>b'']) p = Some (out, p') \<and>
    collect assistant_push_str merge_assistant assistant_chunk_default p
      [lit ''a<oai-'', lit ''mem-citation>b''] = Some (out, p')"
proof -
  obtain p where "assistant_new True = Some p" by (rule assistant_new_inv)
  then show ?thesis using assistant_text_chunking by blast
qed

end
