(* ===== verification/Utf8_Stream.thy ===== *)
theory Utf8_Stream
  imports Assistant_Text "HOL-Library.Word"
begin

text \<open>
  \<^verbatim>\<open>utils/stream-parser/src/utf8_stream.rs\<close>: feeding a text parser from raw bytes. The validation
  of \<^verbatim>\<open>std::str::from_utf8\<close> is written out, with the two facts about an error that the code uses:
  how far the input is valid and how long the invalid sequence is, if it is not merely cut off.
\<close>

section \<open>UTF-8\<close>

datatype utf8_step = Scalar rchar nat | Malformed "nat option"

definition continuation :: "8 word \<Rightarrow> bool" where
  "continuation b \<longleftrightarrow> 128 \<le> unat b \<and> unat b < 192"

definition second_of_three :: "nat \<Rightarrow> 8 word \<Rightarrow> bool" where
  "second_of_three n b \<longleftrightarrow> continuation b \<and> (n = 224 \<longrightarrow> 160 \<le> unat b) \<and> (n = 237 \<longrightarrow> unat b < 160)"

definition second_of_four :: "nat \<Rightarrow> 8 word \<Rightarrow> bool" where
  "second_of_four n b \<longleftrightarrow> continuation b \<and> (n = 240 \<longrightarrow> 144 \<le> unat b) \<and> (n = 244 \<longrightarrow> unat b < 144)"

definition low :: "8 word \<Rightarrow> nat" where
  "low b = unat b - 128"

fun decode_scalar :: "8 word \<Rightarrow> 8 word list \<Rightarrow> utf8_step" where
  "decode_scalar a bs =
     (let n = unat a
      in if n < 128 then Scalar n 1
         else if 194 \<le> n \<and> n \<le> 223 then
           (case bs of
              [] \<Rightarrow> Malformed None
            | b # _ \<Rightarrow> if continuation b then Scalar ((n - 192) * 64 + low b) 2 else Malformed (Some 1))
         else if 224 \<le> n \<and> n \<le> 239 then
           (case bs of
              [] \<Rightarrow> Malformed None
            | b # bs \<Rightarrow>
                if \<not> second_of_three n b then Malformed (Some 1)
                else case bs of
                  [] \<Rightarrow> Malformed None
                | c # _ \<Rightarrow>
                    if continuation c then Scalar ((n - 224) * 4096 + low b * 64 + low c) 3
                    else Malformed (Some 2))
         else if 240 \<le> n \<and> n \<le> 244 then
           (case bs of
              [] \<Rightarrow> Malformed None
            | b # bs \<Rightarrow>
                if \<not> second_of_four n b then Malformed (Some 1)
                else case bs of
                  [] \<Rightarrow> Malformed None
                | c # bs \<Rightarrow>
                    if \<not> continuation c then Malformed (Some 2)
                    else case bs of
                      [] \<Rightarrow> Malformed None
                    | d # _ \<Rightarrow>
                        if continuation d
                        then Scalar ((n - 240) * 262144 + low b * 4096 + low c * 64 + low d) 4
                        else Malformed (Some 3))
         else Malformed (Some 1))"

declare decode_scalar.simps [simp del]

record utf8_error =
  valid_up_to :: nat
  error_len :: "nat option"

fun utf8_from :: "nat \<Rightarrow> 8 word list \<Rightarrow> utf8_error + rstr" where
  "utf8_from pos [] = Inr []"
| "utf8_from pos (a # bs) =
     (case decode_scalar a bs of
        Malformed len \<Rightarrow> Inl \<lparr>valid_up_to = pos, error_len = len\<rparr>
      | Scalar c k \<Rightarrow>
          (case utf8_from (pos + k) (drop (k - 1) bs) of
             Inl e \<Rightarrow> Inl e
           | Inr s \<Rightarrow> Inr (c # s)))"

definition from_utf8 :: "8 word list \<Rightarrow> utf8_error + rstr" where
  "from_utf8 bs = utf8_from 0 bs"

section \<open>The parser\<close>

datatype utf8_stream_parser_error = InvalidUtf8 nat nat | IncompleteUtf8AtEof

record 'p utf8_stream_parser =
  inner :: 'p
  pending_utf8 :: "8 word list"

definition utf8_new :: "'p \<Rightarrow> 'p utf8_stream_parser" where
  "utf8_new p = \<lparr>inner = p, pending_utf8 = []\<rparr>"

text \<open>The inner parser is a parameter: its push, its finish, and its empty and merged outputs.\<close>

definition push_bytes ::
    "(rstr \<Rightarrow> 'p \<Rightarrow> ('x stream_text_chunk \<times> 'p) option) \<Rightarrow> 8 word list \<Rightarrow> 'p utf8_stream_parser \<Rightarrow>
     ((utf8_stream_parser_error + 'x stream_text_chunk) \<times> 'p utf8_stream_parser) option" where
  "push_bytes push chunk p =
     (let pend = pending_utf8 p @ chunk
      in case from_utf8 pend of
           Inr s \<Rightarrow>
             (case push s (inner p) of
                None \<Rightarrow> None
              | Some (out, q) \<Rightarrow> Some (Inr out, \<lparr>inner = q, pending_utf8 = []\<rparr>))
         | Inl err \<Rightarrow>
             (case error_len err of
                Some len \<Rightarrow> Some (Inl (InvalidUtf8 (valid_up_to err) len), p)
              | None \<Rightarrow>
                  if valid_up_to err = 0 then Some (Inr chunk_default, p\<lparr>pending_utf8 := pend\<rparr>)
                  else case from_utf8 (take (valid_up_to err) pend) of
                    Inl prefix_err \<Rightarrow>
                      Some (Inl (InvalidUtf8 (valid_up_to prefix_err)
                              (case error_len prefix_err of Some len \<Rightarrow> len | None \<Rightarrow> 0)), p)
                  | Inr s \<Rightarrow>
                      (case push s (inner p) of
                         None \<Rightarrow> None
                       | Some (out, q) \<Rightarrow>
                           Some (Inr out, \<lparr>inner = q, pending_utf8 = drop (valid_up_to err) pend\<rparr>))))"

definition utf8_finish ::
    "(rstr \<Rightarrow> 'p \<Rightarrow> ('x stream_text_chunk \<times> 'p) option) \<Rightarrow> ('p \<Rightarrow> 'x stream_text_chunk \<times> 'p) \<Rightarrow>
     'p utf8_stream_parser \<Rightarrow>
     ((utf8_stream_parser_error + 'x stream_text_chunk) \<times> 'p utf8_stream_parser) option" where
  "utf8_finish push finish p =
     (if pending_utf8 p = [] then
        (case finish (inner p) of
           (rest, q) \<Rightarrow> Some (Inr (chunk_merge (@) chunk_default rest), p\<lparr>inner := q\<rparr>))
      else case from_utf8 (pending_utf8 p) of
        Inl err \<Rightarrow>
          Some (Inl (case error_len err of
                       Some len \<Rightarrow> InvalidUtf8 (valid_up_to err) len
                     | None \<Rightarrow> IncompleteUtf8AtEof), p)
      | Inr s \<Rightarrow>
          (case push s (inner p) of
             None \<Rightarrow> None
           | Some (out, q) \<Rightarrow>
               (case finish q of
                  (rest, q) \<Rightarrow> Some (Inr (chunk_merge (@) out rest), \<lparr>inner = q, pending_utf8 = []\<rparr>))))"

definition into_inner :: "'p utf8_stream_parser \<Rightarrow> utf8_stream_parser_error + 'p" where
  "into_inner p =
     (if pending_utf8 p = [] then Inr (inner p)
      else case from_utf8 (pending_utf8 p) of
        Inr _ \<Rightarrow> Inr (inner p)
      | Inl err \<Rightarrow>
          Inl (case error_len err of
                 Some len \<Rightarrow> InvalidUtf8 (valid_up_to err) len
               | None \<Rightarrow> IncompleteUtf8AtEof))"

definition into_inner_lossy :: "'p utf8_stream_parser \<Rightarrow> 'p" where
  "into_inner_lossy p = inner p"

section \<open>Decoding in pieces\<close>

text \<open>What can be decoded, and the bytes left where decoding stops.\<close>

fun utf8_scan :: "8 word list \<Rightarrow> rstr \<times> 8 word list" where
  "utf8_scan [] = ([], [])"
| "utf8_scan (a # bs) =
     (case decode_scalar a bs of
        Malformed len \<Rightarrow> ([], a # bs)
      | Scalar c k \<Rightarrow> (case utf8_scan (drop (k - 1) bs) of (s, rest) \<Rightarrow> (c # s, rest)))"

lemma decode_Scalar:
  assumes "decode_scalar a bs = Scalar c k"
  shows "1 \<le> k" "k \<le> Suc (length bs)" "decode_scalar a (take (k - 1) bs @ t) = Scalar c k"
  using assms
  by (auto simp: decode_scalar.simps Let_def split: if_splits list.splits)

lemma decode_Scalar_append:
  assumes "decode_scalar a bs = Scalar c k"
  shows "decode_scalar a (bs @ t) = Scalar c k"
  using decode_Scalar(3) [OF assms, of "drop (k - 1) bs @ t"] by (metis append.assoc append_take_drop_id)

lemma decode_Malformed_append: "decode_scalar a bs = Malformed (Some e) \<Longrightarrow> decode_scalar a (bs @ t) = Malformed (Some e)"
  by (auto simp: decode_scalar.simps Let_def split: if_splits list.splits)

text \<open>The bytes left behind are cut off, or can never become a character.\<close>

fun stuck :: "8 word list \<Rightarrow> nat option \<Rightarrow> bool" where
  "stuck [] len = False"
| "stuck (a # bs) len \<longleftrightarrow> decode_scalar a bs = Malformed len"

lemma utf8_scan_split:
  "utf8_scan bs = (s, rest) \<Longrightarrow>
   (rest = [] \<or> (\<exists>len. stuck rest len)) \<and> (\<exists>u. bs = u @ rest \<and> utf8_scan u = (s, []))"
proof (induction bs arbitrary: s rule: utf8_scan.induct)
  case (2 a bs)
  show ?case
  proof (cases "decode_scalar a bs")
    case (Scalar c k)
    then obtain s' where s': "utf8_scan (drop (k - 1) bs) = (s', rest)" "s = c # s'"
      using "2.prems" by (auto split: prod.splits)
    from "2.IH" [OF Scalar s'(1)] obtain u where
      u: "rest = [] \<or> (\<exists>len. stuck rest len)" "drop (k - 1) bs = u @ rest" "utf8_scan u = (s', [])" by blast
    have "a # bs = (a # take (k - 1) bs @ u) @ rest" using u(2) append_take_drop_id [of "k - 1" bs] by simp
    moreover have "utf8_scan (a # take (k - 1) bs @ u) = (s, [])"
      using decode_Scalar [OF Scalar] u(3) s'(2) by (simp add: min_def)
    ultimately show ?thesis using u(1) by blast
  next
    case (Malformed len)
    then show ?thesis using "2.prems" by auto
  qed
qed simp

lemma from_utf8_stuck:
  "utf8_scan bs = (s, rest) \<Longrightarrow> stuck rest len \<Longrightarrow>
   utf8_from pos bs = Inl \<lparr>valid_up_to = pos + (length bs - length rest), error_len = len\<rparr>"
proof (induction pos bs arbitrary: s rule: utf8_from.induct)
  case (2 pos a bs)
  show ?case
  proof (cases "decode_scalar a bs")
    case (Scalar c k)
    then obtain s' where s': "utf8_scan (drop (k - 1) bs) = (s', rest)"
      using "2.prems" by (auto split: prod.splits)
    obtain u where "drop (k - 1) bs = u @ rest" using utf8_scan_split [OF s'] by blast
    then have "length rest \<le> length (drop (k - 1) bs)" by (simp del: length_drop)
    then have "k + (length (drop (k - 1) bs) - length rest) = Suc (length bs) - length rest"
      using decode_Scalar(1,2) [OF Scalar] by simp
    then show ?thesis using "2.IH" [OF Scalar s' "2.prems"(2)] Scalar by (simp add: add.assoc)
  next
    case (Malformed l)
    then show ?thesis using "2.prems" by auto
  qed
qed simp

lemma from_utf8_scanned: "utf8_scan bs = (s, []) \<Longrightarrow> utf8_from pos bs = Inr s"
  by (induction pos bs arbitrary: s rule: utf8_from.induct) (auto split: utf8_step.splits prod.splits)

lemma from_utf8_complete: "utf8_from pos bs = Inr s \<longleftrightarrow> utf8_scan bs = (s, [])"
proof
  assume ok: "utf8_from pos bs = Inr s"
  obtain s' rest where r: "utf8_scan bs = (s', rest)" by force
  then show "utf8_scan bs = (s, [])"
    using utf8_scan_split [OF r] from_utf8_stuck [OF r, of _ pos] from_utf8_scanned [of bs s' pos] ok by auto
qed (rule from_utf8_scanned)

lemma utf8_scan_append:
  "utf8_scan bs = (s, rest) \<Longrightarrow> rest = [] \<or> stuck rest None \<Longrightarrow>
   utf8_scan (bs @ t) = (case utf8_scan (rest @ t) of (s', rest') \<Rightarrow> (s @ s', rest'))"
proof (induction bs arbitrary: s rule: utf8_scan.induct)
  case (2 a bs)
  show ?case
  proof (cases "decode_scalar a bs")
    case (Scalar c k)
    then obtain s' where s': "utf8_scan (drop (k - 1) bs) = (s', rest)" "s = c # s'"
      using "2.prems" by (auto split: prod.splits)
    have "utf8_scan ((a # bs) @ t) = (case utf8_scan (drop (k - 1) bs @ t) of (s, rest) \<Rightarrow> (c # s, rest))"
      using decode_Scalar_append [OF Scalar, of t] decode_Scalar(2) [OF Scalar] by simp
    then show ?thesis using "2.IH" [OF Scalar s'(1) "2.prems"(2)] s'(2) by (simp split: prod.splits)
  next
    case (Malformed len)
    then show ?thesis using "2.prems" by (simp split: prod.splits)
  qed
qed simp

lemma utf8_scan_hopeless:
  assumes "utf8_scan bs = (s, rest)" "stuck rest (Some e)"
  shows "\<exists>rest'. utf8_scan (bs @ t) = (s, rest') \<and> stuck rest' (Some e)"
  using assms
proof (induction bs arbitrary: s rule: utf8_scan.induct)
  case (2 a bs)
  show ?case
  proof (cases "decode_scalar a bs")
    case (Scalar c k)
    then obtain s' where s': "utf8_scan (drop (k - 1) bs) = (s', rest)" "s = c # s'"
      using "2.prems" by (auto split: prod.splits)
    have "utf8_scan ((a # bs) @ t) = (case utf8_scan (drop (k - 1) bs @ t) of (s, rest) \<Rightarrow> (c # s, rest))"
      using decode_Scalar_append [OF Scalar, of t] decode_Scalar(2) [OF Scalar] by simp
    then show ?thesis using "2.IH" [OF Scalar s'(1) "2.prems"(2)] s'(2) by auto
  next
    case (Malformed len)
    then have "decode_scalar a bs = Malformed (Some e)" using "2.prems" by auto
    from decode_Malformed_append [OF this, of t] show ?thesis using Malformed "2.prems" by auto
  qed
qed simp

section \<open>Pushing bytes\<close>

text \<open>\<open>push_bytes\<close> in terms of the scan.\<close>

lemma push_bytes_eq:
  assumes scan: "utf8_scan (pending_utf8 p @ chunk) = (s, rest)"
  shows "push_bytes push chunk p =
    (if \<exists>e. stuck rest (Some e)
     then Some (Inl (InvalidUtf8 (length (pending_utf8 p @ chunk) - length rest) (THE e. stuck rest (Some e))), p)
     else if s = [] \<and> rest \<noteq> [] then Some (Inr chunk_default, p\<lparr>pending_utf8 := rest\<rparr>)
     else case push s (inner p) of
       None \<Rightarrow> None
     | Some (out, q) \<Rightarrow> Some (Inr out, \<lparr>inner = q, pending_utf8 = rest\<rparr>))"
proof -
  let ?pend = "pending_utf8 p @ chunk"
  obtain u where u: "?pend = u @ rest" "utf8_scan u = (s, [])" "rest = [] \<or> (\<exists>len. stuck rest len)"
    using utf8_scan_split [OF scan] by blast
  have s_Nil: "s = [] \<longleftrightarrow> u = []" using u(2) by (cases u) (auto split: utf8_step.splits prod.splits)
  consider (all) "rest = []" | (cut) "stuck rest None" | (bad) e where "stuck rest (Some e)"
    using u(3) by (metis not_None_eq)
  then show ?thesis
  proof cases
    case all
    then have "from_utf8 ?pend = Inr s" using scan by (simp add: from_utf8_def from_utf8_complete)
    then show ?thesis using all by (auto simp: push_bytes_def split: option.splits)
  next
    case cut
    then have err: "from_utf8 ?pend = Inl \<lparr>valid_up_to = length u, error_len = None\<rparr>" "rest \<noteq> []"
      "\<nexists>e. stuck rest (Some e)"
      using from_utf8_stuck [OF scan cut, of 0] u(1) by (auto simp: from_utf8_def, cases rest, auto)
    moreover have "from_utf8 u = Inr s" using u(2) by (simp add: from_utf8_def from_utf8_complete)
    ultimately show ?thesis
      using s_Nil u(1) by (auto simp: push_bytes_def Let_def split: option.splits)
  next
    case bad
    then have err: "from_utf8 ?pend = Inl \<lparr>valid_up_to = length ?pend - length rest, error_len = Some e\<rparr>"
      using from_utf8_stuck [OF scan bad, of 0] by (simp add: from_utf8_def)
    have "(THE e. stuck rest (Some e)) = e" using bad by (cases rest) auto
    then show ?thesis using err bad by (auto simp: push_bytes_def Let_def)
  qed
qed

text \<open>Bytes that were cut off can be completed.\<close>

definition completion :: "8 word list \<Rightarrow> 8 word list" where
  "completion bs =
     (case bs of
        [a] \<Rightarrow>
          (if unat a < 224 then [128]
           else if unat a < 240 then [if unat a = 224 then 160 else 128, 128]
           else [if unat a = 240 then 144 else 128, 128, 128])
      | [a, b] \<Rightarrow> if unat a < 240 then [128] else [128, 128]
      | _ \<Rightarrow> [128])"

lemma cut_off_cases:
  assumes "decode_scalar a bs = Malformed None"
  obtains (one) "bs = []" "194 \<le> unat a" "unat a \<le> 244"
    | (three) b where "bs = [b]" "224 \<le> unat a" "unat a \<le> 239" "second_of_three (unat a) b"
    | (four) b where "bs = [b]" "240 \<le> unat a" "unat a \<le> 244" "second_of_four (unat a) b"
    | (four') b c where "bs = [b, c]" "240 \<le> unat a" "unat a \<le> 244" "second_of_four (unat a) b" "continuation c"
  using assms by (auto simp: decode_scalar.simps Let_def split: if_splits list.splits)

lemma unat_8: "unat (128 :: 8 word) = 128" "unat (144 :: 8 word) = 144" "unat (160 :: 8 word) = 160"
  by simp_all

lemma decode_cut_off:
  "194 \<le> unat a \<Longrightarrow> unat a \<le> 223 \<Longrightarrow> \<exists>c. decode_scalar a [128] = Scalar c 2"
  "224 \<le> unat a \<Longrightarrow> unat a \<le> 239 \<Longrightarrow> second_of_three (unat a) b \<Longrightarrow> \<exists>c. decode_scalar a [b, 128] = Scalar c 3"
  "240 \<le> unat a \<Longrightarrow> unat a \<le> 244 \<Longrightarrow> second_of_four (unat a) b \<Longrightarrow> continuation c \<Longrightarrow>
     \<exists>d. decode_scalar a [b, c, 128] = Scalar d 4"
  by (simp_all add: decode_scalar.simps Let_def continuation_def unat_8)

lemma second_bytes:
  "second_of_three n (if n = 224 then 160 else 128)" "second_of_four n (if n = 240 then 144 else 128)"
  "continuation 128"
  by (simp_all add: second_of_three_def second_of_four_def continuation_def unat_8)

lemma cut_off_completes:
  assumes "stuck rest None"
  shows "\<exists>s. utf8_scan (rest @ completion rest) = (s, [])"
proof -
  obtain a bs where rest: "rest = a # bs" and cut: "decode_scalar a bs = Malformed None" using assms by (cases rest) auto
  from cut show ?thesis
  proof (cases rule: cut_off_cases)
    case one
    then consider "unat a \<le> 223" | "224 \<le> unat a" "unat a \<le> 239" | "240 \<le> unat a" by linarith
    then show ?thesis
    proof cases
      case 1
      then show ?thesis using rest one decode_cut_off(1) [of a] by (auto simp: completion_def)
    next
      case 2
      then show ?thesis using rest one decode_cut_off(2) [OF 2 second_bytes(1)] by (auto simp: completion_def)
    next
      case 3
      then show ?thesis using rest one decode_cut_off(3) [OF 3 _ second_bytes(2,3)] by (auto simp: completion_def)
    qed
  next
    case three
    then show ?thesis using rest decode_cut_off(2) [OF three(2-4)] by (auto simp: completion_def)
  next
    case four
    then show ?thesis using rest decode_cut_off(3) [OF four(2-4) second_bytes(3)] by (auto simp: completion_def)
  next
    case four'
    then show ?thesis using rest decode_cut_off(3) [OF four'(2-5)] by (auto simp: completion_def)
  qed
qed

text \<open>Feeding chunk after chunk, until one is refused.\<close>

fun collect_bytes ::
    "(rstr \<Rightarrow> 'p \<Rightarrow> ('x stream_text_chunk \<times> 'p) option) \<Rightarrow>
     ('x stream_text_chunk \<Rightarrow> 'x stream_text_chunk \<Rightarrow> 'x stream_text_chunk) \<Rightarrow>
     'x stream_text_chunk \<Rightarrow> 'p utf8_stream_parser \<Rightarrow> 8 word list list \<Rightarrow>
     ((utf8_stream_parser_error + 'x stream_text_chunk) \<times> 'p utf8_stream_parser) option" where
  "collect_bytes push merge acc p [] = Some (Inr acc, p)"
| "collect_bytes push merge acc p (c # cs) =
     (case push_bytes push c p of
        None \<Rightarrow> None
      | Some (Inl e, p') \<Rightarrow> Some (Inl e, p')
      | Some (Inr out, p') \<Rightarrow> collect_bytes push merge (merge acc out) p' cs)"

locale utf8_inner = stream_text_parser inv push merge chunk_default
  for inv :: "'p \<Rightarrow> bool" and push :: "rstr \<Rightarrow> 'p \<Rightarrow> ('x stream_text_chunk \<times> 'p) option"
    and merge :: "'x stream_text_chunk \<Rightarrow> 'x stream_text_chunk \<Rightarrow> 'x stream_text_chunk"
begin

lemma push_bytes_step:
  assumes inv: "inv p" and so_far: "push s p = Some (acc, q)" and rest: "rest = [] \<or> stuck rest None"
    and scan: "utf8_scan (rest @ c) = (s', rest')" "rest' = [] \<or> stuck rest' None"
  shows "\<exists>out q'. push_bytes push c \<lparr>inner = q, pending_utf8 = rest\<rparr> = Some (Inr out, \<lparr>inner = q', pending_utf8 = rest'\<rparr>) \<and>
    push (s @ s') p = Some (merge acc out, q')"
proof -
  have q: "inv q" using push_total [OF inv, of s] so_far by auto
  obtain out q' where out: "push s' q = Some (out, q')" using push_total [OF q] by blast
  have "\<nexists>e. stuck rest' (Some e)" using scan(2) by (cases rest') auto
  moreover have "out = chunk_default" "q' = q" if "s' = []" using that out push_Nil [OF q] by simp_all
  moreover have "push (s @ s') p = Some (merge acc out, q')" by (rule push_append [OF inv so_far out])
  ultimately show ?thesis
    using push_bytes_eq [of "\<lparr>inner = q, pending_utf8 = rest\<rparr>" c s' rest' push] scan(1) out by auto
qed

lemma collect_bytes_from:
  assumes inv: "inv p"
  shows "push s p = Some (acc, q) \<Longrightarrow> rest = [] \<or> stuck rest None \<Longrightarrow> utf8_scan (rest @ concat cs) = (t, []) \<Longrightarrow>
    \<exists>out q'. push (s @ t) p = Some (out, q') \<and>
      collect_bytes push merge acc \<lparr>inner = q, pending_utf8 = rest\<rparr> cs = Some (Inr out, \<lparr>inner = q', pending_utf8 = []\<rparr>)"
proof (induction cs arbitrary: s acc q rest t)
  case Nil
  then have "rest = []" "t = []" by (cases rest; auto)+
  then show ?case using Nil by simp
next
  case (Cons c cs)
  obtain s' rest' where scan: "utf8_scan (rest @ c) = (s', rest')" by force
  have rest': "rest' = [] \<or> stuck rest' None"
  proof (rule ccontr)
    assume "\<not> ?thesis"
    then obtain e where "stuck rest' (Some e)" using utf8_scan_split [OF scan] by (metis not_None_eq)
    then obtain r where "utf8_scan ((rest @ c) @ concat cs) = (s', r)" "stuck r (Some e)"
      using utf8_scan_hopeless [OF scan] by blast
    then show False using Cons.prems(3) by simp
  qed
  then obtain t' where t': "utf8_scan (rest' @ concat cs) = (t', [])" "t = s' @ t'"
    using utf8_scan_append [OF scan, of "concat cs"] Cons.prems(3) by (auto split: prod.splits)
  obtain out q' where step: "push_bytes push c \<lparr>inner = q, pending_utf8 = rest\<rparr> = Some (Inr out, \<lparr>inner = q', pending_utf8 = rest'\<rparr>)"
    "push (s @ s') p = Some (merge acc out, q')"
    using push_bytes_step [OF inv Cons.prems(1,2) scan rest'] by blast
  from Cons.IH [OF step(2) rest' t'(1)] show ?case using step(1) t'(2) by simp
qed

lemma collect_bytes_decodes:
  assumes "inv p" "from_utf8 (concat cs) = Inr s"
  shows "\<exists>out q. push s p = Some (out, q) \<and>
    collect_bytes push merge chunk_default (utf8_new p) cs = Some (Inr out, utf8_new q)"
  using collect_bytes_from [OF assms(1) push_Nil [OF assms(1)], of "[]" cs s] assms(2)
  by (simp add: from_utf8_def from_utf8_complete utf8_new_def)

end

interpretation utf8_citation: utf8_inner inline_inv citation_push_str merge_texts
  by unfold_locales

interpretation utf8_plan: utf8_inner "\<lambda>_. True" plan_push "chunk_merge append_plan_segments"
  by unfold_locales

text \<open>
  C38: a character split between two byte chunks is not lost. When the bytes of all chunks
  together are valid UTF-8, no push is refused, nothing stays buffered, and the merged output is
  what the citation parser makes of the decoded text.
\<close>

theorem utf8_stream_decodes:
  assumes "citation_new = Some p" "from_utf8 (concat cs) = Inr s"
  shows "\<exists>out q. citation_push_str s p = Some (out, q) \<and>
    collect_bytes citation_push_str merge_texts chunk_default (utf8_new p) cs = Some (Inr out, utf8_new q)"
proof -
  obtain p' where "citation_new = Some p'" "inline_inv p'" by (rule citation_new_inv)
  then have "inline_inv p" using assms(1) by (metis option.inject)
  then show ?thesis by (rule utf8_citation.collect_bytes_decodes [OF _ assms(2)])
qed

theorem utf8_stream_decodes_witness:
  "\<exists>p out q. citation_new = Some p \<and> citation_push_str [65, 233, 66] p = Some (out, q) \<and>
    collect_bytes citation_push_str merge_texts chunk_default (utf8_new p) [[65, 195], [169, 66]] = Some (Inr out, utf8_new q)"
proof -
  obtain p where p: "citation_new = Some p" by (rule citation_new_inv)
  have "from_utf8 (concat [[65, 195], [169, 66]]) = Inr [65, 233, 66]"
    by (simp add: from_utf8_def decode_scalar.simps continuation_def low_def)
  then show ?thesis using utf8_stream_decodes [OF p] p by blast
qed

text \<open>
  A refused chunk leaves no trace, and only hopeless input is refused. \<^verbatim>\<open>push_bytes\<close>
  returns an error exactly when no further bytes could make the buffered bytes and the chunk
  valid UTF-8, and then the parser is as it was before.
\<close>

theorem push_bytes_rolls_back:
  "(\<exists>e p'. push_bytes push chunk p = Some (Inl e, p')) = (\<nexists>t s. from_utf8 (pending_utf8 p @ chunk @ t) = Inr s) \<and>
   (\<exists>e p'. push_bytes push chunk p = Some (Inl e, p')) = (\<exists>e. push_bytes push chunk p = Some (Inl e, p))"
proof -
  obtain s rest where scan: "utf8_scan (pending_utf8 p @ chunk) = (s, rest)" by force
  note eq = push_bytes_eq [OF scan, of push]
  have refused: "(\<exists>e p'. push_bytes push chunk p = Some (Inl e, p')) \<longleftrightarrow> (\<exists>e. stuck rest (Some e))"
    unfolding eq by (auto split: option.splits)
  have "(\<exists>e. stuck rest (Some e)) = (\<nexists>t s. from_utf8 (pending_utf8 p @ chunk @ t) = Inr s)"
  proof
    assume "\<exists>e. stuck rest (Some e)"
    then obtain e where e: "stuck rest (Some e)" by blast
    have "from_utf8 (pending_utf8 p @ chunk @ t) \<noteq> Inr s'" for t s'
      using utf8_scan_hopeless [OF scan e, of t] by (auto simp: from_utf8_def from_utf8_complete)
    then show "\<nexists>t s. from_utf8 (pending_utf8 p @ chunk @ t) = Inr s" by blast
  next
    assume no: "\<nexists>t s. from_utf8 (pending_utf8 p @ chunk @ t) = Inr s"
    show "\<exists>e. stuck rest (Some e)"
    proof (rule ccontr)
      assume "\<nexists>e. stuck rest (Some e)"
      then have r: "rest = [] \<or> stuck rest None" using utf8_scan_split [OF scan] by (metis not_None_eq)
      then obtain t s' where "utf8_scan (rest @ t) = (s', [])"
        using cut_off_completes by (metis append_Nil2 utf8_scan.simps(1))
      then have "from_utf8 ((pending_utf8 p @ chunk) @ t) = Inr (s @ s')"
        using utf8_scan_append [OF scan r, of t] by (simp add: from_utf8_def from_utf8_complete)
      then show False using no by auto
    qed
  qed
  then show ?thesis unfolding refused by (auto simp: eq split: option.splits)
qed

end
