(* ===== verification/Command_Safety.thy ===== *)
theory Command_Safety
  imports Absolute_Path
begin

text \<open>
  \<^verbatim>\<open>shell-command/src/command_safety/\<close>: which commands are known to be safe and which are
  flagged as dangerous, on Linux. The tree-sitter parser behind \<^verbatim>\<open>parse_shell_lc_plain_commands\<close>
  is the parameter \<open>plain_commands\<close>.
\<close>

type_synonym command = "rstr list"
type_synonym shell_parser = "command \<Rightarrow> command list option"

text \<open>\<^verbatim>\<open>Path::file_name\<close>\<close>

definition path_file_name :: "path_buf \<Rightarrow> rstr option" where
  "path_file_name p = (case last_opt (components p) of Some (Normal name) \<Rightarrow> Some name | _ \<Rightarrow> None)"

section \<open>Dangerous commands\<close>

definition is_git_global_option_with_value :: "rstr \<Rightarrow> bool" where
  "is_git_global_option_with_value arg \<longleftrightarrow>
     arg \<in> set [lit ''-C'', lit ''-c'', lit ''--config-env'', lit ''--exec-path'', lit ''--git-dir'',
       lit ''--namespace'', lit ''--super-prefix'', lit ''--work-tree'']"

definition is_git_global_option_with_inline_value :: "rstr \<Rightarrow> bool" where
  "is_git_global_option_with_inline_value arg \<longleftrightarrow>
     (starts_with (lit ''--config-env='') arg \<or> starts_with (lit ''--exec-path='') arg \<or>
      starts_with (lit ''--git-dir='') arg \<or> starts_with (lit ''--namespace='') arg \<or>
      starts_with (lit ''--super-prefix='') arg \<or> starts_with (lit ''--work-tree='') arg) \<or>
     ((starts_with (lit ''-C'') arg \<or> starts_with (lit ''-c'') arg) \<and> length arg > 2)"

definition executable_name_lookup_key :: "rstr \<Rightarrow> rstr option" where
  "executable_name_lookup_key raw = path_file_name raw"

fun git_scan :: "rstr list \<Rightarrow> nat \<Rightarrow> bool \<Rightarrow> rstr list \<Rightarrow> (nat \<times> rstr) option" where
  "git_scan subcommands idx skip_next [] = None"
| "git_scan subcommands idx skip_next (arg # args) =
     (if skip_next then git_scan subcommands (Suc idx) False args
      else if is_git_global_option_with_inline_value arg then git_scan subcommands (Suc idx) False args
      else if is_git_global_option_with_value arg then git_scan subcommands (Suc idx) True args
      else if arg = lit ''--'' \<or> starts_with (lit ''-'') arg then git_scan subcommands (Suc idx) False args
      else if arg \<in> set subcommands then Some (idx, arg)
      else None)"

definition find_git_subcommand :: "command \<Rightarrow> rstr list \<Rightarrow> (nat \<times> rstr) option" where
  "find_git_subcommand command subcommands =
     (case command of
        [] \<Rightarrow> None
      | cmd0 # args \<Rightarrow>
          if executable_name_lookup_key cmd0 \<noteq> Some (lit ''git'') then None
          else git_scan subcommands 1 False args)"

fun is_dangerous_to_call_with_exec :: "command \<Rightarrow> bool" where
  "is_dangerous_to_call_with_exec [] = False"
| "is_dangerous_to_call_with_exec (cmd0 # args) =
     (if cmd0 = lit ''rm'' then
        (case args of [] \<Rightarrow> False | arg # _ \<Rightarrow> arg = lit ''-f'' \<or> arg = lit ''-rf'')
      else if cmd0 = lit ''sudo'' then is_dangerous_to_call_with_exec args
      else False)"

definition command_might_be_dangerous :: "shell_parser \<Rightarrow> command \<Rightarrow> bool" where
  "command_might_be_dangerous plain_commands command =
     (if is_dangerous_to_call_with_exec command then True
      else case plain_commands command of
        Some all_commands \<Rightarrow> list_ex is_dangerous_to_call_with_exec all_commands
      | None \<Rightarrow> False)"

section \<open>Safe commands\<close>

datatype git_option_pattern =
    Exact rstr
  | ShortWithInlineValue rstr
  | Prefix rstr

definition UNSAFE_GIT_GLOBAL_OPTIONS :: "git_option_pattern list" where
  "UNSAFE_GIT_GLOBAL_OPTIONS =
     [Exact (lit ''-C''), ShortWithInlineValue (lit ''-C''), Exact (lit ''-c''),
      ShortWithInlineValue (lit ''-c''), Exact (lit ''-p''), Exact (lit ''--config-env''),
      Prefix (lit ''--config-env=''), Exact (lit ''--exec-path''), Prefix (lit ''--exec-path=''),
      Exact (lit ''--git-dir''), Prefix (lit ''--git-dir=''), Exact (lit ''--namespace''),
      Prefix (lit ''--namespace=''), Exact (lit ''--paginate''), Exact (lit ''--super-prefix''),
      Prefix (lit ''--super-prefix=''), Exact (lit ''--work-tree''), Prefix (lit ''--work-tree='')]"

definition UNSAFE_GIT_SUBCOMMAND_OPTIONS :: "git_option_pattern list" where
  "UNSAFE_GIT_SUBCOMMAND_OPTIONS =
     [Exact (lit ''--output''), Prefix (lit ''--output=''), Exact (lit ''--ext-diff''),
      Exact (lit ''--textconv''), Exact (lit ''--exec''), Prefix (lit ''--exec='')]"

fun pattern_matches :: "git_option_pattern \<Rightarrow> rstr \<Rightarrow> bool" where
  "pattern_matches (Exact option) arg \<longleftrightarrow> arg = option"
| "pattern_matches (ShortWithInlineValue option) arg \<longleftrightarrow> starts_with option arg \<and> length arg > length option"
| "pattern_matches (Prefix prefix) arg \<longleftrightarrow> starts_with prefix arg"

definition git_matches_option_pattern :: "rstr \<Rightarrow> git_option_pattern list \<Rightarrow> bool" where
  "git_matches_option_pattern arg patterns = list_ex (\<lambda>p. pattern_matches p arg) patterns"

definition git_has_unsafe_global_option :: "rstr list \<Rightarrow> bool" where
  "git_has_unsafe_global_option global_args =
     list_ex (\<lambda>arg. git_matches_option_pattern arg UNSAFE_GIT_GLOBAL_OPTIONS) global_args"

definition git_subcommand_args_are_read_only :: "rstr list \<Rightarrow> bool" where
  "git_subcommand_args_are_read_only args =
     (\<not> list_ex (\<lambda>arg. git_matches_option_pattern arg UNSAFE_GIT_SUBCOMMAND_OPTIONS) args)"

definition branch_query_flag :: "rstr \<Rightarrow> bool" where
  "branch_query_flag arg \<longleftrightarrow>
     arg \<in> set [lit ''--list'', lit ''-l'', lit ''--show-current'', lit ''-a'', lit ''--all'', lit ''-r'',
       lit ''--remotes'', lit ''-v'', lit ''-vv'', lit ''--verbose''] \<or> starts_with (lit ''--format='') arg"

fun branch_loop :: "bool \<Rightarrow> rstr list \<Rightarrow> bool" where
  "branch_loop saw_read_only_flag [] = saw_read_only_flag"
| "branch_loop saw_read_only_flag (arg # args) =
     (if branch_query_flag arg then branch_loop True args else False)"

definition git_branch_is_read_only :: "rstr list \<Rightarrow> bool" where
  "git_branch_is_read_only branch_args = (if branch_args = [] then True else branch_loop False branch_args)"

definition is_safe_git_command :: "command \<Rightarrow> bool" where
  "is_safe_git_command command =
     (case find_git_subcommand command
             [lit ''status'', lit ''log'', lit ''diff'', lit ''show'', lit ''branch''] of
        None \<Rightarrow> False
      | Some (subcommand_idx, subcommand) \<Rightarrow>
          (let global_args = take (subcommand_idx - 1) (drop 1 command);
               subcommand_args = drop (subcommand_idx + 1) command
           in if git_has_unsafe_global_option global_args then False
              else if subcommand \<in> set [lit ''status'', lit ''log'', lit ''diff'', lit ''show''] then
                git_subcommand_args_are_read_only subcommand_args
              else if subcommand = lit ''branch'' then
                git_subcommand_args_are_read_only subcommand_args \<and> git_branch_is_read_only subcommand_args
              else False))"

definition all_ascii_digits :: "rstr \<Rightarrow> bool" where
  "all_ascii_digits s \<longleftrightarrow> s \<noteq> [] \<and> list_all is_ascii_digit s"

definition is_valid_sed_n_arg :: "rstr option \<Rightarrow> bool" where
  "is_valid_sed_n_arg arg =
     (case arg of
        None \<Rightarrow> False
      | Some s \<Rightarrow>
          (case strip_suffix (lit ''p'') s of
             None \<Rightarrow> False
           | Some core \<Rightarrow>
               (case split_on (chr CHR '','') core of
                  [num] \<Rightarrow> all_ascii_digits num
                | [a, b] \<Rightarrow> all_ascii_digits a \<and> all_ascii_digits b
                | _ \<Rightarrow> False)))"

definition vec_get :: "nat \<Rightarrow> 'a list \<Rightarrow> 'a option" where
  "vec_get i xs = (if i < length xs then Some (xs ! i) else None)"

definition safe_names :: "rstr list" where
  "safe_names =
     [lit ''numfmt'', lit ''tac'',
      lit ''cat'', lit ''cd'', lit ''cut'', lit ''echo'', lit ''expr'', lit ''false'', lit ''grep'',
      lit ''head'', lit ''id'', lit ''ls'', lit ''nl'', lit ''paste'', lit ''pwd'', lit ''rev'', lit ''seq'',
      lit ''stat'', lit ''tail'', lit ''tr'', lit ''true'', lit ''uname'', lit ''uniq'', lit ''wc'',
      lit ''which'', lit ''whoami'']"

definition unsafe_base64_option :: "rstr \<Rightarrow> bool" where
  "unsafe_base64_option arg \<longleftrightarrow>
     arg \<in> set [lit ''-o'', lit ''--output''] \<or> starts_with (lit ''--output='') arg \<or>
     (starts_with (lit ''-o'') arg \<and> arg \<noteq> lit ''-o'')"

definition UNSAFE_FIND_OPTIONS :: "rstr list" where
  "UNSAFE_FIND_OPTIONS =
     [lit ''-exec'', lit ''-execdir'', lit ''-ok'', lit ''-okdir'', lit ''-delete'', lit ''-fls'',
      lit ''-fprint'', lit ''-fprint0'', lit ''-fprintf'']"

definition unsafe_ripgrep_option :: "rstr \<Rightarrow> bool" where
  "unsafe_ripgrep_option arg \<longleftrightarrow>
     arg \<in> set [lit ''--search-zip'', lit ''-z''] \<or>
     list_ex (\<lambda>opt. arg = opt \<or> starts_with (opt @ lit ''='') arg) [lit ''--pre'', lit ''--hostname-bin'']"

definition is_safe_to_call_with_exec :: "command \<Rightarrow> bool" where
  "is_safe_to_call_with_exec command =
     (case command of
        [] \<Rightarrow> False
      | cmd0 # args \<Rightarrow>
          (case executable_name_lookup_key cmd0 of
             None \<Rightarrow> False
           | Some key \<Rightarrow>
               if key \<in> set safe_names then True
               else if key = lit ''base64'' then \<not> list_ex unsafe_base64_option args
               else if key = lit ''find'' then \<not> list_ex (\<lambda>arg. arg \<in> set UNSAFE_FIND_OPTIONS) command
               else if key = lit ''rg'' then \<not> list_ex unsafe_ripgrep_option command
               else if key = lit ''git'' then is_safe_git_command command
               else if key = lit ''sed'' \<and> length command \<le> 4 \<and> vec_get 1 command = Some (lit ''-n'') \<and>
                       is_valid_sed_n_arg (vec_get 2 command) then True
               else False))"

definition is_known_safe_command :: "shell_parser \<Rightarrow> command \<Rightarrow> bool" where
  "is_known_safe_command plain_commands command =
     (let command = map (\<lambda>s. if s = lit ''zsh'' then lit ''bash'' else s) command
      in if is_safe_to_call_with_exec command then True
         else case plain_commands command of
           Some all_commands \<Rightarrow> all_commands \<noteq> [] \<and> list_all is_safe_to_call_with_exec all_commands
         | None \<Rightarrow> False)"

section \<open>What the safelist lets through\<close>













lemmas safety_eval = is_safe_to_call_with_exec_def is_safe_git_command_def find_git_subcommand_def
  executable_name_lookup_key_def path_file_name_def components_def inner_components_def named_component_def
  is_absolute_def slash_def dot_def dot_dot_def last_opt_def starts_with_def git_has_unsafe_global_option_def
  git_subcommand_args_are_read_only_def git_matches_option_pattern_def UNSAFE_GIT_GLOBAL_OPTIONS_def
  UNSAFE_GIT_SUBCOMMAND_OPTIONS_def git_branch_is_read_only_def branch_query_flag_def
  is_git_global_option_with_value_def is_git_global_option_with_inline_value_def rust_eval


lemma safe_not_dangerous: "is_safe_to_call_with_exec command \<Longrightarrow> \<not> is_dangerous_to_call_with_exec command"
proof (cases command)
  case (Cons cmd0 args)
  assume safe: "is_safe_to_call_with_exec command"
  have "cmd0 \<noteq> lit ''rm''" "cmd0 \<noteq> lit ''sudo''"
    using safe Cons by (auto simp: safety_eval safe_names_def)
  then show ?thesis using Cons by simp
qed simp

text \<open>The fourth word of a safe \<^verbatim>\<open>sed -n Np\<close> is not looked at: it may be an option with a script.\<close>

theorem safe_sed_accepts_script_option:
  "is_safe_to_call_with_exec [lit ''sed'', lit ''-n'', lit ''1p'', lit ''-ewout'']"
  by (simp add: safety_eval safe_names_def vec_get_def is_valid_sed_n_arg_def strip_suffix_def strip_prefix_def
      all_ascii_digits_def is_ascii_digit_def)

end
