(* ===== verification/Exec_Policy.thy ===== *)
theory Exec_Policy
  imports Command_Safety "HOL-Library.List_Lexorder"
begin

text \<open>
  The crate \<^verbatim>\<open>execpolicy\<close>: rules that allow, prompt for or forbid commands by their prefix, and
  network rules by host (\<^verbatim>\<open>decision.rs\<close>, \<^verbatim>\<open>rule.rs\<close>, \<^verbatim>\<open>policy.rs\<close>, \<^verbatim>\<open>executable_name.rs\<close> and the
  policy file updates of \<^verbatim>\<open>amend.rs\<close>). A multi map is an association list with the rules of each
  program in order; the iteration order over programs is that of the list. The only rules there
  are, are prefix rules; the trait they implement is the locale \<open>exec_rule\<close>.
\<close>

section \<open>Decisions and rules\<close>

datatype decision = Allow | Prompt | Forbidden

instantiation decision :: linorder
begin

definition less_eq_decision :: "decision \<Rightarrow> decision \<Rightarrow> bool" where
  "less_eq_decision a b \<longleftrightarrow> a = Allow \<or> b = Forbidden \<or> a = b"

definition less_decision :: "decision \<Rightarrow> decision \<Rightarrow> bool" where
  "less_decision a b \<longleftrightarrow> a \<noteq> b \<and> (a = Allow \<or> b = Forbidden)"

instance
proof
  fix x y z :: decision
  show "x < y \<longleftrightarrow> x \<le> y \<and> \<not> y \<le> x" by (cases x; cases y) (auto simp: less_eq_decision_def less_decision_def)
  show "x \<le> x" by (simp add: less_eq_decision_def)
  show "x \<le> y \<Longrightarrow> y \<le> z \<Longrightarrow> x \<le> z" by (auto simp: less_eq_decision_def)
  show "x \<le> y \<Longrightarrow> y \<le> x \<Longrightarrow> x = y" by (auto simp: less_eq_decision_def)
  show "x \<le> y \<or> y \<le> x" by (cases x; cases y) (auto simp: less_eq_decision_def)
qed

end

datatype pattern_token = Single rstr | Alts "rstr list"

fun token_matches :: "pattern_token \<Rightarrow> rstr \<Rightarrow> bool" where
  "token_matches (Single expected) token \<longleftrightarrow> expected = token"
| "token_matches (Alts alternatives) token = list_ex (\<lambda>alt. alt = token) alternatives"

fun alternatives :: "pattern_token \<Rightarrow> rstr list" where
  "alternatives (Single expected) = [expected]"
| "alternatives (Alts alts) = alts"

record prefix_pattern =
  pattern_first :: rstr
  pattern_rest :: "pattern_token list"

fun tokens_match :: "pattern_token list \<Rightarrow> rstr list \<Rightarrow> bool" where
  "tokens_match (p # ps) (c # cs) = (if \<not> token_matches p c then False else tokens_match ps cs)"
| "tokens_match _ _ = True"

definition matches_prefix :: "prefix_pattern \<Rightarrow> command \<Rightarrow> command option" where
  "matches_prefix p cmd =
     (let pattern_length = length (pattern_rest p) + 1
      in if length cmd < pattern_length \<or> cmd ! 0 \<noteq> pattern_first p then None
         else if \<not> tokens_match (pattern_rest p) (take (pattern_length - 1) (drop 1 cmd)) then None
         else Some (take pattern_length cmd))"

datatype rule_match =
    PrefixRuleMatch (matched_prefix: command) (prefix_decision: decision)
      (resolved_program: "path_buf option") (match_justification: "rstr option")
  | HeuristicsRuleMatch command decision

fun match_decision :: "rule_match \<Rightarrow> decision" where
  "match_decision (PrefixRuleMatch _ d _ _) = d"
| "match_decision (HeuristicsRuleMatch _ d) = d"

fun with_resolved_program :: "path_buf \<Rightarrow> rule_match \<Rightarrow> rule_match" where
  "with_resolved_program program (PrefixRuleMatch p d _ j) = PrefixRuleMatch p d (Some program) j"
| "with_resolved_program program (HeuristicsRuleMatch c d) = HeuristicsRuleMatch c d"

record prefix_rule =
  pattern :: prefix_pattern
  rule_decision :: decision
  justification :: "rstr option"

definition rule_program :: "prefix_rule \<Rightarrow> rstr" where
  "rule_program r = pattern_first (pattern r)"

definition rule_matches :: "prefix_rule \<Rightarrow> command \<Rightarrow> rule_match option" where
  "rule_matches r cmd =
     map_option (\<lambda>p. PrefixRuleMatch p (rule_decision r) None (justification r))
       (matches_prefix (pattern r) cmd)"

record text_position =
  line :: nat
  column :: nat

record error_location =
  location_path :: rstr
  range_start :: text_position
  range_end :: text_position

text \<open>
  Errors name the rules and matches themselves where the code keeps their debug rendering. An
  error inside a rules file comes from the Starlark interpreter: either one of its own or one
  that a builtin returned.
\<close>

datatype policy_error =
    InvalidDecision rstr
  | InvalidPattern rstr
  | InvalidExample rstr
  | InvalidRule rstr
  | ExampleDidNotMatch "prefix_rule list" "rstr list" "error_location option"
  | ExampleDidMatch rule_match rstr "error_location option"
  | StarlarkError rstr
  | StarlarkBuiltin policy_error

fun with_location :: "error_location \<Rightarrow> policy_error \<Rightarrow> policy_error" where
  "with_location loc (ExampleDidNotMatch rules examples None) = ExampleDidNotMatch rules examples (Some loc)"
| "with_location loc (ExampleDidMatch rule example None) = ExampleDidMatch rule example (Some loc)"
| "with_location loc other = other"

definition decision_parse :: "rstr \<Rightarrow> policy_error + decision" where
  "decision_parse raw =
     (if raw = lit ''allow'' then Inr Allow
      else if raw = lit ''prompt'' then Inr Prompt
      else if raw = lit ''forbidden'' then Inr Forbidden
      else Inl (InvalidDecision raw))"

section \<open>Network rules\<close>

datatype network_rule_protocol = Http | Https | Socks5Tcp | Socks5Udp

definition protocol_parse :: "rstr \<Rightarrow> policy_error + network_rule_protocol" where
  "protocol_parse raw =
     (if raw = lit ''http'' then Inr Http
      else if raw \<in> set [lit ''https'', lit ''https_connect'', lit ''http-connect''] then Inr Https
      else if raw = lit ''socks5_tcp'' then Inr Socks5Tcp
      else if raw = lit ''socks5_udp'' then Inr Socks5Udp
      else Inl (InvalidRule (lit ''network_rule protocol must be one of http, https, socks5_tcp, socks5_udp (got '' @ raw @ lit '')'')))"

fun as_policy_string :: "network_rule_protocol \<Rightarrow> rstr" where
  "as_policy_string Http = lit ''http''"
| "as_policy_string Https = lit ''https''"
| "as_policy_string Socks5Tcp = lit ''socks5_tcp''"
| "as_policy_string Socks5Udp = lit ''socks5_udp''"

record network_rule =
  net_host :: rstr
  net_protocol :: network_rule_protocol
  net_decision :: decision
  net_justification :: "rstr option"

definition trim_end_matches :: "rchar \<Rightarrow> rstr \<Rightarrow> rstr" where
  "trim_end_matches c s = rev (dropWhile (\<lambda>x. x = c) (rev s))"

definition is_port :: "rstr \<Rightarrow> bool" where
  "is_port port \<longleftrightarrow> port \<noteq> [] \<and> list_all is_ascii_digit port"

text \<open>The host without brackets and without a port.\<close>

definition bare_host :: "rstr \<Rightarrow> rstr \<Rightarrow> policy_error + rstr" where
  "bare_host raw host =
     (case strip_prefix (lit ''['') host of
        Some stripped \<Rightarrow>
          (case split_once (chr CHR '']'') stripped of
             None \<Rightarrow> Inl (InvalidRule (lit ''network_rule host has an invalid bracketed IPv6 literal''))
           | Some (inside, rest) \<Rightarrow>
               (let port_ok = (case strip_prefix (lit '':'') rest of Some port \<Rightarrow> is_port port | None \<Rightarrow> False)
                in if rest \<noteq> [] \<and> \<not> port_ok
                   then Inl (InvalidRule (lit ''network_rule host contains an unsupported suffix: '' @ raw))
                   else Inr inside))
      | None \<Rightarrow>
          (case rsplit_once (chr CHR '':'') host of
             Some (candidate, port) \<Rightarrow>
               Inr (if length (filter (\<lambda>c. c = chr CHR '':'') host) = 1 \<and> candidate \<noteq> [] \<and> is_port port
                    then candidate else host)
           | None \<Rightarrow> Inr host))"

text \<open>A host that contains \<^verbatim>\<open>://\<close> contains a slash, so the test for the latter covers both.\<close>

definition normalize_network_rule_host :: "rstr \<Rightarrow> policy_error + rstr" where
  "normalize_network_rule_host raw =
     (let host = trim raw
      in if host = [] then Inl (InvalidRule (lit ''network_rule host cannot be empty''))
         else if chr CHR ''/'' \<in> set host \<or> chr CHR ''?'' \<in> set host \<or> chr CHR ''#'' \<in> set host then
           Inl (InvalidRule (lit ''network_rule host must be a hostname or IP literal (without scheme or path)''))
         else case bare_host raw host of
           Inl e \<Rightarrow> Inl e
         | Inr host \<Rightarrow>
             (let normalized = map to_ascii_lower (trim (trim_end_matches (chr CHR ''.'') host))
              in if normalized = [] then Inl (InvalidRule (lit ''network_rule host cannot be empty''))
                 else if chr CHR ''*'' \<in> set normalized then
                   Inl (InvalidRule (lit ''network_rule host must be a specific host; wildcards are not allowed''))
                 else if list_ex is_whitespace normalized then
                   Inl (InvalidRule (lit ''network_rule host cannot contain whitespace''))
                 else Inr normalized))"

section \<open>Policies\<close>

record match_options =
  resolve_host_executables :: bool

type_synonym rule_map = "(rstr \<times> prefix_rule list) list"

record policy =
  rules_by_program :: rule_map
  network_rules :: "network_rule list"
  host_executables_by_name :: "rstr \<rightharpoonup> path_buf list"

text \<open>The multi map.\<close>

fun multimap_insert :: "rstr \<Rightarrow> prefix_rule \<Rightarrow> rule_map \<Rightarrow> rule_map" where
  "multimap_insert k r [] = [(k, [r])]"
| "multimap_insert k r ((k', rs) # m) =
     (if k' = k then (k', rs @ [r]) # m else (k', rs) # multimap_insert k r m)"

definition policy_empty :: policy where
  "policy_empty = \<lparr>rules_by_program = [], network_rules = [], host_executables_by_name = Map.empty\<rparr>"

fun render_pattern_token :: "pattern_token \<Rightarrow> rstr" where
  "render_pattern_token (Single v) = v"
| "render_pattern_token (Alts alts) = lit ''['' @ join_with (lit ''|'') alts @ lit '']''"

definition rule_prefix :: "prefix_rule \<Rightarrow> command" where
  "rule_prefix r = pattern_first (pattern r) # map render_pattern_token (pattern_rest (pattern r))"

definition get_allowed_prefixes :: "policy \<Rightarrow> command list" where
  "get_allowed_prefixes p =
     remdups_adj (sort (concat (map (\<lambda>(program, rules).
       map rule_prefix (filter (\<lambda>r. rule_decision r = Allow) rules)) (rules_by_program p))))"

definition add_prefix_rule :: "command \<Rightarrow> decision \<Rightarrow> policy \<Rightarrow> policy_error + policy" where
  "add_prefix_rule prefix d p =
     (case prefix of
        [] \<Rightarrow> Inl (InvalidPattern (lit ''prefix cannot be empty''))
      | first_token # rest \<Rightarrow>
          (let rule = \<lparr>pattern = \<lparr>pattern_first = first_token, pattern_rest = map Single rest\<rparr>,
                       rule_decision = d, justification = None\<rparr>
           in Inr (p\<lparr>rules_by_program := multimap_insert first_token rule (rules_by_program p)\<rparr>)))"

definition add_network_rule ::
    "rstr \<Rightarrow> network_rule_protocol \<Rightarrow> decision \<Rightarrow> rstr option \<Rightarrow> policy \<Rightarrow> policy_error + policy" where
  "add_network_rule host protocol d just p =
     (case normalize_network_rule_host host of
        Inl e \<Rightarrow> Inl e
      | Inr host \<Rightarrow>
          if just \<noteq> None \<and> trim (the just) = [] then Inl (InvalidRule (lit ''justification cannot be empty''))
          else Inr (p\<lparr>network_rules := network_rules p @
                 [\<lparr>net_host = host, net_protocol = protocol, net_decision = d, net_justification = just\<rparr>]\<rparr>))"

definition set_host_executable_paths :: "rstr \<Rightarrow> path_buf list \<Rightarrow> policy \<Rightarrow> policy" where
  "set_host_executable_paths name paths p =
     p\<lparr>host_executables_by_name := (host_executables_by_name p)(name \<mapsto> paths)\<rparr>"

definition merge_overlay :: "policy \<Rightarrow> policy \<Rightarrow> policy" where
  "merge_overlay p overlay =
     \<lparr>rules_by_program =
        fold (\<lambda>(program, rules). fold (multimap_insert program) rules) (rules_by_program overlay) (rules_by_program p),
      network_rules = network_rules p @ network_rules overlay,
      host_executables_by_name = host_executables_by_name p ++ host_executables_by_name overlay\<rparr>"

definition upsert_domain :: "rstr list \<Rightarrow> rstr \<Rightarrow> rstr list" where
  "upsert_domain entries host = filter (\<lambda>entry. entry \<noteq> host) entries @ [host]"

definition domain_step :: "network_rule \<Rightarrow> rstr list \<times> rstr list \<Rightarrow> rstr list \<times> rstr list" where
  "domain_step rule s =
     (case s of (allowed, denied) \<Rightarrow>
        (case net_decision rule of
           Allow \<Rightarrow> (upsert_domain allowed (net_host rule), filter (\<lambda>entry. entry \<noteq> net_host rule) denied)
         | Forbidden \<Rightarrow> (filter (\<lambda>entry. entry \<noteq> net_host rule) allowed, upsert_domain denied (net_host rule))
         | Prompt \<Rightarrow> (allowed, denied)))"

definition compiled_network_domains :: "policy \<Rightarrow> rstr list \<times> rstr list" where
  "compiled_network_domains p = fold domain_step (network_rules p) ([], [])"

text \<open>
  Resolving a program name needs the home and the current directory of the process, if they
  can be found.
\<close>

record path_env =
  env_home :: "path_buf option"
  env_cwd :: "path_buf option"

definition absolutize :: "path_env \<Rightarrow> path_buf \<Rightarrow> path_buf option" where
  "absolutize env path =
     (if is_absolute path then Some (normalize_path path)
      else map_option (absolutize_from path) (env_cwd env))"

definition from_absolute_path :: "path_env \<Rightarrow> path_buf \<Rightarrow> path_buf option" where
  "from_absolute_path env path = absolutize env (maybe_expand_home_directory (env_home env) path)"

definition executable_path_lookup_key :: "path_buf \<Rightarrow> rstr option" where
  "executable_path_lookup_key path = path_file_name path"

definition match_exact_rules :: "policy \<Rightarrow> command \<Rightarrow> rule_match list option" where
  "match_exact_rules p cmd =
     (case cmd of
        [] \<Rightarrow> None
      | first # _ \<Rightarrow>
          Some (case map_of (rules_by_program p) first of
                  Some rules \<Rightarrow> List.map_filter (\<lambda>rule. rule_matches rule cmd) rules
                | None \<Rightarrow> []))"

definition match_host_executable_rules :: "path_env \<Rightarrow> policy \<Rightarrow> command \<Rightarrow> rule_match list" where
  "match_host_executable_rules env p cmd =
     (case cmd of
        [] \<Rightarrow> []
      | first # args \<Rightarrow>
          (case from_absolute_path env first of
             None \<Rightarrow> []
           | Some program \<Rightarrow>
               (case executable_path_lookup_key program of
                  None \<Rightarrow> []
                | Some basename \<Rightarrow>
                    (case map_of (rules_by_program p) basename of
                       None \<Rightarrow> []
                     | Some rules \<Rightarrow>
                         if (case host_executables_by_name p basename of
                               Some paths \<Rightarrow> \<not> list_ex (\<lambda>path. path = program) paths
                             | None \<Rightarrow> False)
                         then []
                         else map (with_resolved_program program)
                                (List.map_filter (\<lambda>rule. rule_matches rule (basename # args)) rules)))))"

definition matches_for_command_with_options ::
    "path_env \<Rightarrow> policy \<Rightarrow> command \<Rightarrow> (command \<Rightarrow> decision) option \<Rightarrow> match_options \<Rightarrow> rule_match list" where
  "matches_for_command_with_options env p cmd heuristics_fallback options =
     (let exact = match_exact_rules p cmd;
          matched_rules =
            (if exact \<noteq> None \<and> the exact \<noteq> [] then the exact
             else if resolve_host_executables options then match_host_executable_rules env p cmd
             else [])
      in case heuristics_fallback of
           Some fallback \<Rightarrow>
             (if matched_rules = [] then [HeuristicsRuleMatch cmd (fallback cmd)] else matched_rules)
         | None \<Rightarrow> matched_rules)"

definition default_options :: match_options where
  "default_options = \<lparr>resolve_host_executables = False\<rparr>"

definition matches_for_command ::
    "path_env \<Rightarrow> policy \<Rightarrow> command \<Rightarrow> (command \<Rightarrow> decision) option \<Rightarrow> rule_match list" where
  "matches_for_command env p cmd heuristics_fallback =
     matches_for_command_with_options env p cmd heuristics_fallback default_options"

record evaluation =
  eval_decision :: decision
  matched_rules :: "rule_match list"

fun is_heuristics :: "rule_match \<Rightarrow> bool" where
  "is_heuristics (HeuristicsRuleMatch _ _) = True"
| "is_heuristics (PrefixRuleMatch _ _ _ _) = False"

definition evaluation_is_match :: "evaluation \<Rightarrow> bool" where
  "evaluation_is_match e = list_ex (\<lambda>m. \<not> is_heuristics m) (matched_rules e)"

text \<open>No matches are a panic: \<open>None\<close>.\<close>

definition from_matches :: "rule_match list \<Rightarrow> evaluation option" where
  "from_matches ms =
     (case map match_decision ms of
        [] \<Rightarrow> None
      | d # ds \<Rightarrow> Some \<lparr>eval_decision = foldl max d ds, matched_rules = ms\<rparr>)"

definition check_with_options ::
    "path_env \<Rightarrow> policy \<Rightarrow> command \<Rightarrow> (command \<Rightarrow> decision) \<Rightarrow> match_options \<Rightarrow> evaluation option" where
  "check_with_options env p cmd fallback options =
     from_matches (matches_for_command_with_options env p cmd (Some fallback) options)"

definition check ::
    "path_env \<Rightarrow> policy \<Rightarrow> command \<Rightarrow> (command \<Rightarrow> decision) \<Rightarrow> evaluation option" where
  "check env p cmd fallback =
     from_matches (matches_for_command_with_options env p cmd (Some fallback) default_options)"

definition check_multiple_with_options ::
    "path_env \<Rightarrow> policy \<Rightarrow> command list \<Rightarrow> (command \<Rightarrow> decision) \<Rightarrow> match_options \<Rightarrow> evaluation option" where
  "check_multiple_with_options env p commands fallback options =
     from_matches (concat (map (\<lambda>command.
       matches_for_command_with_options env p command (Some fallback) options) commands))"

definition check_multiple ::
    "path_env \<Rightarrow> policy \<Rightarrow> command list \<Rightarrow> (command \<Rightarrow> decision) \<Rightarrow> evaluation option" where
  "check_multiple env p commands fallback =
     check_multiple_with_options env p commands fallback default_options"

text \<open>
  The examples of a rule are checked against it when it is loaded; \<open>shlex_join\<close> renders a
  command, if it can.
\<close>

definition render_example :: "(command \<Rightarrow> rstr option) \<Rightarrow> command \<Rightarrow> rstr" where
  "render_example shlex_join example =
     (case shlex_join example of Some s \<Rightarrow> s | None \<Rightarrow> lit ''unable to render example'')"

definition validate_match_examples ::
    "(command \<Rightarrow> rstr option) \<Rightarrow> path_env \<Rightarrow> policy \<Rightarrow> prefix_rule list \<Rightarrow> command list \<Rightarrow> policy_error + unit" where
  "validate_match_examples shlex_join env p rules examples =
     (let options = \<lparr>resolve_host_executables = True\<rparr>;
          unmatched = filter (\<lambda>example. matches_for_command_with_options env p example None options = []) examples
      in if unmatched = [] then Inr ()
         else Inl (ExampleDidNotMatch rules (map (render_example shlex_join) unmatched) None))"

fun validate_not_match_examples ::
    "(command \<Rightarrow> rstr option) \<Rightarrow> path_env \<Rightarrow> policy \<Rightarrow> command list \<Rightarrow> policy_error + unit" where
  "validate_not_match_examples shlex_join env p [] = Inr ()"
| "validate_not_match_examples shlex_join env p (example # examples) =
     (case matches_for_command_with_options env p example None \<lparr>resolve_host_executables = True\<rparr> of
        rule # _ \<Rightarrow> Inl (ExampleDidMatch rule (render_example shlex_join example) None)
      | [] \<Rightarrow> validate_not_match_examples shlex_join env p examples)"

section \<open>Matching\<close>

text \<open>What a prefix pattern means.\<close>

definition accepts :: "prefix_pattern \<Rightarrow> command \<Rightarrow> bool" where
  "accepts p cmd \<longleftrightarrow>
     (\<exists>args others. cmd = pattern_first p # args @ others \<and> list_all2 token_matches (pattern_rest p) args)"

lemma tokens_match_iff: "length ps = length cs \<Longrightarrow> tokens_match ps cs \<longleftrightarrow> list_all2 token_matches ps cs"
  by (induction ps cs rule: tokens_match.induct) auto

lemma matches_prefix_Some_iff:
  "matches_prefix p cmd = Some m \<longleftrightarrow> accepts p cmd \<and> m = take (length (pattern_rest p) + 1) cmd"
proof (cases "length cmd < length (pattern_rest p) + 1")
  case True
  then show ?thesis by (auto simp: matches_prefix_def accepts_def dest: list_all2_lengthD)
next
  case False
  define n where "n = length (pattern_rest p)"
  obtain c cs where cmd: "cmd = c # cs" using False by (cases cmd) auto
  have len: "length (take n cs) = length (pattern_rest p)" using False cmd by (simp add: n_def)
  have "accepts p cmd \<longleftrightarrow> c = pattern_first p \<and> list_all2 token_matches (pattern_rest p) (take n cs)"
  proof
    assume "accepts p cmd"
    then obtain args others where a: "cmd = pattern_first p # args @ others" "list_all2 token_matches (pattern_rest p) args"
      by (auto simp: accepts_def)
    then have "take n cs = args" using cmd by (simp add: n_def list_all2_lengthD)
    then show "c = pattern_first p \<and> list_all2 token_matches (pattern_rest p) (take n cs)" using a cmd by simp
  next
    assume "c = pattern_first p \<and> list_all2 token_matches (pattern_rest p) (take n cs)"
    then show "accepts p cmd" unfolding accepts_def using cmd append_take_drop_id [of n cs] by metis
  qed
  then show ?thesis
    using False cmd tokens_match_iff [OF len [symmetric]] by (auto simp: matches_prefix_def n_def Let_def)
qed

lemma rule_matches_Some_iff:
  "rule_matches r cmd = Some m \<longleftrightarrow>
   accepts (pattern r) cmd \<and>
   m = PrefixRuleMatch (take (length (pattern_rest (pattern r)) + 1) cmd) (rule_decision r) None (justification r)"
  by (auto simp: rule_matches_def matches_prefix_Some_iff)

lemma rule_matches_None_iff: "rule_matches r cmd = None \<longleftrightarrow> \<not> accepts (pattern r) cmd"
  by (metis rule_matches_Some_iff not_None_eq)

lemma accepts_append: "accepts p cmd \<Longrightarrow> accepts p (cmd @ others)"
  unfolding accepts_def by (metis append.assoc append_Cons)

lemma accepts_first: "accepts p cmd \<Longrightarrow> \<exists>args. cmd = pattern_first p # args"
  by (auto simp: accepts_def)

locale exec_rule =
  fixes program :: "'r \<Rightarrow> rstr"
    and matches :: "'r \<Rightarrow> command \<Rightarrow> rule_match option"
    and verdict :: "'r \<Rightarrow> decision"
  assumes match_program: "matches r cmd = Some m \<Longrightarrow> \<exists>args. cmd = program r # args"
    and match_longer: "matches r cmd = Some m \<Longrightarrow> \<exists>m'. matches r (cmd @ others) = Some m'"
    and match_verdict: "matches r cmd = Some m \<Longrightarrow> match_decision m = verdict r \<and> \<not> is_heuristics m"
begin

lemma matched: "m \<in> set (List.map_filter (\<lambda>r. matches r cmd) rs) \<longleftrightarrow> (\<exists>r \<in> set rs. matches r cmd = Some m)"
  by (force simp: map_filter_def image_iff)

lemma matched_shape:
  "map match_decision (List.map_filter (\<lambda>r. matches r cmd) rs) = map verdict (filter (\<lambda>r. matches r cmd \<noteq> None) rs) \<and>
   list_all (\<lambda>m. \<not> is_heuristics m) (List.map_filter (\<lambda>r. matches r cmd) rs)"
proof (induction rs)
  case (Cons r rs)
  then show ?case using match_verdict [of r cmd] by (cases "matches r cmd") (simp_all add: map_filter_simps)
qed (simp add: map_filter_simps)

lemma matched_empty: "List.map_filter (\<lambda>r. matches r cmd) rs = [] \<longleftrightarrow> (\<forall>r \<in> set rs. matches r cmd = None)"
  using matched [of _ cmd rs] by (metis empty_iff empty_set ex_in_conv not_None_eq set_empty)

lemma matched_longer:
  "List.map_filter (\<lambda>r. matches r cmd) rs \<noteq> [] \<Longrightarrow> List.map_filter (\<lambda>r. matches r (cmd @ others)) rs \<noteq> []"
  unfolding matched_empty by (metis match_longer not_None_eq)

end

interpretation prefix_rules: exec_rule rule_program rule_matches rule_decision
proof
  show "\<exists>args. cmd = rule_program r # args" if "rule_matches r cmd = Some m" for r cmd m
    using that accepts_first by (auto simp: rule_matches_Some_iff rule_program_def)
  show "\<exists>m'. rule_matches r (cmd @ others) = Some m'" if "rule_matches r cmd = Some m" for r cmd m others
    using that accepts_append by (simp add: rule_matches_Some_iff)
  show "match_decision m = rule_decision r \<and> \<not> is_heuristics m" if "rule_matches r cmd = Some m" for r cmd m
    using that by (simp add: rule_matches_Some_iff)
qed

text \<open>The rules that apply to a command: those kept for its first word, or else those kept for its base name.\<close>

definition rules_for :: "policy \<Rightarrow> rstr \<Rightarrow> prefix_rule list" where
  "rules_for p program = (case map_of (rules_by_program p) program of Some rules \<Rightarrow> rules | None \<Rightarrow> [])"

definition exact_rules :: "policy \<Rightarrow> command \<Rightarrow> prefix_rule list" where
  "exact_rules p cmd = (case cmd of [] \<Rightarrow> [] | c # _ \<Rightarrow> filter (\<lambda>r. accepts (pattern r) cmd) (rules_for p c))"

text \<open>The base name and the resolved path under which the rules of a host executable are looked up.\<close>

definition host_name :: "path_env \<Rightarrow> policy \<Rightarrow> rstr \<Rightarrow> (rstr \<times> path_buf) option" where
  "host_name env p first =
     (case from_absolute_path env first of
        None \<Rightarrow> None
      | Some program \<Rightarrow>
          (case path_file_name program of
             None \<Rightarrow> None
           | Some base \<Rightarrow>
               (case host_executables_by_name p base of
                  Some paths \<Rightarrow> if program \<in> set paths then Some (base, program) else None
                | None \<Rightarrow> Some (base, program))))"

definition host_rules :: "path_env \<Rightarrow> policy \<Rightarrow> command \<Rightarrow> prefix_rule list" where
  "host_rules env p cmd =
     (case cmd of
        [] \<Rightarrow> []
      | c # args \<Rightarrow>
          (case host_name env p c of
             None \<Rightarrow> []
           | Some (base, _) \<Rightarrow> filter (\<lambda>r. accepts (pattern r) (base # args)) (rules_for p base)))"

definition applicable_rules :: "path_env \<Rightarrow> policy \<Rightarrow> match_options \<Rightarrow> command \<Rightarrow> prefix_rule list" where
  "applicable_rules env p options cmd =
     (if exact_rules p cmd \<noteq> [] then exact_rules p cmd
      else if resolve_host_executables options then host_rules env p cmd
      else [])"

lemma with_resolved_program_simps [simp]:
  "match_decision (with_resolved_program x m) = match_decision m" "is_heuristics (with_resolved_program x m) = is_heuristics m"
  by (cases m; simp)+

lemmas matched_rules_shape = prefix_rules.matched_shape [unfolded rule_matches_None_iff not_not]

lemma match_exact_eq:
  "map match_decision (the (match_exact_rules p cmd)) = map rule_decision (exact_rules p cmd)"
  "list_all (\<lambda>m. \<not> is_heuristics m) (the (match_exact_rules p cmd))"
  if "cmd \<noteq> []"
  using that matched_rules_shape [of cmd]
  by (auto simp: match_exact_rules_def exact_rules_def rules_for_def split: list.splits option.splits)

lemma match_host_eq:
  "map match_decision (match_host_executable_rules env p cmd) = map rule_decision (host_rules env p cmd)"
  "list_all (\<lambda>m. \<not> is_heuristics m) (match_host_executable_rules env p cmd)"
proof -
  have eq: "map match_decision (map (with_resolved_program x) ms) = map match_decision ms"
    "list_all (\<lambda>m. \<not> is_heuristics m) (map (with_resolved_program x) ms) \<longleftrightarrow> list_all (\<lambda>m. \<not> is_heuristics m) ms" for x ms
    by (simp_all add: list_all_iff)
  have "map match_decision (match_host_executable_rules env p cmd) = map rule_decision (host_rules env p cmd) \<and>
      list_all (\<lambda>m. \<not> is_heuristics m) (match_host_executable_rules env p cmd)"
    unfolding match_host_executable_rules_def host_rules_def host_name_def rules_for_def executable_path_lookup_key_def
    by (auto simp: eq matched_rules_shape list_ex_iff simp del: map_map split: list.splits option.splits)
  then show "map match_decision (match_host_executable_rules env p cmd) = map rule_decision (host_rules env p cmd)"
    "list_all (\<lambda>m. \<not> is_heuristics m) (match_host_executable_rules env p cmd)" by blast+
qed

lemma matches_decisions:
  "map match_decision (matches_for_command_with_options env p cmd fb options) =
   (case fb of
      Some f \<Rightarrow> if applicable_rules env p options cmd = [] then [f cmd] else map rule_decision (applicable_rules env p options cmd)
    | None \<Rightarrow> map rule_decision (applicable_rules env p options cmd))"
proof -
  define ms where "ms = (if match_exact_rules p cmd \<noteq> None \<and> the (match_exact_rules p cmd) \<noteq> [] then the (match_exact_rules p cmd)
    else if resolve_host_executables options then match_host_executable_rules env p cmd else [])"
  have "map match_decision ms = map rule_decision (applicable_rules env p options cmd)"
  proof (cases cmd)
    case Nil
    then show ?thesis
      by (simp add: ms_def match_exact_rules_def match_host_executable_rules_def applicable_rules_def exact_rules_def host_rules_def)
  next
    case (Cons c cs)
    then have ne: "cmd \<noteq> []" "match_exact_rules p cmd \<noteq> None" by (simp_all add: match_exact_rules_def)
    have "the (match_exact_rules p cmd) = [] \<longleftrightarrow> exact_rules p cmd = []"
      using match_exact_eq(1) [OF ne(1), of p] by (metis map_is_Nil_conv)
    then show ?thesis using ne match_exact_eq(1) [OF ne(1), of p] match_host_eq(1) [of env p cmd]
      by (simp add: ms_def applicable_rules_def)
  qed
  moreover from this have "ms = [] \<longleftrightarrow> applicable_rules env p options cmd = []" by (metis map_is_Nil_conv)
  ultimately show ?thesis
    unfolding matches_for_command_with_options_def Let_def ms_def [symmetric] by (simp split: option.splits)
qed

section \<open>The decision\<close>

lemma foldl_max_Max: "foldl max d ds = Max (set (d # ds))" for d :: decision
proof (induction ds arbitrary: d)
  case (Cons e ds)
  have "foldl max d (e # ds) = Max (insert (max d e) (set ds))" using Cons by simp
  also have "\<dots> = Max (insert d (insert e (set ds)))"
    by (cases "set ds = {}") (simp_all add: max.assoc)
  finally show ?case by simp
qed simp

lemma from_matches_Some:
  "ms \<noteq> [] \<Longrightarrow> from_matches ms = Some \<lparr>eval_decision = Max (match_decision ` set ms), matched_rules = ms\<rparr>"
  by (cases ms) (simp_all add: from_matches_def foldl_max_Max)

lemma matches_with_fallback:
  "matches_for_command_with_options env p cmd (Some f) options \<noteq> []"
  "match_decision ` set (matches_for_command_with_options env p cmd (Some f) options) =
   (if applicable_rules env p options cmd = [] then {f cmd} else rule_decision ` set (applicable_rules env p options cmd))"
proof -
  let ?ms = "matches_for_command_with_options env p cmd (Some f) options"
  have m: "map match_decision ?ms = (if applicable_rules env p options cmd = [] then [f cmd] else map rule_decision (applicable_rules env p options cmd))"
    using matches_decisions [of env p cmd "Some f" options] by simp
  then show "?ms \<noteq> []" by (metis map_is_Nil_conv list.distinct(1))
  have "match_decision ` set ?ms = set (map match_decision ?ms)" by simp
  also have "\<dots> = (if applicable_rules env p options cmd = [] then {f cmd} else rule_decision ` set (applicable_rules env p options cmd))"
    unfolding m by simp
  finally show "match_decision ` set ?ms = \<dots>" .
qed

lemma check_Some:
  "check_with_options env p cmd f options =
   Some \<lparr>eval_decision = (if applicable_rules env p options cmd = [] then f cmd
           else Max (rule_decision ` set (applicable_rules env p options cmd))),
         matched_rules = matches_for_command_with_options env p cmd (Some f) options\<rparr>"
  by (simp add: check_with_options_def from_matches_Some matches_with_fallback)

text \<open>
  C39: the strictest applicable rule decides. Checking a command always returns: its decision is
  the maximum of the decisions of the rules whose pattern is a prefix of the command, first
  under the program as written and, when asked for, under its base name; and the fallback
  decides only when there is none.
\<close>

theorem check_takes_strictest_rule:
  "\<exists>e. check_with_options env p cmd fallback options = Some e \<and>
     eval_decision e =
       (if applicable_rules env p options cmd = [] then fallback cmd
        else Max (rule_decision ` set (applicable_rules env p options cmd)))"
  by (simp add: check_Some)

section \<open>Overlays\<close>

definition rules_of :: "rule_map \<Rightarrow> rstr \<Rightarrow> prefix_rule list" where
  "rules_of m k = (case map_of m k of Some rs \<Rightarrow> rs | None \<Rightarrow> [])"

lemma rules_for_eq: "rules_for p k = rules_of (rules_by_program p) k"
  by (simp add: rules_for_def rules_of_def)

lemma rules_of_insert: "rules_of (multimap_insert k r m) j = rules_of m j @ (if j = k then [r] else [])"
  by (induction k r m rule: multimap_insert.induct) (auto simp: rules_of_def)

lemma rules_of_inserts: "rules_of (fold (multimap_insert k) rs m) j = rules_of m j @ (if j = k then rs else [])"
  by (induction rs arbitrary: m) (simp_all add: rules_of_insert)

lemma rules_of_overlay:
  "distinct (map fst overlay) \<Longrightarrow>
   rules_of (fold (\<lambda>(program, rules). fold (multimap_insert program) rules) overlay m) j = rules_of m j @ rules_of overlay j"
proof (induction overlay arbitrary: m)
  case (Cons e overlay)
  obtain k rs where e: "e = (k, rs)" by force
  have "map_of overlay k = None" using Cons.prems e by (simp add: map_of_eq_None_iff)
  then have k: "rules_of (e # overlay) j = (if j = k then rs else []) @ rules_of overlay j"
    by (simp add: rules_of_def e)
  have "rules_of (fold (\<lambda>(program, rules). fold (multimap_insert program) rules) (e # overlay) m) j =
      rules_of (fold (multimap_insert k) rs m) j @ rules_of overlay j"
    using Cons.IH [of "fold (multimap_insert k) rs m"] Cons.prems e by simp
  then show ?case unfolding k rules_of_inserts by simp
qed (simp add: rules_of_def)

lemma merge_overlay_rules:
  "distinct (map fst (rules_by_program overlay)) \<Longrightarrow> rules_for (merge_overlay p overlay) k = rules_for p k @ rules_for overlay k"
  by (simp add: rules_for_eq merge_overlay_def rules_of_overlay)

lemma overlay_exact_rules:
  assumes "distinct (map fst (rules_by_program overlay))" "r \<in> set (exact_rules overlay cmd)"
  shows "r \<in> set (exact_rules (merge_overlay p overlay) cmd)"
  using assms(2) merge_overlay_rules [OF assms(1), of p] by (auto simp: exact_rules_def split: list.splits)

lemma exact_rule_bounds:
  assumes "r \<in> set (exact_rules p cmd)"
  shows "\<exists>e. check_with_options env p cmd fallback options = Some e \<and> rule_decision r \<le> eval_decision e"
proof -
  have "applicable_rules env p options cmd = exact_rules p cmd" using assms by (auto simp: applicable_rules_def)
  then show ?thesis using assms by (auto simp: check_Some intro: Max_ge)
qed

text \<open>
  An overlay rule stays in force: whatever the base policy contains, a rule of the overlay
  that applies to the program as it is written makes the decision of the merged policy at least
  as strict as its own.
\<close>

theorem overlay_rule_stays_in_force:
  assumes "distinct (map fst (rules_by_program overlay))" "r \<in> set (exact_rules overlay cmd)"
  shows "\<exists>e. check_with_options env (merge_overlay p overlay) cmd fallback options = Some e \<and>
    rule_decision r \<le> eval_decision e"
  using exact_rule_bounds [OF overlay_exact_rules [OF assms]] .

definition demo_forbid :: prefix_rule where
  "demo_forbid = \<lparr>pattern = \<lparr>pattern_first = lit ''git'', pattern_rest = []\<rparr>, rule_decision = Forbidden, justification = None\<rparr>"

definition demo_allow :: prefix_rule where
  "demo_allow = \<lparr>pattern = \<lparr>pattern_first = lit ''/bin/git'', pattern_rest = []\<rparr>, rule_decision = Allow, justification = None\<rparr>"

definition demo_requirements :: policy where
  "demo_requirements = policy_empty\<lparr>rules_by_program := [(lit ''git'', [demo_forbid])]\<rparr>"

definition demo_user :: policy where
  "demo_user = policy_empty\<lparr>rules_by_program := [(lit ''/bin/git'', [demo_allow])]\<rparr>"

definition demo_env :: path_env where
  "demo_env = \<lparr>env_home = None, env_cwd = None\<rparr>"

lemma demo_exact: "exact_rules demo_requirements [lit ''git'', lit ''push''] = [demo_forbid]"
  by (simp add: exact_rules_def rules_for_def demo_requirements_def policy_empty_def demo_forbid_def accepts_def)

theorem overlay_rule_stays_in_force_witness:
  "\<exists>e. check_with_options demo_env (merge_overlay demo_user demo_requirements) [lit ''git'', lit ''push''] (\<lambda>_. Allow) default_options = Some e \<and>
    rule_decision demo_forbid \<le> eval_decision e"
proof (rule overlay_rule_stays_in_force)
  show "distinct (map fst (rules_by_program demo_requirements))" by (simp add: demo_requirements_def)
  show "demo_forbid \<in> set (exact_rules demo_requirements [lit ''git'', lit ''push''])" by (simp add: demo_exact)
qed

text \<open>
  But a rule of the base policy for the full path of a program hides every overlay rule for its
  base name: the overlay alone forbids the command, the merged policy allows it.
\<close>

lemma demo_host: "host_name demo_env p (lit ''/bin/git'') =
    (case host_executables_by_name p (lit ''git'') of
       Some paths \<Rightarrow> if lit ''/bin/git'' \<in> set paths then Some (lit ''git'', lit ''/bin/git'') else None
     | None \<Rightarrow> Some (lit ''git'', lit ''/bin/git''))"
  by (simp add: host_name_def from_absolute_path_def absolutize_def demo_env_def maybe_expand_home_directory_def
      normalize_path_def path_push_def path_file_name_def components_def inner_components_def named_component_def
      is_absolute_def slash_def dot_def dot_dot_def last_opt_def starts_with_def rust_eval split: option.splits)

theorem exact_rule_hides_overlay:
  "map_option eval_decision (check_with_options demo_env demo_requirements [lit ''/bin/git'', lit ''push''] (\<lambda>_. Allow)
     \<lparr>resolve_host_executables = True\<rparr>) = Some Forbidden \<and>
   map_option eval_decision (check_with_options demo_env (merge_overlay demo_user demo_requirements) [lit ''/bin/git'', lit ''push'']
     (\<lambda>_. Allow) \<lparr>resolve_host_executables = True\<rparr>) = Some Allow"
  by (simp add: check_Some applicable_rules_def exact_rules_def host_rules_def demo_host rules_for_def merge_overlay_def
      demo_requirements_def demo_user_def policy_empty_def demo_forbid_def demo_allow_def accepts_def)

section \<open>Network domains\<close>

text \<open>The last rule for a host that allows or forbids it.\<close>

definition last_word :: "network_rule list \<Rightarrow> rstr \<Rightarrow> decision option" where
  "last_word rules host =
     map_option net_decision (last_opt (filter (\<lambda>r. net_host r = host \<and> net_decision r \<noteq> Prompt) rules))"

lemma last_word_snoc:
  "last_word (rules @ [r]) host =
   (if net_host r = host \<and> net_decision r \<noteq> Prompt then Some (net_decision r) else last_word rules host)"
  by (simp add: last_word_def)

text \<open>
  The compiled domain lists say what the rules last said. A host is in the allowed list
  exactly when the last rule that allows or forbids it allows it, in the denied list exactly
  when that rule forbids it, and no list names a host twice.
\<close>

theorem compiled_network_domains_last_word:
  "\<exists>allowed denied. compiled_network_domains p = (allowed, denied) \<and> distinct allowed \<and> distinct denied \<and>
     set allowed = {host. last_word (network_rules p) host = Some Allow} \<and>
     set denied = {host. last_word (network_rules p) host = Some Forbidden}"
  unfolding compiled_network_domains_def
proof (induction "network_rules p" arbitrary: p rule: rev_induct)
  case Nil
  then show ?case by (simp add: last_word_def)
next
  case (snoc r rules)
  obtain allowed denied where s: "fold domain_step rules ([], []) = (allowed, denied)" "distinct allowed" "distinct denied"
    "set allowed = {host. last_word rules host = Some Allow}" "set denied = {host. last_word rules host = Some Forbidden}"
    using snoc.hyps(1) [of "p\<lparr>network_rules := rules\<rparr>"] by auto
  then show ?case
    unfolding snoc.hyps(2) [symmetric]
    by (cases "net_decision r") (auto simp: domain_step_def upsert_domain_def last_word_snoc split: if_splits)
qed

section \<open>Hosts\<close>

text \<open>A normalised host is not always normalised to itself: a port can appear when a final dot goes.\<close>

theorem normalize_host_not_idempotent:
  "normalize_network_rule_host (lit ''a:80.'') = Inr (lit ''a:80'') \<and>
   normalize_network_rule_host (lit ''a:80'') = Inr (lit ''a'')"
  by (simp add: normalize_network_rule_host_def bare_host_def rsplit_once_def rposition_def strip_prefix_def
      trim_defs is_whitespace_def trim_end_matches_def to_ascii_lower_def is_port_def is_ascii_digit_def rust_eval)

end
