(* ===== verification/Policy_Sources.thy ===== *)
theory Policy_Sources
  imports Exec_Policy
begin

text \<open>
  Where the exec policy comes from: the builtins of rules files (\<^verbatim>\<open>execpolicy/src/parser.rs\<close>),
  the rules of \<^verbatim>\<open>requirements.toml\<close> (\<^verbatim>\<open>config/src/requirements_exec_policy.rs\<close>), and loading both
  (\<^verbatim>\<open>core/src/exec_policy.rs\<close>). The
  Starlark interpreter is a parameter: it turns a file into the calls of builtins that it
  makes and the error that ends it, if one does.
\<close>

text \<open>Collecting results stops at the first error.\<close>

fun collect_results :: "('e + 'a) list \<Rightarrow> 'e + 'a list" where
  "collect_results [] = Inr []"
| "collect_results (Inl e # rs) = Inl e"
| "collect_results (Inr x # rs) = (case collect_results rs of Inl e \<Rightarrow> Inl e | Inr xs \<Rightarrow> Inr (x # xs))"

lemma collect_results_map_Inr [simp]: "collect_results (map Inr xs) = Inr xs"
  by (induction xs) simp_all

lemma collect_results_Inr_iff: "collect_results rs = Inr xs \<longleftrightarrow> rs = map Inr xs"
proof
  show "rs = map Inr xs" if "collect_results rs = Inr xs"
    using that by (induction rs arbitrary: xs rule: collect_results.induct) (auto split: sum.splits)
qed simp

section \<open>Rules from builtins\<close>

datatype starlark_value = StringValue rstr | ListValue "starlark_value list" | OtherValue rstr

fun value_type :: "starlark_value \<Rightarrow> rstr" where
  "value_type (StringValue _) = lit ''string''"
| "value_type (ListValue _) = lit ''list''"
| "value_type (OtherValue t) = t"

fun string_element :: "string \<Rightarrow> (rstr \<Rightarrow> policy_error) \<Rightarrow> starlark_value \<Rightarrow> policy_error + rstr" where
  "string_element message error (StringValue s) = Inr s"
| "string_element message error value = Inl (error (lit message @ value_type value @ lit '')''))"

fun parse_pattern_token :: "starlark_value \<Rightarrow> policy_error + pattern_token" where
  "parse_pattern_token (StringValue s) = Inr (Single s)"
| "parse_pattern_token (ListValue vs) =
     (case collect_results (map (string_element ''pattern alternative must be a string (got '' InvalidPattern) vs) of
        Inl e \<Rightarrow> Inl e
      | Inr [] \<Rightarrow> Inl (InvalidPattern (lit ''pattern alternatives cannot be empty''))
      | Inr [single] \<Rightarrow> Inr (Single single)
      | Inr tokens \<Rightarrow> Inr (Alts tokens))"
| "parse_pattern_token value =
     Inl (InvalidPattern (lit ''pattern element must be a string or list of strings (got '' @ value_type value @ lit '')''))"

definition parse_pattern :: "starlark_value list \<Rightarrow> policy_error + pattern_token list" where
  "parse_pattern items =
     (case collect_results (map parse_pattern_token items) of
        Inl e \<Rightarrow> Inl e
      | Inr tokens \<Rightarrow>
          if tokens = [] then Inl (InvalidPattern (lit ''pattern cannot be empty'')) else Inr tokens)"

definition parse_string_example :: "(rstr \<Rightarrow> command option) \<Rightarrow> rstr \<Rightarrow> policy_error + command" where
  "parse_string_example shlex_split raw =
     (case shlex_split raw of
        None \<Rightarrow> Inl (InvalidExample (lit ''example string has invalid shell syntax''))
      | Some tokens \<Rightarrow>
          if tokens = [] then Inl (InvalidExample (lit ''example cannot be an empty string'')) else Inr tokens)"

definition parse_list_example :: "starlark_value list \<Rightarrow> policy_error + command" where
  "parse_list_example vs =
     (case collect_results (map (string_element ''example tokens must be strings (got '' InvalidExample) vs) of
        Inl e \<Rightarrow> Inl e
      | Inr tokens \<Rightarrow>
          if tokens = [] then Inl (InvalidExample (lit ''example cannot be an empty list'')) else Inr tokens)"

fun parse_example :: "(rstr \<Rightarrow> command option) \<Rightarrow> starlark_value \<Rightarrow> policy_error + command" where
  "parse_example shlex_split (StringValue raw) = parse_string_example shlex_split raw"
| "parse_example shlex_split (ListValue vs) = parse_list_example vs"
| "parse_example shlex_split value =
     Inl (InvalidExample (lit ''example must be a string or list of strings (got '' @ value_type value @ lit '')''))"

definition parse_examples ::
    "(rstr \<Rightarrow> command option) \<Rightarrow> starlark_value list option \<Rightarrow> policy_error + command list" where
  "parse_examples shlex_split examples =
     (case examples of
        None \<Rightarrow> Inr []
      | Some items \<Rightarrow> collect_results (map (parse_example shlex_split) items))"

definition parse_literal_absolute_path :: "path_env \<Rightarrow> rstr \<Rightarrow> policy_error + path_buf" where
  "parse_literal_absolute_path env raw =
     (if \<not> is_absolute raw then Inl (InvalidRule (lit ''host_executable paths must be absolute (got '' @ raw @ lit '')''))
      else case from_absolute_path env raw of
        Some path \<Rightarrow> Inr path
      | None \<Rightarrow> Inl (InvalidRule (lit ''invalid absolute path `'' @ raw @ lit ''`'')))"

definition validate_host_executable_name :: "rstr \<Rightarrow> policy_error + unit" where
  "validate_host_executable_name name =
     (if name = [] then Inl (InvalidRule (lit ''host_executable name cannot be empty''))
      else if length (components name) \<noteq> 1 \<or> path_file_name name \<noteq> Some name then
        Inl (InvalidRule (lit ''host_executable name must be a bare executable name (got '' @ name @ lit '')''))
      else Inr ())"

definition parse_network_rule_decision :: "rstr \<Rightarrow> policy_error + decision" where
  "parse_network_rule_decision raw = (if raw = lit ''deny'' then Inr Forbidden else decision_parse raw)"

definition parse_justification :: "rstr option \<Rightarrow> policy_error + rstr option" where
  "parse_justification just =
     (case just of
        Some raw \<Rightarrow> if trim raw = [] then Inl (InvalidRule (lit ''justification cannot be empty'')) else Inr (Some raw)
      | None \<Rightarrow> Inr None)"

record pending_example_validation =
  pending_rules :: "prefix_rule list"
  pending_matches :: "command list"
  pending_not_matches :: "command list"
  pending_location :: "error_location option"

record policy_builder = policy +
  pending_example_validations :: "pending_example_validation list"

definition builder_new :: policy_builder where
  "builder_new = \<lparr>rules_by_program = [], network_rules = [], host_executables_by_name = Map.empty,
     pending_example_validations = []\<rparr>"

definition builder_build :: "policy_builder \<Rightarrow> policy" where
  "builder_build b =
     \<lparr>rules_by_program = rules_by_program b, network_rules = network_rules b,
      host_executables_by_name = host_executables_by_name b\<rparr>"

definition add_rule :: "prefix_rule \<Rightarrow> policy_builder \<Rightarrow> policy_builder" where
  "add_rule r b = b\<lparr>rules_by_program := multimap_insert (rule_program r) r (rules_by_program b)\<rparr>"

definition rules_of_tokens :: "pattern_token list \<Rightarrow> decision \<Rightarrow> rstr option \<Rightarrow> prefix_rule list" where
  "rules_of_tokens tokens d just =
     (case tokens of
        [] \<Rightarrow> []
      | first_token # rest \<Rightarrow>
          map (\<lambda>head. \<lparr>pattern = \<lparr>pattern_first = head, pattern_rest = rest\<rparr>, rule_decision = d, justification = just\<rparr>)
            (alternatives first_token))"

datatype builtin_call =
    PrefixRuleCall "starlark_value list" "rstr option" "starlark_value list option" "starlark_value list option"
      "rstr option" "error_location option"
  | NetworkRuleCall rstr rstr rstr "rstr option"
  | HostExecutableCall rstr "starlark_value list"

definition prefix_rule_builtin ::
    "(rstr \<Rightarrow> command option) \<Rightarrow> starlark_value list \<Rightarrow> rstr option \<Rightarrow> starlark_value list option \<Rightarrow>
     starlark_value list option \<Rightarrow> rstr option \<Rightarrow> error_location option \<Rightarrow> policy_builder \<Rightarrow> policy_error + policy_builder" where
  "prefix_rule_builtin shlex_split pat raw_decision matches not_matches just loc b =
     (case (case raw_decision of Some raw \<Rightarrow> decision_parse raw | None \<Rightarrow> Inr Allow) of
        Inl e \<Rightarrow> Inl e
      | Inr d \<Rightarrow>
     (case parse_justification just of
        Inl e \<Rightarrow> Inl e
      | Inr just \<Rightarrow>
     (case parse_pattern pat of
        Inl e \<Rightarrow> Inl e
      | Inr tokens \<Rightarrow>
     (case parse_examples shlex_split matches of
        Inl e \<Rightarrow> Inl e
      | Inr ms \<Rightarrow>
     (case parse_examples shlex_split not_matches of
        Inl e \<Rightarrow> Inl e
      | Inr nms \<Rightarrow>
          (let rules = rules_of_tokens tokens d just;
               b = b\<lparr>pending_example_validations := pending_example_validations b @
                 [\<lparr>pending_rules = rules, pending_matches = ms, pending_not_matches = nms, pending_location = loc\<rparr>]\<rparr>
           in Inr (fold add_rule rules b)))))))"

definition network_rule_builtin ::
    "rstr \<Rightarrow> rstr \<Rightarrow> rstr \<Rightarrow> rstr option \<Rightarrow> policy_builder \<Rightarrow> policy_error + policy_builder" where
  "network_rule_builtin host protocol raw_decision just b =
     (case protocol_parse protocol of
        Inl e \<Rightarrow> Inl e
      | Inr pr \<Rightarrow>
     (case parse_network_rule_decision raw_decision of
        Inl e \<Rightarrow> Inl e
      | Inr d \<Rightarrow>
     (case parse_justification just of
        Inl e \<Rightarrow> Inl e
      | Inr just \<Rightarrow>
     (case normalize_network_rule_host host of
        Inl e \<Rightarrow> Inl e
      | Inr h \<Rightarrow>
          Inr (b\<lparr>network_rules := network_rules b @
            [\<lparr>net_host = h, net_protocol = pr, net_decision = d, net_justification = just\<rparr>]\<rparr>)))))"

fun host_paths ::
    "path_env \<Rightarrow> rstr \<Rightarrow> starlark_value list \<Rightarrow> path_buf list \<Rightarrow> policy_error + path_buf list" where
  "host_paths env name [] parsed = Inr parsed"
| "host_paths env name (v # vs) parsed =
     (case string_element ''host_executable paths must be strings (got '' InvalidRule v of
        Inl e \<Rightarrow> Inl e
      | Inr raw \<Rightarrow>
          (case parse_literal_absolute_path env raw of
             Inl e \<Rightarrow> Inl e
           | Inr path \<Rightarrow>
               if executable_path_lookup_key path \<noteq> Some name then
                 Inl (InvalidRule (lit ''host_executable path `'' @ raw @ lit ''` must have basename `'' @ name @ lit ''`''))
               else host_paths env name vs (if path \<in> set parsed then parsed else parsed @ [path])))"

definition host_executable_builtin ::
    "path_env \<Rightarrow> rstr \<Rightarrow> starlark_value list \<Rightarrow> policy_builder \<Rightarrow> policy_error + policy_builder" where
  "host_executable_builtin env name paths b =
     (case validate_host_executable_name name of
        Inl e \<Rightarrow> Inl e
      | Inr _ \<Rightarrow>
          (case host_paths env name paths [] of
             Inl e \<Rightarrow> Inl e
           | Inr parsed \<Rightarrow>
               Inr (b\<lparr>host_executables_by_name := (host_executables_by_name b)(name \<mapsto> parsed)\<rparr>)))"

fun run_builtin ::
    "(rstr \<Rightarrow> command option) \<Rightarrow> path_env \<Rightarrow> builtin_call \<Rightarrow> policy_builder \<Rightarrow> policy_error + policy_builder" where
  "run_builtin shlex_split env (PrefixRuleCall pat d ms nms just loc) b =
     prefix_rule_builtin shlex_split pat d ms nms just loc b"
| "run_builtin shlex_split env (NetworkRuleCall host protocol d just) b = network_rule_builtin host protocol d just b"
| "run_builtin shlex_split env (HostExecutableCall name paths) b = host_executable_builtin env name paths b"

fun run_builtins ::
    "(rstr \<Rightarrow> command option) \<Rightarrow> path_env \<Rightarrow> builtin_call list \<Rightarrow> policy_builder \<Rightarrow> policy_error + policy_builder" where
  "run_builtins shlex_split env [] b = Inr b"
| "run_builtins shlex_split env (c # cs) b =
     (case run_builtin shlex_split env c b of
        Inl e \<Rightarrow> Inl (StarlarkBuiltin e)
      | Inr b \<Rightarrow> run_builtins shlex_split env cs b)"

definition attach_validation_location :: "error_location option \<Rightarrow> policy_error \<Rightarrow> policy_error" where
  "attach_validation_location loc e = (case loc of Some l \<Rightarrow> with_location l e | None \<Rightarrow> e)"

definition validate_pending ::
    "(command \<Rightarrow> rstr option) \<Rightarrow> path_env \<Rightarrow> policy_builder \<Rightarrow> pending_example_validation \<Rightarrow> policy_error + unit" where
  "validate_pending shlex_join env b v =
     (let p = \<lparr>rules_by_program = fold (\<lambda>r. multimap_insert (rule_program r) r) (pending_rules v) [],
               network_rules = [], host_executables_by_name = host_executables_by_name b\<rparr>
      in case validate_not_match_examples shlex_join env p (pending_not_matches v) of
           Inl e \<Rightarrow> Inl (attach_validation_location (pending_location v) e)
         | Inr _ \<Rightarrow>
             (case validate_match_examples shlex_join env p (pending_rules v) (pending_matches v) of
                Inl e \<Rightarrow> Inl (attach_validation_location (pending_location v) e)
              | Inr _ \<Rightarrow> Inr ()))"

definition validate_pending_examples_from ::
    "(command \<Rightarrow> rstr option) \<Rightarrow> path_env \<Rightarrow> nat \<Rightarrow> policy_builder \<Rightarrow> policy_error + unit" where
  "validate_pending_examples_from shlex_join env start b =
     (case collect_results (map (validate_pending shlex_join env b) (drop start (pending_example_validations b))) of
        Inl e \<Rightarrow> Inl e
      | Inr _ \<Rightarrow> Inr ())"

text \<open>The parameters: shlex, the interpreter, and the directories of the process.\<close>

record policy_env =
  shlex_split :: "rstr \<Rightarrow> command option"
  shlex_join :: "command \<Rightarrow> rstr option"
  starlark :: "rstr \<Rightarrow> rstr \<Rightarrow> builtin_call list \<times> rstr option"
  dirs :: path_env

definition parse_policy :: "policy_env \<Rightarrow> rstr \<Rightarrow> rstr \<Rightarrow> policy_builder \<Rightarrow> policy_error + policy_builder" where
  "parse_policy env policy_identifier contents b =
     (let pending_validation_count = length (pending_example_validations b);
          (calls, failure) = starlark env policy_identifier contents
      in case run_builtins (shlex_split env) (dirs env) calls b of
           Inl e \<Rightarrow> Inl e
         | Inr b' \<Rightarrow>
             (case failure of
                Some message \<Rightarrow> Inl (StarlarkError message)
              | None \<Rightarrow>
                  (case validate_pending_examples_from (shlex_join env) (dirs env) pending_validation_count b' of
                     Inl e \<Rightarrow> Inl e
                   | Inr _ \<Rightarrow> Inr b')))"

section \<open>Requirements\<close>

record requirements_token =
  req_token :: "rstr option"
  req_any_of :: "rstr list option"

datatype requirements_decision = ReqAllow | ReqPrompt | ReqForbidden

record requirements_rule =
  req_pattern :: "requirements_token list"
  req_decision :: "requirements_decision option"
  req_justification :: "rstr option"

datatype requirements_error =
    EmptyPrefixRules
  | EmptyPattern nat
  | InvalidPatternToken nat nat rstr
  | EmptyJustification nat
  | MissingDecision nat
  | AllowDecisionNotAllowed nat

fun as_decision :: "requirements_decision \<Rightarrow> decision" where
  "as_decision ReqAllow = Allow"
| "as_decision ReqPrompt = Prompt"
| "as_decision ReqForbidden = Forbidden"

definition req_pattern_token :: "nat \<Rightarrow> nat \<times> requirements_token \<Rightarrow> requirements_error + pattern_token" where
  "req_pattern_token rule_index it =
     (case it of (token_index, tok) \<Rightarrow>
        (case (req_token tok, req_any_of tok) of
           (Some single, None) \<Rightarrow>
             if trim single = [] then Inl (InvalidPatternToken rule_index token_index (lit ''token cannot be empty''))
             else Inr (Single single)
         | (None, Some alts) \<Rightarrow>
             if alts = [] then Inl (InvalidPatternToken rule_index token_index (lit ''any_of cannot be empty''))
             else if list_ex (\<lambda>alt. trim alt = []) alts then
               Inl (InvalidPatternToken rule_index token_index (lit ''any_of cannot include empty tokens''))
             else Inr (Alts alts)
         | (Some _, Some _) \<Rightarrow>
             Inl (InvalidPatternToken rule_index token_index (lit ''set either token or any_of, not both''))
         | (None, None) \<Rightarrow>
             Inl (InvalidPatternToken rule_index token_index (lit ''set either token or any_of''))))"

definition requirement_rules :: "nat \<Rightarrow> requirements_rule \<Rightarrow> requirements_error + prefix_rule list" where
  "requirement_rules rule_index r =
     (if req_justification r \<noteq> None \<and> trim (the (req_justification r)) = [] then Inl (EmptyJustification rule_index)
      else if req_pattern r = [] then Inl (EmptyPattern rule_index)
      else case collect_results (map (req_pattern_token rule_index) (enumerate 0 (req_pattern r))) of
        Inl e \<Rightarrow> Inl e
      | Inr tokens \<Rightarrow>
          (case req_decision r of
             Some ReqAllow \<Rightarrow> Inl (AllowDecisionNotAllowed rule_index)
           | Some d \<Rightarrow> Inr (rules_of_tokens tokens (as_decision d) (req_justification r))
           | None \<Rightarrow> Inl (MissingDecision rule_index)))"

fun requirements_loop :: "nat \<Rightarrow> requirements_rule list \<Rightarrow> rule_map \<Rightarrow> requirements_error + rule_map" where
  "requirements_loop rule_index [] m = Inr m"
| "requirements_loop rule_index (r # rs) m =
     (case requirement_rules rule_index r of
        Inl e \<Rightarrow> Inl e
      | Inr rules \<Rightarrow>
          requirements_loop (Suc rule_index) rs (fold (\<lambda>r. multimap_insert (rule_program r) r) rules m))"

definition to_policy :: "requirements_rule list \<Rightarrow> requirements_error + policy" where
  "to_policy prefix_rules =
     (if prefix_rules = [] then Inl EmptyPrefixRules
      else case requirements_loop 0 prefix_rules [] of
        Inl e \<Rightarrow> Inl e
      | Inr m \<Rightarrow> Inr (policy_empty\<lparr>rules_by_program := m\<rparr>))"

section \<open>Loading\<close>

datatype config_layer_source =
    Mdm
  | System path_buf
  | User path_buf
  | Project path_buf
  | SessionFlags
  | LegacyManagedConfigTomlFromFile
  | LegacyManagedConfigTomlFromMdm

fun config_folder :: "config_layer_source \<Rightarrow> path_buf option" where
  "config_folder Mdm = None"
| "config_folder (System file) = path_parent file"
| "config_folder (User file) = path_parent file"
| "config_folder (Project folder) = Some folder"
| "config_folder SessionFlags = None"
| "config_folder LegacyManagedConfigTomlFromFile = None"
| "config_folder LegacyManagedConfigTomlFromMdm = None"

record config_stack =
  layers :: "config_layer_source list"
  ignore_user_and_project_rules :: bool
  requirements_policy :: "policy option"

text \<open>Reading a directory: it is missing, unreadable, or lists entries any of which may fail.\<close>

datatype dir_listing = MissingDir | UnreadableDir | Entries "(path_buf \<times> bool) option list"

record rules_fs =
  list_dir :: "path_buf \<Rightarrow> dir_listing"
  read_text :: "path_buf \<Rightarrow> rstr option"

datatype exec_policy_error = ReadDir path_buf | ReadFile path_buf | ParsePolicy rstr policy_error

definition path_extension :: "path_buf \<Rightarrow> rstr option" where
  "path_extension p =
     (case path_file_name p of
        None \<Rightarrow> None
      | Some name \<Rightarrow>
          (case rposition (\<lambda>c. c = chr CHR ''.'') name of
             None \<Rightarrow> None
           | Some i \<Rightarrow> if i = 0 then None else Some (drop (Suc i) name)))"

definition collect_policy_files :: "rules_fs \<Rightarrow> path_buf \<Rightarrow> exec_policy_error + path_buf list" where
  "collect_policy_files fs dir =
     (case list_dir fs dir of
        MissingDir \<Rightarrow> Inr []
      | UnreadableDir \<Rightarrow> Inl (ReadDir dir)
      | Entries es \<Rightarrow>
          if None \<in> set es then Inl (ReadDir dir)
          else Inr (sort (map fst (filter (\<lambda>(path, is_file). path_extension path = Some (lit ''rules'') \<and> is_file)
                     (map the es)))))"

fun policy_paths :: "path_buf option \<Rightarrow> rules_fs \<Rightarrow> bool \<Rightarrow> config_layer_source list \<Rightarrow> exec_policy_error + path_buf list" where
  "policy_paths home fs ignore [] = Inr []"
| "policy_paths home fs ignore (layer # ls) =
     (if ignore \<and> (case layer of User _ \<Rightarrow> True | Project _ \<Rightarrow> True | _ \<Rightarrow> False) then policy_paths home fs ignore ls
      else case config_folder layer of
        None \<Rightarrow> policy_paths home fs ignore ls
      | Some folder \<Rightarrow>
          (case collect_policy_files fs (resolve_path_against_base home (lit ''rules'') folder) of
             Inl e \<Rightarrow> Inl e
           | Inr paths \<Rightarrow>
               (case policy_paths home fs ignore ls of Inl e \<Rightarrow> Inl e | Inr rest \<Rightarrow> Inr (paths @ rest))))"

definition parse_file ::
    "policy_env \<Rightarrow> rules_fs \<Rightarrow> path_buf \<Rightarrow> policy_builder \<Rightarrow> exec_policy_error + policy_builder" where
  "parse_file env fs path b =
     (case read_text fs path of
        None \<Rightarrow> Inl (ReadFile path)
      | Some contents \<Rightarrow>
          (case parse_policy env path contents b of Inl e \<Rightarrow> Inl (ParsePolicy path e) | Inr b \<Rightarrow> Inr b))"

fun parse_files ::
    "policy_env \<Rightarrow> rules_fs \<Rightarrow> path_buf list \<Rightarrow> policy_builder \<Rightarrow> exec_policy_error + policy_builder" where
  "parse_files env fs [] b = Inr b"
| "parse_files env fs (path # paths) b =
     (case parse_file env fs path b of Inl e \<Rightarrow> Inl e | Inr b \<Rightarrow> parse_files env fs paths b)"

definition load_exec_policy :: "policy_env \<Rightarrow> rules_fs \<Rightarrow> config_stack \<Rightarrow> exec_policy_error + policy" where
  "load_exec_policy env fs stack =
     (case policy_paths (env_home (dirs env)) fs (ignore_user_and_project_rules stack) (layers stack) of
        Inl e \<Rightarrow> Inl e
      | Inr paths \<Rightarrow>
          (case parse_files env fs paths builder_new of
             Inl e \<Rightarrow> Inl e
           | Inr b \<Rightarrow>
               (case requirements_policy stack of
                  None \<Rightarrow> Inr (builder_build b)
                | Some req \<Rightarrow> Inr (merge_overlay (builder_build b) req))))"

definition load_exec_policy_with_warning ::
    "policy_env \<Rightarrow> rules_fs \<Rightarrow> config_stack \<Rightarrow> exec_policy_error + policy \<times> exec_policy_error option" where
  "load_exec_policy_with_warning env fs stack =
     (case load_exec_policy env fs stack of
        Inr p \<Rightarrow> Inr (p, None)
      | Inl (ParsePolicy path e) \<Rightarrow> Inr (policy_empty, Some (ParsePolicy path e))
      | Inl e \<Rightarrow> Inl e)"

section \<open>Well-formed policies\<close>

text \<open>
  The rules are kept under their program, each program once; the paths of a host executable
  are normalized, absolute, distinct, and have its name.
\<close>

definition rules_wf :: "rule_map \<Rightarrow> bool" where
  "rules_wf m \<longleftrightarrow> distinct (map fst m) \<and> (\<forall>(k, rs) \<in> set m. rs \<noteq> [] \<and> (\<forall>r \<in> set rs. rule_program r = k))"

definition host_paths_ok :: "rstr \<Rightarrow> path_buf list \<Rightarrow> bool" where
  "host_paths_ok name paths \<longleftrightarrow>
     distinct paths \<and> (\<forall>p \<in> set paths. normalized_absolute p \<and> path_file_name p = Some name)"

definition hosts_wf :: "(rstr \<rightharpoonup> path_buf list) \<Rightarrow> bool" where
  "hosts_wf hosts \<longleftrightarrow> (\<forall>name paths. hosts name = Some paths \<longrightarrow> host_paths_ok name paths)"

definition policy_wf :: "'a policy_scheme \<Rightarrow> bool" where
  "policy_wf p \<longleftrightarrow> rules_wf (rules_by_program p) \<and> hosts_wf (host_executables_by_name p)"

lemma multimap_insert_keys: "fst ` set (multimap_insert k r m) = insert k (fst ` set m)"
  by (induction k r m rule: multimap_insert.induct) auto

lemma rules_wf_insert: "rules_wf m \<Longrightarrow> rule_program r = k \<Longrightarrow> rules_wf (multimap_insert k r m)"
  by (induction k r m rule: multimap_insert.induct) (auto simp: rules_wf_def multimap_insert_keys)

lemma rules_wf_inserts: "rules_wf m \<Longrightarrow> rules_wf (fold (\<lambda>r. multimap_insert (rule_program r) r) rs m)"
  by (induction rs arbitrary: m) (simp_all add: rules_wf_insert)

lemma rules_wf_overlay:
  "rules_wf m \<Longrightarrow> \<forall>(k, rs) \<in> set overlay. \<forall>r \<in> set rs. rule_program r = k \<Longrightarrow>
   rules_wf (fold (\<lambda>(program, rules). fold (multimap_insert program) rules) overlay m)"
proof (induction overlay arbitrary: m)
  case (Cons e overlay)
  have "rules_wf (fold (multimap_insert k) rs m)" if "\<forall>r \<in> set rs. rule_program r = k" for k rs
    using Cons.prems(1) that by (induction rs arbitrary: m) (simp_all add: rules_wf_insert)
  then show ?case using Cons by (cases e) auto
qed simp

lemma policy_wf_empty [simp]: "policy_wf policy_empty" "policy_wf builder_new"
  by (simp_all add: policy_wf_def rules_wf_def hosts_wf_def policy_empty_def builder_new_def)

lemma policy_wf_build: "policy_wf b \<Longrightarrow> policy_wf (builder_build b)"
  by (simp add: policy_wf_def builder_build_def)

lemma policy_wf_overlay: "policy_wf p \<Longrightarrow> policy_wf overlay \<Longrightarrow> policy_wf (merge_overlay p overlay)"
  unfolding policy_wf_def merge_overlay_def
  by (auto simp: hosts_wf_def rules_wf_def map_add_def split: option.splits intro!: rules_wf_overlay [unfolded rules_wf_def])

lemma policy_wf_add_prefix_rule: "policy_wf p \<Longrightarrow> add_prefix_rule prefix d p = Inr p' \<Longrightarrow> policy_wf p'"
  by (auto simp: add_prefix_rule_def policy_wf_def Let_def rule_program_def intro!: rules_wf_insert split: list.splits)

lemma policy_wf_add_network_rule: "policy_wf p \<Longrightarrow> add_network_rule host pr d just p = Inr p' \<Longrightarrow> policy_wf p'"
  by (auto simp: add_network_rule_def policy_wf_def split: sum.splits if_splits)

text \<open>A loop over fallible steps, which ends at the first failure.\<close>

locale fallible_loop =
  fixes step :: "'a \<Rightarrow> 's \<Rightarrow> 'e + 's"
    and run :: "'a list \<Rightarrow> 's \<Rightarrow> 'f + 's"
    and keeps :: "'s \<Rightarrow> bool"
  assumes run_Nil: "run [] s = Inr s"
    and run_Cons: "run (x # xs) s = Inr t \<longleftrightarrow> (\<exists>u. step x s = Inr u \<and> run xs u = Inr t)"
    and step_keeps: "keeps s \<Longrightarrow> step x s = Inr t \<Longrightarrow> keeps t"
begin

lemma run_keeps: "keeps s \<Longrightarrow> run xs s = Inr t \<Longrightarrow> keeps t"
  by (induction xs arbitrary: s) (auto simp: run_Nil run_Cons dest: step_keeps)

lemma run_append: "run (xs @ ys) s = Inr t \<longleftrightarrow> (\<exists>u. run xs s = Inr u \<and> run ys u = Inr t)"
  by (induction xs arbitrary: s) (auto simp: run_Nil run_Cons)

end

lemma add_rules_fields:
  "rules_by_program (fold add_rule rs b) = fold (\<lambda>r. multimap_insert (rule_program r) r) rs (rules_by_program b)"
  "host_executables_by_name (fold add_rule rs b) = host_executables_by_name b"
  "network_rules (fold add_rule rs b) = network_rules b"
  "pending_example_validations (fold add_rule rs b) = pending_example_validations b"
  by (induction rs arbitrary: b) (simp_all add: add_rule_def)

lemma parse_literal_normalized:
  "parse_literal_absolute_path env raw = Inr path \<Longrightarrow> normalized_absolute path"
proof -
  assume a: "parse_literal_absolute_path env raw = Inr path"
  then have abs: "is_absolute raw" and p: "from_absolute_path env raw = Some path"
    by (auto simp: parse_literal_absolute_path_def split: if_splits option.splits)
  have "maybe_expand_home_directory (env_home env) raw = raw"
    using abs by (cases raw) (auto simp: maybe_expand_home_directory_def strip_prefix_def starts_with_def slash_def rust_eval split: option.splits)
  then have "path = absolutize_from raw raw" using p abs
    by (simp add: from_absolute_path_def absolutize_def absolutize_from_def path_with_base_def)
  with abs show ?thesis by (simp only: absolutize_from_normalized)
qed

lemma host_paths_wf:
  "host_paths env name vs parsed = Inr paths \<Longrightarrow> host_paths_ok name parsed \<Longrightarrow> host_paths_ok name paths"
proof (induction vs arbitrary: parsed)
  case (Cons v vs)
  obtain path where path: "normalized_absolute path" "path_file_name path = Some name"
    and rest: "host_paths env name vs (if path \<in> set parsed then parsed else parsed @ [path]) = Inr paths"
    using Cons.prems(1)
    by (auto simp: executable_path_lookup_key_def dest: parse_literal_normalized split: sum.splits if_split_asm)
  show ?case by (rule Cons.IH [OF rest]) (use path Cons.prems(2) in \<open>simp add: host_paths_ok_def\<close>)
qed simp

lemma run_builtin_wf: "policy_wf b \<Longrightarrow> run_builtin split env c b = Inr b' \<Longrightarrow> policy_wf b'"
proof (induction split env c b rule: run_builtin.induct)
  case (3 split env name paths b)
  then show ?case
    using host_paths_wf [of env name paths "[]"]
    by (auto simp: host_executable_builtin_def policy_wf_def hosts_wf_def host_paths_ok_def [of _ "[]"] split: sum.splits if_splits)
qed (auto simp: prefix_rule_builtin_def network_rule_builtin_def policy_wf_def add_rules_fields Let_def rules_wf_inserts
      split: sum.splits)

interpretation builtins: fallible_loop "run_builtin split env" "run_builtins split env" policy_wf
  for split env
  by unfold_locales (auto intro: run_builtin_wf split: sum.splits)

lemma parse_policy_wf: "policy_wf b \<Longrightarrow> parse_policy env ident contents b = Inr b' \<Longrightarrow> policy_wf b'"
  by (auto simp: parse_policy_def Let_def intro: builtins.run_keeps split: sum.splits prod.splits option.splits)

interpretation files: fallible_loop "parse_file env fs" "parse_files env fs" policy_wf
  for env fs
  by unfold_locales (auto simp: parse_file_def intro: parse_policy_wf split: sum.splits option.splits)

lemma run_requirements_wf: "rules_wf m \<Longrightarrow> requirements_loop i rs m = Inr m' \<Longrightarrow> rules_wf m'"
  by (induction i rs m rule: requirements_loop.induct) (auto simp: rules_wf_inserts split: sum.splits)

lemma to_policy_wf: "to_policy toml = Inr req \<Longrightarrow> policy_wf req"
  by (auto simp: to_policy_def policy_wf_def policy_empty_def rules_wf_def [of "[]"] hosts_wf_def
      intro: run_requirements_wf [of "[]"] split: if_splits sum.splits)

lemma load_exec_policy_wf:
  assumes "load_exec_policy env fs stack = Inr p" "pred_option policy_wf (requirements_policy stack)"
  shows "policy_wf p"
  using assms files.run_keeps [of builder_new]
  by (auto simp: load_exec_policy_def intro!: policy_wf_build policy_wf_overlay split: sum.splits option.splits)

section \<open>Requirements stay in force\<close>

text \<open>The words a token of a requirement stands for, and the commands a requirement covers.\<close>

definition token_words :: "requirements_token \<Rightarrow> rstr list" where
  "token_words tok =
     (case req_token tok of Some word \<Rightarrow> [word] | None \<Rightarrow> (case req_any_of tok of Some alts \<Rightarrow> alts | None \<Rightarrow> []))"

definition covers :: "requirements_rule \<Rightarrow> command \<Rightarrow> bool" where
  "covers r cmd \<longleftrightarrow>
     req_pattern r \<noteq> [] \<and>
     (\<exists>args others. cmd = args @ others \<and> list_all2 (\<lambda>tok word. word \<in> set (token_words tok)) (req_pattern r) args)"

lemma rules_of_keyed_inserts:
  "rules_of (fold (\<lambda>r. multimap_insert (rule_program r) r) rs m) k = rules_of m k @ filter (\<lambda>r. rule_program r = k) rs"
  by (induction rs arbitrary: m) (simp_all add: rules_of_insert)

lemma req_pattern_token_words:
  "req_pattern_token i (j, tok) = Inr pt \<Longrightarrow> alternatives pt = token_words tok"
  by (auto simp: req_pattern_token_def token_words_def split: option.splits if_splits)

lemma token_matches_alternatives: "token_matches pt w \<longleftrightarrow> w \<in> set (alternatives pt)"
  by (cases pt) (auto simp: list_ex_iff)

lemma requirement_tokens:
  "map (req_pattern_token i) (enumerate n toks) = map Inr pts \<Longrightarrow>
   list_all2 (\<lambda>tok pt. alternatives pt = token_words tok) toks pts"
proof (induction toks arbitrary: n pts)
  case (Cons tok toks)
  then show ?case by (cases pts) (auto dest: req_pattern_token_words)
qed simp

lemma requirement_rules_cover:
  assumes "requirement_rules i r = Inr rs" "covers r cmd"
  shows "\<exists>d. req_decision r = Some d \<and> d \<noteq> ReqAllow \<and>
    (\<exists>pr \<in> set rs. accepts (pattern pr) cmd \<and> rule_decision pr = as_decision d)"
proof -
  obtain pts d where pts: "map (req_pattern_token i) (enumerate 0 (req_pattern r)) = map Inr pts"
    and d: "req_decision r = Some d" "d \<noteq> ReqAllow"
    and rs: "rs = rules_of_tokens pts (as_decision d) (req_justification r)"
    using assms(1)
    by (auto simp: requirement_rules_def collect_results_Inr_iff split: if_splits sum.splits option.splits requirements_decision.splits)
  obtain args others where cmd: "cmd = args @ others"
    and words: "list_all2 (\<lambda>tok word. word \<in> set (token_words tok)) (req_pattern r) args"
    using assms(2) by (auto simp: covers_def)
  have "list_all2 token_matches pts args"
    using requirement_tokens [OF pts] words
    by (auto simp: list_all2_conv_all_nth token_matches_alternatives)
  moreover have "pts \<noteq> []" using requirement_tokens [OF pts] assms(2) by (auto simp: covers_def)
  ultimately obtain pt pts' a args' where shape: "pts = pt # pts'" "args = a # args'"
    "a \<in> set (alternatives pt)" "list_all2 token_matches pts' args'"
    by (cases pts; cases args) (auto simp: token_matches_alternatives)
  define pr where "pr = \<lparr>pattern = \<lparr>pattern_first = a, pattern_rest = pts'\<rparr>, rule_decision = as_decision d, justification = req_justification r\<rparr>"
  have "pr \<in> set rs" using shape by (auto simp: rs rules_of_tokens_def pr_def)
  moreover have "accepts (pattern pr) cmd" "rule_decision pr = as_decision d"
    using shape cmd by (auto simp: accepts_def pr_def)
  ultimately show ?thesis using d by blast
qed

lemma requirements_loop_rules:
  "requirements_loop i rs m = Inr m' \<Longrightarrow>
   set (rules_of m k) \<subseteq> set (rules_of m' k) \<and>
   (\<forall>r \<in> set rs. \<exists>j prs. requirement_rules j r = Inr prs \<and> (\<forall>pr \<in> set prs. rule_program pr = k \<longrightarrow> pr \<in> set (rules_of m' k)))"
proof (induction i rs m rule: requirements_loop.induct)
  case (2 i r rs m)
  then obtain prs where prs: "requirement_rules i r = Inr prs" by (auto split: sum.splits)
  then show ?case using 2 by (auto simp: rules_of_keyed_inserts)
qed simp

text \<open>
  C8: the managed requirements stay in force. Whatever the rules files of all the layers say, a
  command that a rule of the requirements covers as it is written is decided at least as
  strictly as that rule says once the policy has been loaded, and is therefore never allowed.
\<close>

theorem requirements_stay_in_force:
  assumes "to_policy toml = Inr req" "requirements_policy stack = Some req" "load_exec_policy env fs stack = Inr p"
    "r \<in> set toml" "covers r cmd"
  shows "\<exists>d e. req_decision r = Some d \<and> check_with_options (dirs env) p cmd fallback options = Some e \<and>
    as_decision d \<le> eval_decision e \<and> eval_decision e \<noteq> Allow"
proof -
  obtain m where m: "requirements_loop 0 toml [] = Inr m" "req = policy_empty\<lparr>rules_by_program := m\<rparr>"
    using assms(1) by (auto simp: to_policy_def split: if_splits sum.splits)
  obtain j prs where prs: "requirement_rules j r = Inr prs"
    and kept: "\<And>pr. pr \<in> set prs \<Longrightarrow> rule_program pr = hd cmd \<Longrightarrow> pr \<in> set (rules_of m (hd cmd))"
    using requirements_loop_rules [OF m(1), of "hd cmd"] assms(4) by blast
  obtain d pr where d: "req_decision r = Some d" "d \<noteq> ReqAllow"
    and pr: "pr \<in> set prs" "accepts (pattern pr) cmd" "rule_decision pr = as_decision d"
    using requirement_rules_cover [OF prs assms(5)] by blast
  obtain base where p: "p = merge_overlay base req"
    using assms(2,3) by (auto simp: load_exec_policy_def split: sum.splits)
  have "pr \<in> set (exact_rules req cmd)"
    using kept [OF pr(1)] accepts_first [OF pr(2)] pr(2)
    by (auto simp: exact_rules_def rules_for_eq m(2) rule_program_def)
  moreover have "distinct (map fst (rules_by_program req))"
    using to_policy_wf [OF assms(1)] by (simp add: policy_wf_def rules_wf_def)
  ultimately have "pr \<in> set (exact_rules p cmd)" unfolding p by (intro overlay_exact_rules)
  from exact_rule_bounds [OF this, of "dirs env" fallback options] show ?thesis
    using d pr(3) by (cases d) (auto simp: less_eq_decision_def)
qed

definition demo_toml :: "requirements_rule list" where
  "demo_toml =
     [\<lparr>req_pattern = [\<lparr>req_token = Some (lit ''git''), req_any_of = None\<rparr>,
                      \<lparr>req_token = None, req_any_of = Some [lit ''push'', lit ''fetch'']\<rparr>],
       req_decision = Some ReqForbidden, req_justification = None\<rparr>]"

definition demo_fs :: rules_fs where
  "demo_fs = \<lparr>list_dir = (\<lambda>_. Entries [Some (lit ''/p/rules/a.rules'', True)]), read_text = (\<lambda>_. Some [])\<rparr>"

definition demo_policy_env :: "rstr option \<Rightarrow> policy_env" where
  "demo_policy_env failure =
     \<lparr>shlex_split = (\<lambda>_. None), shlex_join = (\<lambda>_. None),
      starlark = (\<lambda>_ _. ([PrefixRuleCall [StringValue (lit ''git'')] (Some (lit ''allow'')) None None None None], failure)),
      dirs = demo_env\<rparr>"

definition demo_stack :: "policy option \<Rightarrow> config_stack" where
  "demo_stack req = \<lparr>layers = [SessionFlags, Project (lit ''/p'')], ignore_user_and_project_rules = False, requirements_policy = req\<rparr>"

lemma demo_to_policy: "\<exists>req. to_policy demo_toml = Inr req"
  by (simp add: to_policy_def demo_toml_def requirement_rules_def req_pattern_token_def trim_def trim_start_def trim_end_def
      is_whitespace_def rules_of_tokens_def rust_eval)

lemma demo_paths: "policy_paths home demo_fs False (layers (demo_stack req)) = Inr [lit ''/p/rules/a.rules'']"
  by (simp add: demo_stack_def demo_fs_def collect_policy_files_def path_extension_def path_file_name_def components_def
      inner_components_def named_component_def last_opt_def rposition_def slash_def dot_def dot_dot_def rust_eval)

lemma demo_load:
  "\<exists>p. load_exec_policy (demo_policy_env None) demo_fs (demo_stack (Some req)) = Inr p"
  "load_exec_policy (demo_policy_env (Some message)) demo_fs (demo_stack (Some req)) =
   Inl (ParsePolicy (lit ''/p/rules/a.rules'') (StarlarkError message))"
  using demo_paths [of _ "Some req"]
  by (simp_all add: load_exec_policy_def demo_stack_def parse_file_def demo_fs_def parse_policy_def demo_policy_env_def
      prefix_rule_builtin_def decision_parse_def parse_justification_def parse_pattern_def parse_examples_def
      validate_pending_examples_from_def validate_pending_def validate_match_examples_def rules_of_tokens_def
      builder_new_def add_rules_fields add_rule_def Let_def)

theorem requirements_stay_in_force_witness:
  "\<exists>req p d e. to_policy demo_toml = Inr req \<and>
    load_exec_policy (demo_policy_env None) demo_fs (demo_stack (Some req)) = Inr p \<and>
    check_with_options demo_env p [lit ''git'', lit ''push'', lit ''-f''] (\<lambda>_. Allow) default_options = Some e \<and>
    req_decision (hd demo_toml) = Some d \<and> as_decision d \<le> eval_decision e"
proof -
  obtain req where req: "to_policy demo_toml = Inr req" using demo_to_policy by blast
  obtain p where p: "load_exec_policy (demo_policy_env None) demo_fs (demo_stack (Some req)) = Inr p"
    using demo_load(1) by blast
  have "covers (hd demo_toml) [lit ''git'', lit ''push'', lit ''-f'']"
    unfolding covers_def
    by (rule conjI, simp add: demo_toml_def, rule exI [of _ "[lit ''git'', lit ''push'']"], rule exI [of _ "[lit ''-f'']"])
      (simp add: demo_toml_def token_words_def)
  then have "\<exists>d e. req_decision (hd demo_toml) = Some d \<and>
      check_with_options (dirs (demo_policy_env None)) p [lit ''git'', lit ''push'', lit ''-f''] (\<lambda>_. Allow) default_options = Some e \<and>
      as_decision d \<le> eval_decision e \<and> eval_decision e \<noteq> Allow"
    by (intro requirements_stay_in_force [OF req _ p]) (simp_all add: demo_stack_def demo_toml_def)
  then show ?thesis using req p by (auto simp: demo_policy_env_def)
qed

text \<open>
  But one rules file that does not parse leaves the session with the empty policy: the warning
  is all that remains of the requirements.
\<close>

theorem broken_rules_file_drops_requirements:
  "load_exec_policy_with_warning (demo_policy_env (Some message)) demo_fs (demo_stack (Some req)) =
   Inr (policy_empty, Some (ParsePolicy (lit ''/p/rules/a.rules'') (StarlarkError message)))"
  by (simp add: load_exec_policy_with_warning_def demo_load(2))

end
