(* ===== verification/Policy_Amend.thy ===== *)
theory Policy_Amend
  imports Policy_Sources
begin

text \<open>
  Appending a rule to a rules file (\<^verbatim>\<open>execpolicy/src/amend.rs\<close>). JSON rendering is a parameter; so
  are the failures of the file operations. Creating a directory that exists counts as success.
\<close>

section \<open>Appending a rule to a file\<close>

datatype amend_error =
    EmptyPrefix
  | InvalidNetworkRule rstr
  | MissingParent path_buf
  | CreatePolicyDir path_buf
  | SerializePrefix
  | SerializeNetworkRule
  | OpenPolicyFile path_buf
  | WritePolicyFile path_buf
  | LockPolicyFile path_buf
  | SeekPolicyFile path_buf
  | ReadPolicyFile path_buf
  | PolicyMetadata path_buf

text \<open>
  The operations on the file, in their order. Each may fail; a failing write may have written
  some of its characters.
\<close>

datatype amend_step = CreateDirStep | OpenStep | LockStep | SeekStep | ReadStep | NewlineStep | LineStep

record amend_io =
  amend_fails :: "amend_step \<Rightarrow> bool"
  amend_written :: "amend_step \<Rightarrow> nat"

type_synonym file_store = "path_buf \<rightharpoonup> rstr"

definition write_all :: "amend_io \<Rightarrow> amend_step \<Rightarrow> path_buf \<Rightarrow> rstr \<Rightarrow> file_store \<Rightarrow> (amend_error + unit) \<times> file_store" where
  "write_all io step path out files =
     (let contents = (case files path of Some c \<Rightarrow> c | None \<Rightarrow> [])
      in if amend_fails io step then
           (Inl (WritePolicyFile path), files(path \<mapsto> contents @ take (amend_written io step) out))
         else (Inr (), files(path \<mapsto> contents @ out)))"

definition append_locked_line ::
    "amend_io \<Rightarrow> path_buf \<Rightarrow> rstr \<Rightarrow> file_store \<Rightarrow> (amend_error + unit) \<times> file_store" where
  "append_locked_line io path entry files =
     (if amend_fails io OpenStep then (Inl (OpenPolicyFile path), files)
      else
        (let contents = (case files path of Some c \<Rightarrow> c | None \<Rightarrow> []);
             files = files(path \<mapsto> contents)
         in if amend_fails io LockStep then (Inl (LockPolicyFile path), files)
            else if amend_fails io SeekStep then (Inl (SeekPolicyFile path), files)
            else if amend_fails io ReadStep then (Inl (ReadPolicyFile path), files)
            else if entry \<in> set (str_lines contents) then (Inr (), files)
            else
              (case (if contents \<noteq> [] \<and> \<not> ends_with [newline] contents
                     then write_all io NewlineStep path [newline] files else (Inr (), files)) of
                 (Inl e, files) \<Rightarrow> (Inl e, files)
               | (Inr _, files) \<Rightarrow> write_all io LineStep path (entry @ [newline]) files)))"

definition append_rule_line ::
    "amend_io \<Rightarrow> path_buf \<Rightarrow> rstr \<Rightarrow> file_store \<Rightarrow> (amend_error + unit) \<times> file_store" where
  "append_rule_line io path rule files =
     (case path_parent path of
        None \<Rightarrow> (Inl (MissingParent path), files)
      | Some dir \<Rightarrow>
          if amend_fails io CreateDirStep then (Inl (CreatePolicyDir dir), files)
          else append_locked_line io path rule files)"

definition collect_json :: "amend_error \<Rightarrow> (rstr \<Rightarrow> rstr option) \<Rightarrow> rstr list \<Rightarrow> amend_error + rstr list" where
  "collect_json e json xs =
     collect_results (map (\<lambda>x. case json x of Some s \<Rightarrow> Inr s | None \<Rightarrow> Inl e) xs)"

definition prefix_rule_line :: "rstr list \<Rightarrow> rstr" where
  "prefix_rule_line tokens =
     lit ''prefix_rule(pattern=['' @ join_with (lit '', '') tokens @ lit ''], decision='' @ [34] @ lit ''allow'' @ [34] @ lit '')''"

definition blocking_append_allow_prefix_rule ::
    "amend_io \<Rightarrow> (rstr \<Rightarrow> rstr option) \<Rightarrow> path_buf \<Rightarrow> command \<Rightarrow> file_store \<Rightarrow> (amend_error + unit) \<times> file_store" where
  "blocking_append_allow_prefix_rule io json path prefix files =
     (if prefix = [] then (Inl EmptyPrefix, files)
      else case collect_json SerializePrefix json prefix of
        Inl e \<Rightarrow> (Inl e, files)
      | Inr tokens \<Rightarrow> append_rule_line io path (prefix_rule_line tokens) files)"

fun network_decision_name :: "decision \<Rightarrow> rstr" where
  "network_decision_name Allow = lit ''allow''"
| "network_decision_name Prompt = lit ''prompt''"
| "network_decision_name Forbidden = lit ''deny''"

definition network_rule_line :: "rstr list \<Rightarrow> rstr" where
  "network_rule_line args =
     lit ''network_rule('' @
     join_with (lit '', '') (map (\<lambda>(name, arg). lit name @ lit ''='' @ arg)
       (zip [''host'', ''protocol'', ''decision'', ''justification''] args)) @ lit '')''"

definition blocking_append_network_rule ::
    "amend_io \<Rightarrow> (rstr \<Rightarrow> rstr option) \<Rightarrow> (policy_error \<Rightarrow> rstr) \<Rightarrow> path_buf \<Rightarrow> rstr \<Rightarrow> network_rule_protocol \<Rightarrow> decision \<Rightarrow>
     rstr option \<Rightarrow> file_store \<Rightarrow> (amend_error + unit) \<times> file_store" where
  "blocking_append_network_rule io json show_error path host protocol d just files =
     (case normalize_network_rule_host host of
        Inl e \<Rightarrow> (Inl (InvalidNetworkRule (show_error e)), files)
      | Inr host \<Rightarrow>
          if just \<noteq> None \<and> trim (the just) = [] then
            (Inl (InvalidNetworkRule (lit ''justification cannot be empty'')), files)
          else
            (case collect_json SerializeNetworkRule json
               ([host, as_policy_string protocol, network_decision_name d] @ (case just of Some j \<Rightarrow> [j] | None \<Rightarrow> [])) of
               Inl e \<Rightarrow> (Inl e, files)
             | Inr args \<Rightarrow> append_rule_line io path (network_rule_line args) files))"

section \<open>What a successful append leaves\<close>

lemma str_lines_last:
  assumes "c = [] \<or> last c = newline" "line_safe e"
  shows "e \<in> set (str_lines (c @ e @ [newline]))"
proof -
  have e: "split_on newline (e @ [newline]) = [e, []]"
    using assms(2) split_on_append_sep [of newline e "[]"] by (simp add: line_safe_def)
  have "\<exists>ps. split_on newline (c @ e @ [newline]) = ps @ [e, []]"
  proof (cases "c = []")
    case False
    then have "c @ e @ [newline] = butlast c @ newline # (e @ [newline])"
      using assms(1) append_butlast_last_id [of c] by simp
    then show ?thesis using e by (metis split_on_append)
  qed (simp add: e)
  then show ?thesis using assms(2) by (auto simp: str_lines_def butlast_append)
qed

lemma write_all_success:
  "write_all io step path out files = (Inr (), files') \<longleftrightarrow>
   \<not> amend_fails io step \<and> files' = files(path \<mapsto> (case files path of Some c \<Rightarrow> c | None \<Rightarrow> []) @ out)"
  by (auto simp: write_all_def Let_def)

lemma append_locked_line_success:
  assumes "append_locked_line io path e files = (Inr (), files')" "line_safe e"
  defines "old \<equiv> case files path of Some c \<Rightarrow> c | None \<Rightarrow> []"
  shows "\<exists>added. files' = files(path \<mapsto> old @ added) \<and> e \<in> set (str_lines (old @ added))"
proof (cases "e \<in> set (str_lines old)")
  case True
  then show ?thesis using assms(1) unfolding old_def
    by (intro exI [of _ "[]"]) (auto simp: append_locked_line_def Let_def split: if_splits)
next
  case False
  define sep where "sep = (if old \<noteq> [] \<and> \<not> ends_with [newline] old then [newline] else [])"
  have "files' = files(path \<mapsto> old @ sep @ e @ [newline])"
    using assms(1) False unfolding sep_def old_def append_locked_line_def Let_def
    by (auto simp: write_all_success split: if_splits prod.splits sum.splits)
  moreover have "old @ sep = [] \<or> last (old @ sep) = newline"
    by (cases old rule: rev_cases) (auto simp: sep_def ends_with_def starts_with_def strip_prefix_def split: if_splits)
  then have "e \<in> set (str_lines ((old @ sep) @ e @ [newline]))" using assms(2) by (rule str_lines_last)
  ultimately show ?thesis by (intro exI [of _ "sep @ e @ [newline]"]) simp
qed

lemma append_locked_line_again:
  "files path = Some c \<Longrightarrow> e \<in> set (str_lines c) \<Longrightarrow> snd (append_locked_line io path e files) = files"
  by (auto simp: append_locked_line_def Let_def)

lemma append_rule_line_success:
  assumes "append_rule_line io path e files = (Inr (), files')" "line_safe e"
  shows "\<exists>added. files' = files(path \<mapsto> (case files path of Some c \<Rightarrow> c | None \<Rightarrow> []) @ added) \<and>
    e \<in> set (str_lines (the (files' path))) \<and> snd (append_rule_line io' path e files') = files'"
proof -
  have "append_locked_line io path e files = (Inr (), files')"
    using assms(1) by (auto simp: append_rule_line_def split: option.splits if_splits)
  from append_locked_line_success [OF this assms(2)] obtain added where
    f: "files' = files(path \<mapsto> (case files path of Some c \<Rightarrow> c | None \<Rightarrow> []) @ added)"
    and e: "e \<in> set (str_lines ((case files path of Some c \<Rightarrow> c | None \<Rightarrow> []) @ added))" by blast
  have "files' path = Some ((case files path of Some c \<Rightarrow> c | None \<Rightarrow> []) @ added)" by (simp add: f)
  then have "snd (append_locked_line io' path e files') = files'" using e by (rule append_locked_line_again)
  then have "snd (append_rule_line io' path e files') = files'"
    by (simp add: append_rule_line_def split: option.splits)
  then show ?thesis using f e by (intro exI [of _ added]) simp
qed

lemma append_locked_line_succeeds:
  "(\<And>step. \<not> amend_fails io step) \<Longrightarrow> fst (append_locked_line io path e files) = Inr ()"
  by (simp add: append_locked_line_def write_all_def Let_def)

lemma join_with_safe: "newline \<notin> set sep \<Longrightarrow> \<forall>x \<in> set xs. newline \<notin> set x \<Longrightarrow> newline \<notin> set (join_with sep xs)"
  by (induction sep xs rule: join_with.induct) auto

lemma prefix_rule_line_safe: "\<forall>t \<in> set tokens. newline \<notin> set t \<Longrightarrow> line_safe (prefix_rule_line tokens)"
  using join_with_safe [of "lit '', ''" tokens] unfolding prefix_rule_line_def
  by (intro line_safe_append) (simp_all add: newline_def carriage_return_def rust_eval)

lemma collect_json_Inr_iff: "collect_json e json xs = Inr ys \<longleftrightarrow> map json xs = map Some ys"
proof -
  have "map (\<lambda>x. case json x of Some s \<Rightarrow> Inr s | None \<Rightarrow> Inl e) xs = map Inr ys \<longleftrightarrow> map json xs = map Some ys"
    by (induction xs arbitrary: ys) (auto simp: Cons_eq_map_conv split: option.splits)
  then show ?thesis by (simp add: collect_json_def collect_results_Inr_iff)
qed

text \<open>
  C20: an approved prefix is written once and read back. When appending the rule succeeds, the
  file is its old text with something added, no other file has changed, the rule is one of its
  lines, and appending the same rule again changes nothing. JSON text has no line breaks.
\<close>

theorem appended_rule_is_kept:
  assumes "\<And>s t. json s = Some t \<Longrightarrow> newline \<notin> set t"
    and "blocking_append_allow_prefix_rule io json path prefix files = (Inr (), files')"
  shows "\<exists>tokens added. map json prefix = map Some tokens \<and>
    files' = files(path \<mapsto> (case files path of Some c \<Rightarrow> c | None \<Rightarrow> []) @ added) \<and>
    prefix_rule_line tokens \<in> set (str_lines (the (files' path))) \<and>
    snd (blocking_append_allow_prefix_rule io' json path prefix files') = files'"
proof -
  obtain tokens where t: "prefix \<noteq> []" "collect_json SerializePrefix json prefix = Inr tokens"
    and a: "append_rule_line io path (prefix_rule_line tokens) files = (Inr (), files')"
    using assms(2) by (auto simp: blocking_append_allow_prefix_rule_def split: if_splits sum.splits)
  have json: "map json prefix = map Some tokens" using t(2) by (simp add: collect_json_Inr_iff)
  have "\<forall>t \<in> set tokens. newline \<notin> set t"
  proof
    fix t assume "t \<in> set tokens"
    then have "Some t \<in> set (map json prefix)" by (simp add: json)
    then show "newline \<notin> set t" using assms(1) by auto
  qed
  from append_rule_line_success [OF a prefix_rule_line_safe [OF this], of io'] show ?thesis
    using t json by (simp add: blocking_append_allow_prefix_rule_def)
qed

definition demo_json :: "rstr \<Rightarrow> rstr option" where
  "demo_json s = (if newline \<in> set s then None else Some ([34] @ s @ [34]))"

definition demo_io :: amend_io where
  "demo_io = \<lparr>amend_fails = (\<lambda>_. False), amend_written = (\<lambda>_. 0)\<rparr>"

theorem appended_rule_is_kept_witness:
  "\<exists>files' tokens. blocking_append_allow_prefix_rule demo_io demo_json (lit ''/r/d'') [lit ''git''] [lit ''/r/d'' \<mapsto> lit ''x''] = (Inr (), files') \<and>
    prefix_rule_line tokens \<in> set (str_lines (the (files' (lit ''/r/d''))))"
proof -
  let ?run = "blocking_append_allow_prefix_rule demo_io demo_json (lit ''/r/d'') [lit ''git''] [lit ''/r/d'' \<mapsto> lit ''x'']"
  have "path_parent (lit ''/r/d'') = Some (lit ''/r'')"
    by (simp add: path_parent_def components_def inner_components_def named_component_def path_of_components_def path_push_def
        slash_def dot_def dot_dot_def ends_with_def starts_with_def last_opt_def is_absolute_def rust_eval)
  then have "fst ?run = Inr ()"
    by (simp add: blocking_append_allow_prefix_rule_def collect_json_def demo_json_def newline_def append_rule_line_def
        append_locked_line_succeeds demo_io_def rust_eval)
  then obtain files' where r: "?run = (Inr (), files')" by (cases ?run) auto
  have json: "newline \<notin> set t" if "demo_json s = Some t" for s t
    using that by (auto simp: demo_json_def newline_def split: if_splits)
  show ?thesis using appended_rule_is_kept [where io' = demo_io, OF _ r] json r by blast
qed

section \<open>The file and the policy in memory\<close>

lemma collect_units: "collect_results (map f xs) = Inr us \<longleftrightarrow> (\<forall>x \<in> set xs. f x = Inr ()) \<and> us = map (\<lambda>_. ()) xs" for f :: "'a \<Rightarrow> 'e + unit"
  by (induction xs arbitrary: us) (auto simp: collect_results_Inr_iff Cons_eq_map_conv)

lemma validate_pending_from_iff:
  "validate_pending_examples_from join env n b = Inr () \<longleftrightarrow>
   (\<forall>v \<in> set (drop n (pending_example_validations b)). validate_pending join env b v = Inr ())"
proof (cases "collect_results (map (validate_pending join env b) (drop n (pending_example_validations b)))")
  case (Inl e)
  then show ?thesis using collect_units [of "validate_pending join env b" "drop n (pending_example_validations b)"]
    by (auto simp: validate_pending_examples_from_def)
next
  case (Inr us)
  then show ?thesis using collect_units [of "validate_pending join env b" "drop n (pending_example_validations b)" us]
    by (auto simp: validate_pending_examples_from_def)
qed

lemma validate_pending_cong:
  "host_executables_by_name b = host_executables_by_name b' \<Longrightarrow> validate_pending join env b v = validate_pending join env b' v"
  by (simp add: validate_pending_def)

lemma validate_pending_no_examples:
  "pending_matches v = [] \<Longrightarrow> pending_not_matches v = [] \<Longrightarrow> validate_pending join env b v = Inr ()"
  by (simp add: validate_pending_def validate_match_examples_def)

lemma parse_pattern_strings: "words \<noteq> [] \<Longrightarrow> parse_pattern (map StringValue words) = Inr (map Single words)"
proof -
  have "map parse_pattern_token (map StringValue words) = map Inr (map Single words)" by simp
  then show "words \<noteq> [] \<Longrightarrow> ?thesis" unfolding parse_pattern_def by (simp only: collect_results_map_Inr) simp
qed

lemma allow_call:
  assumes "words \<noteq> []"
  shows "\<exists>b'. run_builtin split env (PrefixRuleCall (map StringValue words) (Some (lit ''allow'')) None None None loc) b = Inr b' \<and>
    add_prefix_rule words Allow (builder_build b) = Inr (builder_build b') \<and>
    host_executables_by_name b' = host_executables_by_name b \<and>
    pending_example_validations b' = pending_example_validations b @
      [\<lparr>pending_rules = rules_of_tokens (map Single words) Allow None, pending_matches = [], pending_not_matches = [], pending_location = loc\<rparr>]"
  using assms parse_pattern_strings [OF assms]
  by (cases words) (simp_all add: prefix_rule_builtin_def decision_parse_def parse_justification_def parse_examples_def
      rules_of_tokens_def add_rule_def add_prefix_rule_def builder_build_def rule_program_def Let_def)

text \<open>
  C19: the policy in memory and the file agree. When a rules file was loaded and its program now
  makes one more call, the allow rule of an approved prefix, loading it again succeeds and gives
  exactly the policy that adding the prefix in memory gives.
\<close>

theorem reload_agrees_with_memory:
  assumes "parse_policy env ident contents b = Inr b1"
    and "starlark env ident contents' =
      (fst (starlark env ident contents) @ [PrefixRuleCall (map StringValue words) (Some (lit ''allow'')) None None None loc], None)"
    and "words \<noteq> []"
  shows "\<exists>b2. parse_policy env ident contents' b = Inr b2 \<and>
    add_prefix_rule words Allow (builder_build b1) = Inr (builder_build b2)"
proof -
  let ?call = "PrefixRuleCall (map StringValue words) (Some (lit ''allow'')) None None None loc"
  let ?n = "length (pending_example_validations b)"
  have run: "run_builtins (shlex_split env) (dirs env) (fst (starlark env ident contents)) b = Inr b1"
    and valid: "validate_pending_examples_from (shlex_join env) (dirs env) ?n b1 = Inr ()"
    using assms(1) by (auto simp: parse_policy_def Let_def split: prod.splits sum.splits option.splits)
  obtain b2 where b2: "run_builtin (shlex_split env) (dirs env) ?call b1 = Inr b2"
    and added: "add_prefix_rule words Allow (builder_build b1) = Inr (builder_build b2)"
    and hosts: "host_executables_by_name b2 = host_executables_by_name b1"
    and pending: "pending_example_validations b2 = pending_example_validations b1 @
      [\<lparr>pending_rules = rules_of_tokens (map Single words) Allow None, pending_matches = [], pending_not_matches = [], pending_location = loc\<rparr>]"
    using allow_call [OF assms(3)] by blast
  have "run_builtins (shlex_split env) (dirs env) (fst (starlark env ident contents) @ [?call]) b = Inr b2"
    unfolding builtins.run_append using run b2 by auto
  moreover have "validate_pending_examples_from (shlex_join env) (dirs env) ?n b2 = Inr ()"
    using valid unfolding validate_pending_from_iff pending
    by (auto simp: validate_pending_cong [OF hosts] validate_pending_no_examples dest!: in_set_dropD [of _ "_ - _" "[_]"])
  ultimately show ?thesis using added by (auto simp: parse_policy_def assms(2))
qed

theorem reload_agrees_with_memory_witness:
  "\<exists>env b1 b2. parse_policy env [] [] builder_new = Inr b1 \<and> parse_policy env [] [1] builder_new = Inr b2 \<and>
    add_prefix_rule [lit ''git'', lit ''push''] Allow (builder_build b1) = Inr (builder_build b2)"
proof -
  define env where "env = (demo_policy_env None)\<lparr>starlark := (\<lambda>_ c.
    (if c = [] then [] else [PrefixRuleCall (map StringValue [lit ''git'', lit ''push'']) (Some (lit ''allow'')) None None None None], None))\<rparr>"
  have old: "parse_policy env [] [] builder_new = Inr builder_new"
    by (simp add: parse_policy_def env_def validate_pending_examples_from_def builder_new_def)
  have "\<exists>b2. parse_policy env [] [1] builder_new = Inr b2 \<and>
      add_prefix_rule [lit ''git'', lit ''push''] Allow (builder_build builder_new) = Inr (builder_build b2)"
    by (rule reload_agrees_with_memory [OF old]) (simp_all add: env_def)
  then show ?thesis using old by blast
qed

end
