(* ===== verification/Exec_Approval.thy ===== *)
theory Exec_Approval
  imports Policy_Amend
begin

text \<open>
  Whether a command of the model runs, needs an approval, or is refused
  (\<^verbatim>\<open>core/src/exec_policy.rs\<close>), and how an approved prefix changes the policy of the session. The
  parsers of shell scripts and the quoting of command lines are parameters. The build is the
  one for Unix.
\<close>

section \<open>Requests\<close>

record granular_approval_config =
  sandbox_approval :: bool
  rules_approval :: bool
  skill_approval :: bool
  request_permissions :: bool
  mcp_elicitations :: bool

datatype ask_for_approval = UnlessTrusted | OnFailure | OnRequest | Granular granular_approval_config | Never

datatype sandbox_permissions = UseDefault | RequireEscalated | WithAdditionalPermissions

definition requests_sandbox_override :: "sandbox_permissions \<Rightarrow> bool" where
  "requests_sandbox_override s \<longleftrightarrow> s \<noteq> UseDefault"

text \<open>Of a permission profile only its kind is looked at.\<close>

datatype permission_profile = Managed | Disabled | External

datatype file_system_sandbox_kind = Restricted | Unrestricted | ExternalSandbox

record approval_request =
  request_command :: command
  approval_policy :: ask_for_approval
  request_profile :: permission_profile
  file_system_kind :: file_system_sandbox_kind
  request_sandbox_permissions :: sandbox_permissions
  request_prefix_rule :: "command option"

datatype approval_requirement =
    Skip bool "command option"
  | NeedsApproval "rstr option" "command option"
  | Refused rstr

record shell_env =
  plain_commands :: shell_parser
  single_command_prefix :: "command \<Rightarrow> command option"
  join_words :: "command \<Rightarrow> rstr option"
  shell_dirs :: path_env

definition PROMPT_CONFLICT_REASON :: rstr where
  "PROMPT_CONFLICT_REASON = lit ''approval required by policy, but AskForApproval is set to Never''"

definition REJECT_SANDBOX_APPROVAL_REASON :: rstr where
  "REJECT_SANDBOX_APPROVAL_REASON =
     lit ''approval required by policy, but AskForApproval::Granular.sandbox_approval is false''"

definition REJECT_RULES_APPROVAL_REASON :: rstr where
  "REJECT_RULES_APPROVAL_REASON =
     lit ''approval required by policy rule, but AskForApproval::Granular.rules is false''"

definition BANNED_PREFIX_SUGGESTIONS :: "command list" where
  "BANNED_PREFIX_SUGGESTIONS = map (map lit)
     [[''python3''], [''python3'', ''-''], [''python3'', ''-c''], [''python''], [''python'', ''-''],
      [''python'', ''-c''], [''py''], [''py'', ''-3''], [''pythonw''], [''pyw''], [''pypy''], [''pypy3''],
      [''git''], [''bash''], [''bash'', ''-lc''], [''sh''], [''sh'', ''-c''], [''sh'', ''-lc''], [''zsh''],
      [''zsh'', ''-lc''], [''/bin/zsh''], [''/bin/zsh'', ''-lc''], [''/bin/bash''], [''/bin/bash'', ''-lc''],
      [''pwsh''], [''pwsh'', ''-Command''], [''pwsh'', ''-c''], [''powershell''], [''powershell'', ''-Command''],
      [''powershell'', ''-c''], [''powershell.exe''], [''powershell.exe'', ''-Command''],
      [''powershell.exe'', ''-c''], [''env''], [''sudo''], [''node''], [''node'', ''-e''], [''perl''],
      [''perl'', ''-e''], [''ruby''], [''ruby'', ''-e''], [''php''], [''php'', ''-r''], [''lua''], [''lua'', ''-e''],
      [''osascript'']]"

definition is_policy_match :: "rule_match \<Rightarrow> bool" where
  "is_policy_match m = (case m of PrefixRuleMatch _ _ _ _ \<Rightarrow> True | HeuristicsRuleMatch _ _ \<Rightarrow> False)"

definition prompt_is_rejected_by_policy :: "ask_for_approval \<Rightarrow> bool \<Rightarrow> rstr option" where
  "prompt_is_rejected_by_policy policy prompt_is_rule =
     (case policy of
        Never \<Rightarrow> Some PROMPT_CONFLICT_REASON
      | OnFailure \<Rightarrow> None
      | OnRequest \<Rightarrow> None
      | UnlessTrusted \<Rightarrow> None
      | Granular config \<Rightarrow>
          if prompt_is_rule then
            (if \<not> rules_approval config then Some REJECT_RULES_APPROVAL_REASON else None)
          else if \<not> sandbox_approval config then Some REJECT_SANDBOX_APPROVAL_REASON
          else None)"

section \<open>Deciding\<close>

definition render_decision_for_unmatched_command ::
    "shell_env \<Rightarrow> approval_request \<Rightarrow> bool \<Rightarrow> command \<Rightarrow> decision" where
  "render_decision_for_unmatched_command env req used_complex_parsing command =
     (if is_known_safe_command (plain_commands env) command \<and> \<not> used_complex_parsing \<and>
         approval_policy req = UnlessTrusted then Allow
      else if command_might_be_dangerous (plain_commands env) command then
        (case approval_policy req of
           Never \<Rightarrow> (if request_profile req = Disabled \<or> request_profile req = External then Allow else Forbidden)
         | _ \<Rightarrow> Prompt)
      else
        (case approval_policy req of
           Never \<Rightarrow> Allow
         | OnFailure \<Rightarrow> Allow
         | UnlessTrusted \<Rightarrow> Prompt
         | OnRequest \<Rightarrow>
             (case file_system_kind req of
                Unrestricted \<Rightarrow> Allow
              | ExternalSandbox \<Rightarrow> Allow
              | Restricted \<Rightarrow> if requests_sandbox_override (request_sandbox_permissions req) then Prompt else Allow)
         | Granular _ \<Rightarrow>
             (case file_system_kind req of
                Unrestricted \<Rightarrow> Allow
              | ExternalSandbox \<Rightarrow> Allow
              | Restricted \<Rightarrow> if requests_sandbox_override (request_sandbox_permissions req) then Prompt else Allow)))"

record exec_policy_commands =
  commands :: "command list"
  used_complex_parsing :: bool

definition commands_for_exec_policy :: "shell_env \<Rightarrow> command \<Rightarrow> exec_policy_commands" where
  "commands_for_exec_policy env cmd =
     (let otherwise =
        (case single_command_prefix env cmd of
           Some single_command \<Rightarrow> \<lparr>commands = [single_command], used_complex_parsing = True\<rparr>
         | None \<Rightarrow> \<lparr>commands = [cmd], used_complex_parsing = False\<rparr>)
      in case plain_commands env cmd of
           Some cmds \<Rightarrow> if cmds \<noteq> [] then \<lparr>commands = cmds, used_complex_parsing = False\<rparr> else otherwise
         | None \<Rightarrow> otherwise)"

definition try_derive_execpolicy_amendment_for_prompt_rules :: "rule_match list \<Rightarrow> command option" where
  "try_derive_execpolicy_amendment_for_prompt_rules ms =
     (if list_ex (\<lambda>m. is_policy_match m \<and> match_decision m = Prompt) ms then None
      else (case List.map_filter (\<lambda>m. case m of HeuristicsRuleMatch c Prompt \<Rightarrow> Some c | _ \<Rightarrow> None) ms of
              [] \<Rightarrow> None | c # _ \<Rightarrow> Some c))"

definition try_derive_execpolicy_amendment_for_allow_rules :: "rule_match list \<Rightarrow> command option" where
  "try_derive_execpolicy_amendment_for_allow_rules ms =
     (if list_ex is_policy_match ms then None
      else (case List.map_filter (\<lambda>m. case m of HeuristicsRuleMatch c Allow \<Rightarrow> Some c | _ \<Rightarrow> None) ms of
              [] \<Rightarrow> None | c # _ \<Rightarrow> Some c))"

definition prefix_rule_would_approve_all_commands ::
    "path_env \<Rightarrow> policy \<Rightarrow> command \<Rightarrow> command list \<Rightarrow> (command \<Rightarrow> decision) \<Rightarrow> match_options \<Rightarrow> bool" where
  "prefix_rule_would_approve_all_commands env p prefix_rule cmds fallback options =
     (case add_prefix_rule prefix_rule Allow p of
        Inl _ \<Rightarrow> False
      | Inr p' \<Rightarrow>
          list_all (\<lambda>cmd. map_option eval_decision (check_with_options env p' cmd fallback options) = Some Allow) cmds)"

definition derive_requested_execpolicy_amendment_from_prefix_rule ::
    "path_env \<Rightarrow> command option \<Rightarrow> rule_match list \<Rightarrow> policy \<Rightarrow> command list \<Rightarrow> (command \<Rightarrow> decision) \<Rightarrow> match_options \<Rightarrow>
     command option" where
  "derive_requested_execpolicy_amendment_from_prefix_rule env prefix_rule ms p cmds fallback options =
     (case prefix_rule of
        None \<Rightarrow> None
      | Some prefix_rule \<Rightarrow>
          if prefix_rule = [] then None
          else if prefix_rule \<in> set BANNED_PREFIX_SUGGESTIONS then None
          else if list_ex is_policy_match ms then None
          else if prefix_rule_would_approve_all_commands env p prefix_rule cmds fallback options then Some prefix_rule
          else None)"

text \<open>\<^verbatim>\<open>Iterator::max_by_key\<close>: the last of the greatest.\<close>

fun max_by_key :: "('a \<Rightarrow> nat) \<Rightarrow> 'a list \<Rightarrow> 'a option" where
  "max_by_key key [] = None"
| "max_by_key key (x # xs) =
     (case max_by_key key xs of
        None \<Rightarrow> Some x
      | Some y \<Rightarrow> if key x > key y then Some x else Some y)"

definition render_shlex_command :: "shell_env \<Rightarrow> command \<Rightarrow> rstr" where
  "render_shlex_command env args = (case join_words env args of Some s \<Rightarrow> s | None \<Rightarrow> join_with (lit '' '') args)"

definition most_specific :: "decision \<Rightarrow> rule_match list \<Rightarrow> (command \<times> rstr option) option" where
  "most_specific d ms =
     max_by_key (\<lambda>(prefix, _). length prefix)
       (List.map_filter (\<lambda>m. case m of
            PrefixRuleMatch prefix d' _ just \<Rightarrow> if d' = d then Some (prefix, just) else None
          | HeuristicsRuleMatch _ _ \<Rightarrow> None) ms)"

definition derive_prompt_reason :: "shell_env \<Rightarrow> command \<Rightarrow> evaluation \<Rightarrow> rstr option" where
  "derive_prompt_reason env args e =
     (let cmd = render_shlex_command env args
      in case most_specific Prompt (matched_rules e) of
           Some (_, Some just) \<Rightarrow> Some (lit ''`'' @ cmd @ lit ''` requires approval: '' @ just)
         | Some (_, None) \<Rightarrow> Some (lit ''`'' @ cmd @ lit ''` requires approval by policy'')
         | None \<Rightarrow> None)"

definition derive_forbidden_reason :: "shell_env \<Rightarrow> command \<Rightarrow> evaluation \<Rightarrow> rstr" where
  "derive_forbidden_reason env args e =
     (let cmd = render_shlex_command env args
      in case most_specific Forbidden (matched_rules e) of
           Some (_, Some just) \<Rightarrow> lit ''`'' @ cmd @ lit ''` rejected: '' @ just
         | Some (prefix, None) \<Rightarrow>
             lit ''`'' @ cmd @ lit ''` rejected: policy forbids commands starting with `'' @
             render_shlex_command env prefix @ lit ''`''
         | None \<Rightarrow> lit ''`'' @ cmd @ lit ''` rejected: blocked by policy'')"

definition resolving :: match_options where
  "resolving = \<lparr>resolve_host_executables = True\<rparr>"

definition create_exec_approval_requirement_for_command ::
    "shell_env \<Rightarrow> policy \<Rightarrow> approval_request \<Rightarrow> approval_requirement option" where
  "create_exec_approval_requirement_for_command env p req =
     (let parsed = commands_for_exec_policy env (request_command req);
          auto_amendment_allowed = (\<not> used_complex_parsing parsed);
          fallback = render_decision_for_unmatched_command env req (used_complex_parsing parsed)
      in case check_multiple_with_options (shell_dirs env) p (commands parsed) fallback resolving of
           None \<Rightarrow> None
         | Some e \<Rightarrow>
             (let requested_amendment =
                (if auto_amendment_allowed
                 then derive_requested_execpolicy_amendment_from_prefix_rule (shell_dirs env) (request_prefix_rule req)
                        (matched_rules e) p (commands parsed) fallback resolving
                 else None)
              in Some (case eval_decision e of
                   Forbidden \<Rightarrow> Refused (derive_forbidden_reason env (request_command req) e)
                 | Prompt \<Rightarrow>
                     (case prompt_is_rejected_by_policy (approval_policy req)
                             (list_ex (\<lambda>m. is_policy_match m \<and> match_decision m = Prompt) (matched_rules e)) of
                        Some reason \<Rightarrow> Refused reason
                      | None \<Rightarrow>
                          NeedsApproval (derive_prompt_reason env (request_command req) e)
                            (case requested_amendment of
                               Some a \<Rightarrow> Some a
                             | None \<Rightarrow>
                                 if auto_amendment_allowed
                                 then try_derive_execpolicy_amendment_for_prompt_rules (matched_rules e) else None))
                 | Allow \<Rightarrow>
                     Skip (list_all (\<lambda>cmd. list_ex (\<lambda>m. is_policy_match m \<and> match_decision m = Allow)
                              (matches_for_command_with_options (shell_dirs env) p cmd None resolving)) (commands parsed))
                       (if auto_amendment_allowed
                        then try_derive_execpolicy_amendment_for_allow_rules (matched_rules e) else None))))"

section \<open>Amending\<close>

datatype exec_policy_update_error = AppendRule path_buf amend_error | AddRule policy_error

definition default_policy_path :: "path_buf \<Rightarrow> path_buf" where
  "default_policy_path codex_home = path_push (path_push codex_home (lit ''rules'')) (lit ''default.rules'')"

record manager =
  current_policy :: policy
  policy_files :: file_store

definition append_amendment_and_update ::
    "path_env \<Rightarrow> amend_io \<Rightarrow> (rstr \<Rightarrow> rstr option) \<Rightarrow> path_buf \<Rightarrow> command \<Rightarrow> manager \<Rightarrow>
     (exec_policy_update_error + unit) \<times> manager" where
  "append_amendment_and_update env io json codex_home amendment m =
     (let policy_path = default_policy_path codex_home
      in case blocking_append_allow_prefix_rule io json policy_path amendment (policy_files m) of
           (Inl e, files) \<Rightarrow> (Inl (AppendRule policy_path e), m\<lparr>policy_files := files\<rparr>)
         | (Inr _, files) \<Rightarrow>
             (let m = m\<lparr>policy_files := files\<rparr>;
                  already_allowed =
                    (case check_multiple_with_options env (current_policy m) [amendment] (\<lambda>_. Forbidden) resolving of
                       None \<Rightarrow> False
                     | Some e \<Rightarrow>
                         eval_decision e = Allow \<and>
                         list_ex (\<lambda>r. is_policy_match r \<and> match_decision r = Allow) (matched_rules e))
              in if already_allowed then (Inr (), m)
                 else (case add_prefix_rule amendment Allow (current_policy m) of
                         Inl e \<Rightarrow> (Inl (AddRule e), m)
                       | Inr p \<Rightarrow> (Inr (), m\<lparr>current_policy := p\<rparr>))))"

definition append_network_rule_and_update ::
    "amend_io \<Rightarrow> (rstr \<Rightarrow> rstr option) \<Rightarrow> (policy_error \<Rightarrow> rstr) \<Rightarrow> path_buf \<Rightarrow> rstr \<Rightarrow> network_rule_protocol \<Rightarrow> decision \<Rightarrow>
     rstr option \<Rightarrow> manager \<Rightarrow> (exec_policy_update_error + unit) \<times> manager" where
  "append_network_rule_and_update io json show_error codex_home host protocol d just m =
     (let policy_path = default_policy_path codex_home
      in case blocking_append_network_rule io json show_error policy_path host protocol d just (policy_files m) of
           (Inl e, files) \<Rightarrow> (Inl (AppendRule policy_path e), m\<lparr>policy_files := files\<rparr>)
         | (Inr _, files) \<Rightarrow>
             (let m = m\<lparr>policy_files := files\<rparr>
              in case add_network_rule host protocol d just (current_policy m) of
                   Inl e \<Rightarrow> (Inl (AddRule e), m)
                 | Inr p \<Rightarrow> (Inr (), m\<lparr>current_policy := p\<rparr>)))"

definition load_manager :: "policy_env \<Rightarrow> rules_fs \<Rightarrow> config_stack \<Rightarrow> file_store \<Rightarrow> exec_policy_error + manager" where
  "load_manager env fs stack files =
     (case load_exec_policy_with_warning env fs stack of
        Inl e \<Rightarrow> Inl e
      | Inr (p, _) \<Rightarrow> Inr \<lparr>current_policy = p, policy_files = files\<rparr>)"

section \<open>What is decided\<close>

lemma commands_nonempty [simp]: "commands (commands_for_exec_policy env cmd) \<noteq> []"
  by (auto simp: commands_for_exec_policy_def Let_def split: option.splits)

text \<open>The decision on one segment: the strictest rule, or the heuristics when no rule applies.\<close>

definition segment_decision :: "path_env \<Rightarrow> policy \<Rightarrow> (command \<Rightarrow> decision) \<Rightarrow> command \<Rightarrow> decision" where
  "segment_decision env p fallback cmd =
     (if applicable_rules env p resolving cmd = [] then fallback cmd
      else Max (rule_decision ` set (applicable_rules env p resolving cmd)))"

lemma check_multiple_Some:
  assumes "cmds \<noteq> []"
  shows "check_multiple_with_options env p cmds fallback resolving =
    Some \<lparr>eval_decision = Max (segment_decision env p fallback ` set cmds),
          matched_rules = concat (map (\<lambda>cmd. matches_for_command_with_options env p cmd (Some fallback) resolving) cmds)\<rparr>"
proof -
  let ?ms = "\<lambda>cmd. matches_for_command_with_options env p cmd (Some fallback) resolving"
  have ne: "concat (map ?ms cmds) \<noteq> []" using assms matches_with_fallback(1) by (cases cmds) auto
  have seg: "Max (match_decision ` set (?ms cmd)) = segment_decision env p fallback cmd"
    "match_decision ` set (?ms cmd) \<noteq> {}" for cmd
    by (simp_all add: matches_with_fallback segment_decision_def)
  have "match_decision ` set (concat (map ?ms cmds)) = (\<Union>cmd \<in> set cmds. match_decision ` set (?ms cmd))" by auto
  moreover have "Max (\<Union>cmd \<in> set cmds. match_decision ` set (?ms cmd)) = Max (segment_decision env p fallback ` set cmds)"
    using assms
  proof (induction cmds)
    case (Cons c cs)
    then show ?case using seg by (cases "cs = []") (simp_all add: Max_Un max_def)
  qed simp
  ultimately show ?thesis using ne by (simp add: check_multiple_with_options_def from_matches_Some)
qed

lemma is_policy_match_iff: "is_policy_match m \<longleftrightarrow> \<not> is_heuristics m"
  by (cases m) (simp_all add: is_policy_match_def)

lemma matches_shape:
  "applicable_rules env p options cmd = [] \<Longrightarrow>
     matches_for_command_with_options env p cmd fb options = (case fb of Some f \<Rightarrow> [HeuristicsRuleMatch cmd (f cmd)] | None \<Rightarrow> [])"
  "applicable_rules env p options cmd \<noteq> [] \<Longrightarrow> list_all is_policy_match (matches_for_command_with_options env p cmd fb options)"
proof -
  have "map match_decision (matches_for_command_with_options env p cmd None options) =
      map rule_decision (applicable_rules env p options cmd)"
    using matches_decisions [of env p cmd None options] by simp
  then have none: "matches_for_command_with_options env p cmd None options = [] \<longleftrightarrow> applicable_rules env p options cmd = []"
    by (metis map_is_Nil_conv)
  have fallback: "matches_for_command_with_options env p cmd fb options =
      (case fb of
         Some f \<Rightarrow> if matches_for_command_with_options env p cmd None options = [] then [HeuristicsRuleMatch cmd (f cmd)]
           else matches_for_command_with_options env p cmd None options
       | None \<Rightarrow> matches_for_command_with_options env p cmd None options)"
    by (simp add: matches_for_command_with_options_def Let_def split: option.splits)
  have "list_all is_policy_match (matches_for_command_with_options env p cmd None options)"
  proof (cases cmd)
    case (Cons c cs)
    then have "match_exact_rules p cmd \<noteq> None" by (simp add: match_exact_rules_def)
    then show ?thesis
      using match_exact_eq(2) [of cmd p] match_host_eq(2) [of env p cmd] Cons
      by (auto simp: matches_for_command_with_options_def Let_def is_policy_match_iff list_all_iff)
  qed (simp add: matches_for_command_with_options_def match_exact_rules_def match_host_executable_rules_def)
  then show "applicable_rules env p options cmd = [] \<Longrightarrow>
     matches_for_command_with_options env p cmd fb options = (case fb of Some f \<Rightarrow> [HeuristicsRuleMatch cmd (f cmd)] | None \<Rightarrow> [])"
    "applicable_rules env p options cmd \<noteq> [] \<Longrightarrow> list_all is_policy_match (matches_for_command_with_options env p cmd fb options)"
    using none by (subst fallback; simp split: option.splits)+
qed

lemma policy_match_decision:
  "(\<exists>m \<in> set (matches_for_command_with_options env p cmd fb options). is_policy_match m \<and> match_decision m = d) \<longleftrightarrow>
   d \<in> rule_decision ` set (applicable_rules env p options cmd)"
proof (cases "applicable_rules env p options cmd = []")
  case True
  then show ?thesis by (cases fb) (simp_all add: matches_shape(1) [OF True] is_policy_match_def)
next
  case False
  have "match_decision ` set (matches_for_command_with_options env p cmd fb options) =
      rule_decision ` set (applicable_rules env p options cmd)"
    using arg_cong [OF matches_decisions [of env p cmd fb options], of set] False
    by (cases fb) simp_all
  from this [symmetric] show ?thesis using matches_shape(2) [OF False, of fb]
    by (simp only: list_all_iff) blast
qed

lemma decision_bounds [simp]: "Allow \<le> d" "d \<le> Forbidden" "d \<le> Allow \<longleftrightarrow> d = Allow" "Forbidden \<le> d \<longleftrightarrow> d = Forbidden"
  by (cases d; simp add: less_eq_decision_def)+

lemma Max_Allow_iff: "finite D \<Longrightarrow> D \<noteq> {} \<Longrightarrow> Max D = Allow \<longleftrightarrow> (\<forall>d \<in> D. d = Allow)"
  by (metis Max_in Max_ge decision_bounds(3))

text \<open>The segments of a request, and the strictest decision on one of them.\<close>

definition segments :: "shell_env \<Rightarrow> approval_request \<Rightarrow> command list" where
  "segments env req = commands (commands_for_exec_policy env (request_command req))"

definition heuristics :: "shell_env \<Rightarrow> approval_request \<Rightarrow> command \<Rightarrow> decision" where
  "heuristics env req =
     render_decision_for_unmatched_command env req (used_complex_parsing (commands_for_exec_policy env (request_command req)))"

definition request_decision :: "shell_env \<Rightarrow> policy \<Rightarrow> approval_request \<Rightarrow> decision" where
  "request_decision env p req = Max (segment_decision (shell_dirs env) p (heuristics env req) ` set (segments env req))"

lemma segments_nonempty [simp]: "segments env req \<noteq> []"
  by (simp add: segments_def)

lemma request_check:
  "check_multiple_with_options (shell_dirs env) p (segments env req) (heuristics env req) resolving =
   Some \<lparr>eval_decision = request_decision env p req,
         matched_rules = concat (map (\<lambda>cmd. matches_for_command_with_options (shell_dirs env) p cmd (Some (heuristics env req)) resolving)
           (segments env req))\<rparr>"
  by (simp add: check_multiple_Some request_decision_def)

lemmas create_def =
  create_exec_approval_requirement_for_command_def [unfolded Let_def, folded segments_def heuristics_def, unfolded request_check]

lemma prompting_match:
  "list_ex (\<lambda>m. is_policy_match m \<and> match_decision m = d)
     (concat (map (\<lambda>cmd. matches_for_command_with_options env p cmd fb options) cmds)) \<longleftrightarrow>
   (\<exists>cmd \<in> set cmds. d \<in> rule_decision ` set (applicable_rules env p options cmd))"
  by (simp add: list_ex_iff policy_match_decision)

lemma create_Allow:
  "request_decision env p req = Allow \<Longrightarrow>
   \<exists>a. create_exec_approval_requirement_for_command env p req =
     Some (Skip (\<forall>cmd \<in> set (segments env req). Allow \<in> rule_decision ` set (applicable_rules (shell_dirs env) p resolving cmd)) a)"
  by (simp add: create_def list_all_iff list_ex_iff policy_match_decision)

lemma create_Forbidden:
  "request_decision env p req = Forbidden \<Longrightarrow> \<exists>reason. create_exec_approval_requirement_for_command env p req = Some (Refused reason)"
  by (simp add: create_def)

lemma create_Prompt:
  "request_decision env p req = Prompt \<Longrightarrow>
   (case prompt_is_rejected_by_policy (approval_policy req)
      (\<exists>cmd \<in> set (segments env req). Prompt \<in> rule_decision ` set (applicable_rules (shell_dirs env) p resolving cmd)) of
      Some reason \<Rightarrow> create_exec_approval_requirement_for_command env p req = Some (Refused reason)
    | None \<Rightarrow> \<exists>reason a. create_exec_approval_requirement_for_command env p req = Some (NeedsApproval reason a))"
  by (simp add: create_def prompting_match split: option.splits)

lemma create_Skip_iff:
  "(\<exists>a. create_exec_approval_requirement_for_command env p req = Some (Skip b a)) \<longleftrightarrow>
   request_decision env p req = Allow \<and>
   b = (\<forall>cmd \<in> set (segments env req). Allow \<in> rule_decision ` set (applicable_rules (shell_dirs env) p resolving cmd))"
proof (cases "request_decision env p req")
  case Allow
  then show ?thesis using create_Allow [OF Allow] by auto
next
  case Prompt
  then show ?thesis using create_Prompt [OF Prompt] by (auto split: option.splits)
next
  case Forbidden
  then show ?thesis using create_Forbidden [OF Forbidden] by auto
qed

lemma request_Allow_iff:
  "request_decision env p req = Allow \<longleftrightarrow>
   (\<forall>cmd \<in> set (segments env req). segment_decision (shell_dirs env) p (heuristics env req) cmd = Allow)"
  unfolding request_decision_def by (subst Max_Allow_iff) auto

lemma segment_Allow_iff:
  "segment_decision env p fallback cmd = Allow \<longleftrightarrow>
   (if applicable_rules env p resolving cmd = [] then fallback cmd = Allow
    else \<forall>r \<in> set (applicable_rules env p resolving cmd). rule_decision r = Allow)"
  using Max_Allow_iff [of "rule_decision ` set (applicable_rules env p resolving cmd)"]
  by (simp add: segment_decision_def)

lemma bypass_iff:
  "(\<exists>a. create_exec_approval_requirement_for_command env p req = Some (Skip True a)) \<longleftrightarrow>
   (\<forall>cmd \<in> set (segments env req).
      applicable_rules (shell_dirs env) p resolving cmd \<noteq> [] \<and>
      (\<forall>r \<in> set (applicable_rules (shell_dirs env) p resolving cmd). rule_decision r = Allow))"
proof -
  have rules: "(if rs = [] then h else \<forall>r \<in> set rs. rule_decision r = Allow) \<and> Allow \<in> rule_decision ` set rs \<longleftrightarrow>
      rs \<noteq> [] \<and> (\<forall>r \<in> set rs. rule_decision r = Allow)" for h rs
    by (cases rs) auto
  show ?thesis
    unfolding create_Skip_iff request_Allow_iff segment_Allow_iff
    by (simp only: eq_True eq_commute [of True] ball_conj_distrib [symmetric] rules)
qed

text \<open>
  C7: the sandbox is bypassed only by rules. A command runs outside the sandbox without being
  asked for exactly when every segment of it has a rule and every rule that applies to a
  segment allows it; the heuristics never suffice.
\<close>

theorem sandbox_bypass_needs_rules:
  "(\<exists>a. create_exec_approval_requirement_for_command env p req = Some (Skip True a)) \<longleftrightarrow>
   (\<forall>cmd \<in> set (commands (commands_for_exec_policy env (request_command req))).
      applicable_rules (shell_dirs env) p resolving cmd \<noteq> [] \<and>
      (\<forall>r \<in> set (applicable_rules (shell_dirs env) p resolving cmd). rule_decision r = Allow))"
  unfolding bypass_iff segments_def ..

definition demo_shell :: shell_env where
  "demo_shell = \<lparr>plain_commands = (\<lambda>_. None), single_command_prefix = (\<lambda>_. None), join_words = (\<lambda>_. None),
     shell_dirs = \<lparr>env_home = None, env_cwd = Some (lit ''/w'')\<rparr>\<rparr>"

definition demo_request :: "ask_for_approval \<Rightarrow> command \<Rightarrow> approval_request" where
  "demo_request ask cmd =
     \<lparr>request_command = cmd, approval_policy = ask, request_profile = Disabled, file_system_kind = Restricted,
      request_sandbox_permissions = UseDefault, request_prefix_rule = None\<rparr>"

definition demo_allow_git :: policy where
  "demo_allow_git = policy_empty\<lparr>rules_by_program :=
     [(lit ''git'', [\<lparr>pattern = \<lparr>pattern_first = lit ''git'', pattern_rest = []\<rparr>, rule_decision = Allow, justification = None\<rparr>])]\<rparr>"

lemma demo_segments: "commands_for_exec_policy demo_shell cmd = \<lparr>commands = [cmd], used_complex_parsing = False\<rparr>"
  by (simp add: commands_for_exec_policy_def demo_shell_def)

theorem sandbox_bypass_needs_rules_witness:
  "\<exists>a. create_exec_approval_requirement_for_command demo_shell demo_allow_git (demo_request Never [lit ''git'', lit ''push'']) = Some (Skip True a)"
  unfolding sandbox_bypass_needs_rules
  by (simp add: demo_segments demo_request_def applicable_rules_def exact_rules_def rules_for_def demo_allow_git_def
      policy_empty_def accepts_def)

lemma not_rejected_iff:
  "prompt_is_rejected_by_policy policy b = None \<longleftrightarrow>
   (case policy of Never \<Rightarrow> False | Granular config \<Rightarrow> (if b then rules_approval config else sandbox_approval config) | _ \<Rightarrow> True)"
  by (cases policy) (simp_all add: prompt_is_rejected_by_policy_def)

text \<open>
  C21: nobody is asked against the approval policy. A command needs an approval only when
  prompting is not disabled, and under granular settings only when the setting for the cause of
  the prompt, a rule or the heuristics, permits it.
\<close>

theorem prompts_respect_approval_policy:
  assumes "create_exec_approval_requirement_for_command env p req = Some (NeedsApproval reason a)"
  shows "case approval_policy req of
      Never \<Rightarrow> False
    | Granular config \<Rightarrow>
        (if \<exists>cmd \<in> set (commands (commands_for_exec_policy env (request_command req))).
              Prompt \<in> rule_decision ` set (applicable_rules (shell_dirs env) p resolving cmd)
         then rules_approval config else sandbox_approval config)
    | _ \<Rightarrow> True"
proof -
  have prompt: "request_decision env p req = Prompt"
    using assms create_Allow [of env p req] create_Forbidden [of env p req] by (cases "request_decision env p req") auto
  have "prompt_is_rejected_by_policy (approval_policy req)
      (\<exists>cmd \<in> set (segments env req). Prompt \<in> rule_decision ` set (applicable_rules (shell_dirs env) p resolving cmd)) = None"
    using create_Prompt [OF prompt] assms by (auto split: option.splits)
  then show ?thesis unfolding segments_def [symmetric] not_rejected_iff .
qed

lemma no_rules_empty: "applicable_rules env policy_empty options cmd = []"
  by (auto simp: applicable_rules_def exact_rules_def host_rules_def rules_for_def policy_empty_def split: list.splits option.splits)

lemma demo_dangerous: "command_might_be_dangerous (plain_commands demo_shell) [lit ''rm'', lit ''-rf'', lit ''x'']"
  by (simp add: command_might_be_dangerous_def rust_eval)

lemma demo_decision:
  "request_decision demo_shell policy_empty (demo_request ask cmd) = heuristics demo_shell (demo_request ask cmd) cmd"
proof -
  have "segments demo_shell (demo_request ask cmd) = [cmd]" by (simp add: segments_def demo_segments demo_request_def)
  then show ?thesis by (simp add: request_decision_def segment_decision_def no_rules_empty)
qed

definition demo_granular :: granular_approval_config where
  "demo_granular = \<lparr>sandbox_approval = True, rules_approval = False, skill_approval = False,
     request_permissions = False, mcp_elicitations = False\<rparr>"

theorem prompts_respect_approval_policy_witness:
  "\<exists>reason a. create_exec_approval_requirement_for_command demo_shell policy_empty
      (demo_request (Granular demo_granular) [lit ''rm'', lit ''-rf'', lit ''x'']) = Some (NeedsApproval reason a) \<and>
    sandbox_approval demo_granular"
proof -
  let ?req = "demo_request (Granular demo_granular) [lit ''rm'', lit ''-rf'', lit ''x'']"
  have "request_decision demo_shell policy_empty ?req = Prompt"
    unfolding demo_decision heuristics_def render_decision_for_unmatched_command_def
    using demo_dangerous by (simp add: demo_request_def)
  from create_Prompt [OF this] obtain reason a where
    r: "create_exec_approval_requirement_for_command demo_shell policy_empty ?req = Some (NeedsApproval reason a)"
    by (auto simp: prompt_is_rejected_by_policy_def demo_request_def demo_granular_def no_rules_empty)
  from prompts_respect_approval_policy [OF r] have "sandbox_approval demo_granular"
    by (simp add: demo_request_def no_rules_empty)
  then show ?thesis using r by blast
qed

text \<open>
  C17: a dangerous command is not run unasked. When a request with a dangerous segment that no
  rule speaks of is let through, prompting and the sandbox are both switched off, or the segment
  is on the safelist as well.
\<close>

theorem dangerous_command_not_skipped:
  assumes "create_exec_approval_requirement_for_command env p req = Some (Skip bypass a)"
    and "cmd \<in> set (commands (commands_for_exec_policy env (request_command req)))"
    and "applicable_rules (shell_dirs env) p resolving cmd = []"
    and "command_might_be_dangerous (plain_commands env) cmd"
  shows "\<not> bypass \<and>
    (approval_policy req = Never \<and> request_profile req \<noteq> Managed \<or>
     approval_policy req = UnlessTrusted \<and> is_known_safe_command (plain_commands env) cmd)"
proof -
  have cmd: "cmd \<in> set (segments env req)" using assms(2) by (simp add: segments_def)
  have skip: "request_decision env p req = Allow"
    "bypass = (\<forall>cmd \<in> set (segments env req). Allow \<in> rule_decision ` set (applicable_rules (shell_dirs env) p resolving cmd))"
    using assms(1) create_Skip_iff [of env p req bypass] by auto
  then have "heuristics env req cmd = Allow"
    using cmd assms(3) by (auto simp: request_Allow_iff segment_Allow_iff)
  then have "approval_policy req = Never \<and> request_profile req \<noteq> Managed \<or>
     approval_policy req = UnlessTrusted \<and> is_known_safe_command (plain_commands env) cmd"
    using assms(4)
    by (auto simp: heuristics_def render_decision_for_unmatched_command_def split: if_splits ask_for_approval.splits)
  moreover have "\<not> bypass" using skip(2) cmd assms(3) by force
  ultimately show ?thesis by blast
qed

theorem dangerous_command_not_skipped_witness:
  "\<exists>bypass a. create_exec_approval_requirement_for_command demo_shell policy_empty (demo_request Never [lit ''rm'', lit ''-rf'', lit ''x'']) =
      Some (Skip bypass a) \<and> \<not> bypass \<and> request_profile (demo_request Never [lit ''rm'', lit ''-rf'', lit ''x'']) \<noteq> Managed"
proof -
  let ?req = "demo_request Never [lit ''rm'', lit ''-rf'', lit ''x'']"
  have "request_decision demo_shell policy_empty ?req = Allow"
    unfolding demo_decision heuristics_def render_decision_for_unmatched_command_def
    using demo_dangerous by (simp add: demo_request_def)
  from create_Allow [OF this] obtain bypass a where
    r: "create_exec_approval_requirement_for_command demo_shell policy_empty ?req = Some (Skip bypass a)" by blast
  from dangerous_command_not_skipped [OF r, of "[lit ''rm'', lit ''-rf'', lit ''x'']"] show ?thesis
    using r demo_dangerous by (auto simp: demo_segments demo_request_def no_rules_empty)
qed

end
