(* ===== verification/Approval_Session.thy ===== *)
theory Approval_Session
  imports Exec_Approval
begin

text \<open>
  The policy of a session over time: what an approved amendment achieves, and what every
  sequence of loading and amending keeps.
\<close>

section \<open>Base names\<close>

lemma file_name_proper: "path_file_name q = Some f \<Longrightarrow> proper_name f"
proof -
  assume f: "path_file_name q = Some f"
  then have "components q \<noteq> []" "last (components q) = Normal f"
    by (auto simp: path_file_name_def last_opt_def split: option.splits path_component.splits if_splits)
  then have "Normal f \<in> set (components q)" by (metis last_in_set)
  then have "Normal f \<in> set (inner_components (split_on slash q))"
    by (auto simp: components_def Let_def split: if_splits)
  then show "proper_name f"
    by (auto simp: inner_components_def named_component_def proper_name_def dest: split_on_parts split: if_splits)
qed

lemma file_name_rooted: "list_all proper_name names \<Longrightarrow> names \<noteq> [] \<Longrightarrow> path_file_name (rooted names) = Some (last names)"
  by (simp add: path_file_name_def components_rooted last_opt_def last_map)

lemma base_name_resolves:
  assumes "proper_name f" "f \<noteq> lit ''~''" "from_absolute_path env f = Some q" "pred_option is_absolute (env_cwd env)"
  shows "path_file_name q = Some f"
proof -
  have rel: "\<not> is_absolute f" using assms(1) by (cases f) (auto simp: proper_name_def)
  have "maybe_expand_home_directory (env_home env) f = f"
    using assms(1,2)
    by (cases f; cases "tl f") (auto simp: maybe_expand_home_directory_def strip_prefix_def proper_name_def rust_eval
        split: option.splits list.splits if_splits)
  then obtain cwd where cwd: "env_cwd env = Some cwd" "q = absolutize_from f cwd"
    using assms(3) rel by (auto simp: from_absolute_path_def absolutize_def)
  then have "is_absolute cwd" using assms(4) by simp
  then have "q = rooted (walk [] (split_on slash cwd) @ [f])"
    using cwd(2) rel assms(1) walk_proper_id [of "[f]"]
    by (simp add: absolutize_from_walk split_on_no_sep proper_name_def)
  moreover have "list_all proper_name (walk [] (split_on slash cwd) @ [f])"
    using assms(1) walk_proper [OF _ split_segments, of "[]" cwd] by simp
  ultimately show ?thesis by (simp add: file_name_rooted)
qed

section \<open>Adding an allow rule\<close>

definition allow_rule :: "command \<Rightarrow> prefix_rule" where
  "allow_rule prefix = \<lparr>pattern = \<lparr>pattern_first = hd prefix, pattern_rest = map Single (tl prefix)\<rparr>,
     rule_decision = Allow, justification = None\<rparr>"

lemma accepts_allow_rule: "prefix \<noteq> [] \<Longrightarrow> accepts (pattern (allow_rule prefix)) cmd \<longleftrightarrow> (\<exists>others. cmd = prefix @ others)"
proof -
  have "list_all2 token_matches (map Single ws) args \<longleftrightarrow> args = ws" for ws args
    by (induction ws arbitrary: args) (auto simp: list_all2_Cons1)
  then show "prefix \<noteq> [] \<Longrightarrow> ?thesis" by (cases prefix) (auto simp: accepts_def allow_rule_def)
qed

lemma add_allow_rule:
  assumes "prefix \<noteq> []"
  shows "\<exists>p'. add_prefix_rule prefix Allow p = Inr p' \<and> host_executables_by_name p' = host_executables_by_name p \<and>
    (\<forall>k. rules_for p' k = rules_for p k @ (if k = hd prefix then [allow_rule prefix] else []))"
  using assms by (cases prefix) (simp_all add: add_prefix_rule_def Let_def rules_for_eq rules_of_insert allow_rule_def)

lemma exact_rules_added:
  "(\<And>k. rules_for p' k = rules_for p k @ (if k = hd prefix then [r] else [])) \<Longrightarrow>
   exact_rules p' cmd = exact_rules p cmd @ (if cmd \<noteq> [] \<and> hd cmd = hd prefix \<and> accepts (pattern r) cmd then [r] else [])"
  by (cases cmd) (simp_all add: exact_rules_def)

lemma host_rules_added:
  assumes "\<And>k. rules_for p' k = rules_for p k @ (if k = hd prefix then [r] else [])"
    "host_executables_by_name p' = host_executables_by_name p"
  shows "host_rules env p' cmd = host_rules env p cmd @
    (case cmd of [] \<Rightarrow> [] | c # args \<Rightarrow>
       (case host_name env p c of None \<Rightarrow> []
        | Some (base, _) \<Rightarrow> if base = hd prefix \<and> accepts (pattern r) (base # args) then [r] else []))"
proof -
  have "host_name env p' = host_name env p" unfolding host_name_def assms(2) ..
  then show ?thesis using assms(1) by (simp add: host_rules_def split: list.splits option.splits)
qed

lemma applicable_added:
  assumes added: "add_prefix_rule prefix Allow p = Inr p'" and ne: "prefix \<noteq> []"
    and none: "applicable_rules env p resolving cmd = []"
  shows "set (applicable_rules env p' resolving cmd) \<subseteq> {allow_rule prefix}"
    and "(\<exists>others. cmd = prefix @ others) \<Longrightarrow> applicable_rules env p' resolving cmd \<noteq> []"
    and "applicable_rules env p' resolving cmd \<noteq> [] \<Longrightarrow> hd prefix \<noteq> lit ''~'' \<Longrightarrow>
      pred_option is_absolute (env_cwd env) \<Longrightarrow> applicable_rules env p resolving prefix = []"
proof -
  let ?r = "allow_rule prefix"
  have p': "\<And>k. rules_for p' k = rules_for p k @ (if k = hd prefix then [?r] else [])"
    and hosts: "host_executables_by_name p' = host_executables_by_name p"
    using add_allow_rule [OF ne, of p] added by auto
  have old: "exact_rules p cmd = []" "host_rules env p cmd = []"
    using none by (auto simp: applicable_rules_def resolving_def split: if_splits)
  note new = exact_rules_added [OF p', of cmd, unfolded old append_Nil] host_rules_added [OF p' hosts, of env cmd, unfolded old append_Nil]
  show "set (applicable_rules env p' resolving cmd) \<subseteq> {?r}"
    by (auto simp: applicable_rules_def new split: if_splits list.splits option.splits)
  show "applicable_rules env p' resolving cmd \<noteq> []" if "\<exists>others. cmd = prefix @ others"
    using that ne by (auto simp: applicable_rules_def new accepts_allow_rule)
  show "applicable_rules env p resolving prefix = []"
    if applies: "applicable_rules env p' resolving cmd \<noteq> []" and tilde: "hd prefix \<noteq> lit ''~''"
      and cwd: "pred_option is_absolute (env_cwd env)"
  proof -
    obtain f rest where prefix: "prefix = f # rest" using ne by (cases prefix) auto
    have untouched: "filter (\<lambda>r. accepts (pattern r) (k # rest)) (rules_for p k) = []"
      if "filter (\<lambda>r. accepts (pattern r) (k # rest @ others)) (rules_for p k) = []" for k others
      using that accepts_append [of _ "k # rest" others] by (auto simp: filter_empty_conv)
    consider others where "cmd = prefix @ others"
      | c args program others where "cmd = c # args" "host_name env p c = Some (f, program)" "f # args = prefix @ others"
      using applies ne accepts_allow_rule [OF ne]
      by (auto simp: applicable_rules_def new prefix split: if_splits list.splits option.splits)
    then show ?thesis
    proof cases
      case (1 others)
      then have cmd: "cmd = f # rest @ others" by (simp add: prefix)
      have "exact_rules p prefix = []" using old(1) untouched [of f] by (simp add: exact_rules_def prefix cmd)
      moreover have "host_rules env p prefix = []"
        using old(2) untouched by (auto simp: host_rules_def prefix cmd split: option.splits)
      ultimately show ?thesis by (simp add: applicable_rules_def)
    next
      case (2 c args program others)
      then have args: "args = rest @ others" by (simp add: prefix)
      have f: "proper_name f" using 2(2) by (auto simp: host_name_def dest: file_name_proper split: option.splits if_splits)
      have none_f: "filter (\<lambda>r. accepts (pattern r) (f # rest)) (rules_for p f) = []"
        using old(2) 2(1,2) untouched [of f] by (auto simp: host_rules_def args)
      have "base = f" if "host_name env p f = Some (base, q)" for base q
        using that base_name_resolves [OF f _ _ cwd] tilde
        by (auto simp: host_name_def prefix split: option.splits if_splits)
      then have "host_rules env p prefix = []" using none_f by (auto simp: host_rules_def prefix split: option.splits)
      moreover have "exact_rules p prefix = []" using none_f by (simp add: exact_rules_def prefix)
      ultimately show ?thesis by (simp add: applicable_rules_def)
    qed
  qed
qed

section \<open>An approved amendment\<close>

text \<open>What an amendment proposed for a single segment is good for.\<close>

lemma proposed_amendment:
  assumes "create_exec_approval_requirement_for_command env p req = Some (NeedsApproval reason (Some amendment))"
    and "segments env req = [cmd]" and "amendment \<noteq> []" and "add_prefix_rule amendment Allow p = Inr p'"
  shows "applicable_rules (shell_dirs env) p resolving cmd = []" "applicable_rules (shell_dirs env) p' resolving cmd \<noteq> []"
proof -
  let ?app = "applicable_rules (shell_dirs env) p resolving cmd"
  let ?ms = "matches_for_command_with_options (shell_dirs env) p cmd (Some (heuristics env req)) resolving"
  have decision: "request_decision env p req = Prompt"
    using assms(1) create_Allow [of env p req] create_Forbidden [of env p req] by (cases "request_decision env p req") auto
  have source: "derive_requested_execpolicy_amendment_from_prefix_rule (shell_dirs env) (request_prefix_rule req) ?ms p [cmd]
        (heuristics env req) resolving = Some amendment \<or>
      try_derive_execpolicy_amendment_for_prompt_rules ?ms = Some amendment"
    using assms(1) unfolding create_def assms(2)
    by (auto simp: decision split: option.splits if_splits)
  have rules: "list_ex is_policy_match ?ms" "\<not> (\<exists>m \<in> set ?ms. is_heuristics m)" if "?app \<noteq> []"
    using matches_shape(2) [OF that, of "Some (heuristics env req)"]
      matches_with_fallback(1) [of "shell_dirs env" p cmd "heuristics env req" resolving]
    by (auto simp: list_all_iff list_ex_iff is_policy_match_iff neq_Nil_conv)
  have derived: "HeuristicsRuleMatch amendment Prompt \<in> set ?ms"
    if "try_derive_execpolicy_amendment_for_prompt_rules ?ms = Some amendment"
  proof -
    have "amendment \<in> set (List.map_filter (\<lambda>m. case m of HeuristicsRuleMatch c Prompt \<Rightarrow> Some c | _ \<Rightarrow> None) ?ms)"
      using that by (auto simp: try_derive_execpolicy_amendment_for_prompt_rules_def split: if_splits list.splits)
    then show ?thesis by (auto simp: List.map_filter_def split: rule_match.splits decision.splits)
  qed
  show none: "?app = []"
  proof (rule ccontr)
    assume ne: "?app \<noteq> []"
    from source show False
      using rules [OF ne] derived
      by (force simp: derive_requested_execpolicy_amendment_from_prefix_rule_def split: option.splits if_splits)
  qed
  have prompt: "heuristics env req cmd = Prompt"
    using decision none by (simp add: request_decision_def assms(2) segment_decision_def)
  from source show "applicable_rules (shell_dirs env) p' resolving cmd \<noteq> []"
  proof
    assume "try_derive_execpolicy_amendment_for_prompt_rules ?ms = Some amendment"
    then have "amendment = cmd" using derived matches_shape(1) [OF none, of "Some (heuristics env req)"] by simp
    then show ?thesis using applicable_added(2) [OF assms(4,3) none] by simp
  next
    assume "derive_requested_execpolicy_amendment_from_prefix_rule (shell_dirs env) (request_prefix_rule req) ?ms p [cmd]
        (heuristics env req) resolving = Some amendment"
    then have "prefix_rule_would_approve_all_commands (shell_dirs env) p amendment [cmd] (heuristics env req) resolving"
      by (auto simp: derive_requested_execpolicy_amendment_from_prefix_rule_def split: option.splits if_splits)
    then show ?thesis
      using prompt by (auto simp: prefix_rule_would_approve_all_commands_def assms(4) check_Some)
  qed
qed

lemma update_adds_rule:
  assumes "append_amendment_and_update env io json home amendment m = (Inr (), m')"
    and "applicable_rules env (current_policy m) resolving amendment = []"
  shows "amendment \<noteq> [] \<and> add_prefix_rule amendment Allow (current_policy m) = Inr (current_policy m')"
proof -
  have "check_multiple_with_options env (current_policy m) [amendment] (\<lambda>_. Forbidden) resolving =
      Some \<lparr>eval_decision = Forbidden, matched_rules = matches_for_command_with_options env (current_policy m) amendment (Some (\<lambda>_. Forbidden)) resolving\<rparr>"
    using assms(2) by (simp add: check_multiple_Some segment_decision_def)
  then show ?thesis using assms(1)
    by (auto simp: append_amendment_and_update_def blocking_append_allow_prefix_rule_def Let_def split: prod.splits sum.splits if_splits)
qed

lemma update_success_nonempty:
  "append_amendment_and_update env io json home amendment m = (Inr (), m') \<Longrightarrow> amendment \<noteq> []"
  by (auto simp: append_amendment_and_update_def blocking_append_allow_prefix_rule_def Let_def)

text \<open>
  C9: approving once is enough. When a request of one segment needs an approval, the user accepts
  the proposed amendment and the session has stored it, the same request runs without being
  asked for again, and outside the sandbox. The working directory is absolute, and no rule is
  asked for under the name \<^verbatim>\<open>~\<close>, which is expanded to the home directory.
\<close>

theorem approved_amendment_skips_next_time:
  assumes "create_exec_approval_requirement_for_command env (current_policy m) req = Some (NeedsApproval reason (Some amendment))"
    and "commands (commands_for_exec_policy env (request_command req)) = [cmd]"
    and "append_amendment_and_update (shell_dirs env) io json home amendment m = (Inr (), m')"
    and "pred_option is_absolute (env_cwd (shell_dirs env))" and "hd amendment \<noteq> lit ''~''"
  shows "\<exists>a. create_exec_approval_requirement_for_command env (current_policy m') req = Some (Skip True a)"
proof -
  have seg: "segments env req = [cmd]" using assms(2) by (simp add: segments_def)
  have ne: "amendment \<noteq> []" using assms(3) by (rule update_success_nonempty)
  obtain p' where p': "add_prefix_rule amendment Allow (current_policy m) = Inr p'" using add_allow_rule [OF ne] by blast
  note proposed = proposed_amendment [OF assms(1) seg ne p']
  have "applicable_rules (shell_dirs env) (current_policy m) resolving amendment = []"
    using applicable_added(3) [OF p' ne proposed(1,2) assms(5,4)] .
  then have "current_policy m' = p'" using update_adds_rule [OF assms(3)] p' by simp
  moreover have "\<forall>r \<in> set (applicable_rules (shell_dirs env) p' resolving cmd). rule_decision r = Allow"
    using applicable_added(1) [OF p' ne proposed(1)] by (auto simp: allow_rule_def)
  ultimately show ?thesis using proposed(2) by (simp add: bypass_iff seg)
qed

lemma demo_needs_approval:
  "\<exists>reason. create_exec_approval_requirement_for_command demo_shell policy_empty (demo_request UnlessTrusted [lit ''rm'', lit ''-f'']) =
     Some (NeedsApproval reason (Some [lit ''rm'', lit ''-f'']))"
proof -
  let ?req = "demo_request UnlessTrusted [lit ''rm'', lit ''-f'']"
  have seg: "segments demo_shell ?req = [[lit ''rm'', lit ''-f'']]" by (simp add: segments_def demo_segments demo_request_def)
  have h: "heuristics demo_shell ?req [lit ''rm'', lit ''-f''] = Prompt"
    by (simp add: heuristics_def render_decision_for_unmatched_command_def demo_request_def demo_shell_def
        command_might_be_dangerous_def is_known_safe_command_def safety_eval safe_names_def rust_eval)
  have d: "request_decision demo_shell policy_empty ?req = Prompt" by (simp only: demo_decision h)
  show ?thesis
    unfolding create_def seg d
    by (simp add: matches_shape(1) [OF no_rules_empty] h [unfolded demo_request_def] try_derive_execpolicy_amendment_for_prompt_rules_def is_policy_match_def
        prompt_is_rejected_by_policy_def derive_requested_execpolicy_amendment_from_prefix_rule_def demo_request_def
        demo_segments List.map_filter_def)
qed

theorem approved_amendment_skips_next_time_witness:
  "\<exists>m'. append_amendment_and_update (shell_dirs demo_shell) demo_io demo_json (lit ''/h'') [lit ''rm'', lit ''-f'']
      \<lparr>current_policy = policy_empty, policy_files = Map.empty\<rparr> = (Inr (), m') \<and>
    (\<exists>a. create_exec_approval_requirement_for_command demo_shell (current_policy m')
       (demo_request UnlessTrusted [lit ''rm'', lit ''-f'']) = Some (Skip True a))"
proof -
  let ?m = "\<lparr>current_policy = policy_empty, policy_files = Map.empty\<rparr>"
  let ?run = "append_amendment_and_update (shell_dirs demo_shell) demo_io demo_json (lit ''/h'') [lit ''rm'', lit ''-f''] ?m"
  have "path_parent (default_policy_path (lit ''/h'')) \<noteq> None"
    by (simp add: default_policy_path_def path_parent_def components_def inner_components_def named_component_def path_push_def
        slash_def dot_def dot_dot_def last_opt_def is_absolute_def rust_eval)
  then have "fst (blocking_append_allow_prefix_rule demo_io demo_json (default_policy_path (lit ''/h'')) [lit ''rm'', lit ''-f''] Map.empty) = Inr ()"
    by (auto simp: blocking_append_allow_prefix_rule_def collect_json_def demo_json_def newline_def append_rule_line_def
        append_locked_line_succeeds demo_io_def rust_eval)
  then have "fst ?run = Inr ()"
    by (auto simp: append_amendment_and_update_def add_prefix_rule_def Let_def split: prod.splits sum.splits)
  then obtain m' where run: "?run = (Inr (), m')" by (cases ?run) auto
  obtain reason where needs: "create_exec_approval_requirement_for_command demo_shell (current_policy ?m)
      (demo_request UnlessTrusted [lit ''rm'', lit ''-f'']) = Some (NeedsApproval reason (Some [lit ''rm'', lit ''-f'']))"
    using demo_needs_approval by auto
  have cmds: "commands (commands_for_exec_policy demo_shell (request_command (demo_request UnlessTrusted [lit ''rm'', lit ''-f'']))) =
      [[lit ''rm'', lit ''-f'']]"
    by (simp add: demo_segments demo_request_def)
  have "\<exists>a. create_exec_approval_requirement_for_command demo_shell (current_policy m')
      (demo_request UnlessTrusted [lit ''rm'', lit ''-f'']) = Some (Skip True a)"
    by (rule approved_amendment_skips_next_time [OF needs cmds run])
      (simp_all add: demo_shell_def is_absolute_def slash_def rust_eval)
  then show ?thesis using run by blast
qed

section \<open>Reachable sessions\<close>

text \<open>A session loads its policy and then amends it, whatever fails on the way.\<close>

inductive session :: "policy_env \<Rightarrow> rules_fs \<Rightarrow> config_stack \<Rightarrow> manager \<Rightarrow> bool" for env fs stack where
  loaded: "load_manager env fs stack files = Inr m \<Longrightarrow> session env fs stack m"
| amended: "session env fs stack m \<Longrightarrow>
    session env fs stack (snd (append_amendment_and_update (dirs env) io json home amendment m))"
| network_amended: "session env fs stack m \<Longrightarrow>
    session env fs stack (snd (append_network_rule_and_update io json show_error home host protocol d just m))"

lemma amendment_wf:
  "policy_wf (current_policy m) \<Longrightarrow> policy_wf (current_policy (snd (append_amendment_and_update env io json home amendment m)))"
  by (auto simp: append_amendment_and_update_def Let_def intro: policy_wf_add_prefix_rule split: prod.splits sum.splits)

lemma network_amendment_wf:
  "policy_wf (current_policy m) \<Longrightarrow>
   policy_wf (current_policy (snd (append_network_rule_and_update io json show_error home host protocol d just m)))"
  by (auto simp: append_network_rule_and_update_def Let_def intro: policy_wf_add_network_rule split: prod.splits sum.splits)

text \<open>
  C18: the policy of a session stays well formed. From any configuration whose requirements were
  read from a requirements file, after any sequence of amendments, failed ones included, every
  program has one list of rules, all of them for that program, and every host executable has
  distinct, normalized absolute paths that end in its name.
\<close>

theorem session_policy_wf:
  assumes "session env fs stack m"
    and "requirements_policy stack = None \<or> (\<exists>toml req. to_policy toml = Inr req \<and> requirements_policy stack = Some req)"
  shows "policy_wf (current_policy m)"
proof -
  have req: "pred_option policy_wf (requirements_policy stack)"
    using assms(2) to_policy_wf by auto
  show ?thesis using assms(1)
  proof induction
    case (loaded files m)
    then show ?case using load_exec_policy_wf [OF _ req]
      by (auto simp: load_manager_def load_exec_policy_with_warning_def split: sum.splits exec_policy_error.splits)
  qed (simp_all add: amendment_wf network_amendment_wf)
qed

theorem session_policy_wf_witness:
  "\<exists>req m. to_policy demo_toml = Inr req \<and> session (demo_policy_env None) demo_fs (demo_stack (Some req)) m \<and>
    policy_wf (current_policy (snd (append_amendment_and_update demo_env demo_io demo_json [] [lit ''ls''] m)))"
proof -
  obtain req where req: "to_policy demo_toml = Inr req" using demo_to_policy by blast
  obtain p where "load_exec_policy (demo_policy_env None) demo_fs (demo_stack (Some req)) = Inr p" using demo_load(1) by blast
  then have "load_manager (demo_policy_env None) demo_fs (demo_stack (Some req)) Map.empty =
      Inr \<lparr>current_policy = p, policy_files = Map.empty\<rparr>"
    by (simp add: load_manager_def load_exec_policy_with_warning_def)
  then have start: "session (demo_policy_env None) demo_fs (demo_stack (Some req)) \<lparr>current_policy = p, policy_files = Map.empty\<rparr>"
    by (rule loaded)
  then have "session (demo_policy_env None) demo_fs (demo_stack (Some req))
      (snd (append_amendment_and_update (dirs (demo_policy_env None)) demo_io demo_json [] [lit ''ls''] \<lparr>current_policy = p, policy_files = Map.empty\<rparr>))"
    by (rule amended)
  from session_policy_wf [OF this] show ?thesis using req start by (auto simp: demo_stack_def demo_policy_env_def)
qed

end
