(* ===== verification/Text_Truncation.thy ===== *)
theory Text_Truncation
  imports Rust_Prelude
begin

text \<open>
  Shortening long text to a budget of bytes or approximate tokens
  (\<^verbatim>\<open>utils/string/src/truncate.rs\<close>, \<^verbatim>\<open>utils/string/src/lib.rs\<close>). Offsets count bytes of UTF-8, as in
  the code; slicing a string off a character boundary is a panic, \<open>None\<close>.
\<close>

section \<open>Bytes of a string\<close>

definition len_utf8 :: "rchar \<Rightarrow> nat" where
  "len_utf8 c = (if c < 128 then 1 else if c < 2048 then 2 else if c < 65536 then 3 else 4)"

definition str_len :: "rstr \<Rightarrow> nat" where
  "str_len s = sum_list (map len_utf8 s)"

fun split_at_byte :: "nat \<Rightarrow> rstr \<Rightarrow> (rstr \<times> rstr) option" where
  "split_at_byte n [] = (if n = 0 then Some ([], []) else None)"
| "split_at_byte n (c # s) =
     (if n = 0 then Some ([], c # s)
      else if n < len_utf8 c then None
      else map_option (\<lambda>(a, b). (c # a, b)) (split_at_byte (n - len_utf8 c) s))"

section \<open>Definitions\<close>

definition APPROX_BYTES_PER_TOKEN :: nat where "APPROX_BYTES_PER_TOKEN = 4"

definition usat_mul :: "nat \<Rightarrow> nat \<Rightarrow> nat" where
  "usat_mul a b = min (a * b) usize_max"

definition approx_token_count :: "rstr \<Rightarrow> nat" where
  "approx_token_count s = usat_add (str_len s) (APPROX_BYTES_PER_TOKEN - 1) div APPROX_BYTES_PER_TOKEN"

definition approx_bytes_for_tokens :: "nat \<Rightarrow> nat" where
  "approx_bytes_for_tokens tokens = usat_mul tokens APPROX_BYTES_PER_TOKEN"

definition approx_tokens_from_byte_count :: "nat \<Rightarrow> nat" where
  "approx_tokens_from_byte_count bytes = usat_add bytes (APPROX_BYTES_PER_TOKEN - 1) div APPROX_BYTES_PER_TOKEN"

record split_state =
  prefix_end :: nat
  suffix_start :: nat
  removed_chars :: nat
  suffix_started :: bool

fun split_loop :: "nat \<Rightarrow> nat \<Rightarrow> nat \<Rightarrow> rstr \<Rightarrow> split_state \<Rightarrow> split_state" where
  "split_loop beginning_bytes tail_start_target idx [] st = st"
| "split_loop beginning_bytes tail_start_target idx (ch # s) st =
     (let char_end = idx + len_utf8 ch
      in split_loop beginning_bytes tail_start_target char_end s
           (if char_end \<le> beginning_bytes then st\<lparr>prefix_end := char_end\<rparr>
            else if tail_start_target \<le> idx then
              (if \<not> suffix_started st then st\<lparr>suffix_start := idx, suffix_started := True\<rparr> else st)
            else st\<lparr>removed_chars := usat_add (removed_chars st) 1\<rparr>))"

definition split_string :: "rstr \<Rightarrow> nat \<Rightarrow> nat \<Rightarrow> (nat \<times> rstr \<times> rstr) option" where
  "split_string s beginning_bytes end_bytes =
     (if s = [] then Some (0, [], [])
      else
        (let len = str_len s;
             st = split_loop beginning_bytes (len - end_bytes) 0 s
               \<lparr>prefix_end = 0, suffix_start = len, removed_chars = 0, suffix_started = False\<rparr>;
             start = (if suffix_start st < prefix_end st then prefix_end st else suffix_start st)
         in case (split_at_byte (prefix_end st) s, split_at_byte start s) of
              (Some (before, _), Some (_, after)) \<Rightarrow> Some (removed_chars st, before, after)
            | _ \<Rightarrow> None))"

definition split_budget :: "nat \<Rightarrow> nat \<times> nat" where
  "split_budget budget = (let left = budget div 2 in (left, budget - left))"

definition format_truncation_marker :: "bool \<Rightarrow> nat \<Rightarrow> rstr" where
  "format_truncation_marker use_tokens removed_count =
     (if use_tokens then [8230] @ decimal removed_count @ lit '' tokens truncated'' @ [8230]
      else [8230] @ decimal removed_count @ lit '' chars truncated'' @ [8230])"

definition removed_units :: "bool \<Rightarrow> nat \<Rightarrow> nat \<Rightarrow> nat" where
  "removed_units use_tokens removed_bytes removed =
     (if use_tokens then approx_tokens_from_byte_count removed_bytes else removed)"

definition truncate_with_byte_estimate :: "rstr \<Rightarrow> nat \<Rightarrow> bool \<Rightarrow> rstr option" where
  "truncate_with_byte_estimate s max_bytes use_tokens =
     (if s = [] then Some []
      else if max_bytes = 0 then
        Some (format_truncation_marker use_tokens (removed_units use_tokens (str_len s) (length s)))
      else if str_len s \<le> max_bytes then Some s
      else
        (let (left_budget, right_budget) = split_budget max_bytes
         in case split_string s left_budget right_budget of
              None \<Rightarrow> None
            | Some (removed, left, right) \<Rightarrow>
                (let marker = format_truncation_marker use_tokens (removed_units use_tokens (str_len s - max_bytes) removed)
                 in Some (left @ marker @ right))))"

definition truncate_middle_chars :: "rstr \<Rightarrow> nat \<Rightarrow> rstr option" where
  "truncate_middle_chars s max_bytes = truncate_with_byte_estimate s max_bytes False"

definition truncate_middle_with_token_budget :: "rstr \<Rightarrow> nat \<Rightarrow> (rstr \<times> nat option) option" where
  "truncate_middle_with_token_budget s max_tokens =
     (if s = [] then Some ([], None)
      else if 0 < max_tokens \<and> str_len s \<le> approx_bytes_for_tokens max_tokens then Some (s, None)
      else
        (case truncate_with_byte_estimate s (approx_bytes_for_tokens max_tokens) True of
           None \<Rightarrow> None
         | Some truncated \<Rightarrow>
             Some (if truncated = s then (truncated, None) else (truncated, Some (approx_token_count s)))))"

fun take_loop :: "nat \<Rightarrow> nat \<Rightarrow> rstr \<Rightarrow> nat \<Rightarrow> nat" where
  "take_loop maxb i [] last_ok = last_ok"
| "take_loop maxb i (ch # s) last_ok =
     (let nb = i + len_utf8 ch in if maxb < nb then last_ok else take_loop maxb nb s nb)"

definition take_bytes_at_char_boundary :: "rstr \<Rightarrow> nat \<Rightarrow> rstr option" where
  "take_bytes_at_char_boundary s maxb =
     (if str_len s \<le> maxb then Some s else map_option fst (split_at_byte (take_loop maxb 0 s 0) s))"

section \<open>The ends that fit\<close>

text \<open>The longest head of a text within a number of bytes.\<close>

fun fitting :: "nat \<Rightarrow> rstr \<Rightarrow> rstr" where
  "fitting n [] = []"
| "fitting n (c # s) = (if len_utf8 c \<le> n then c # fitting (n - len_utf8 c) s else [])"

lemma str_len_simps [simp]:
  "str_len [] = 0" "str_len (c # s) = len_utf8 c + str_len s" "str_len (s @ t) = str_len s + str_len t" "str_len (rev s) = str_len s"
  by (simp_all add: str_len_def rev_map [symmetric])

lemma len_utf8_pos [simp]: "0 < len_utf8 c" "len_utf8 c \<noteq> 0"
  by (simp_all add: len_utf8_def)

lemma str_len_0_iff [simp]: "str_len s = 0 \<longleftrightarrow> s = []"
  by (cases s) simp_all

lemma length_le_str_len: "length s \<le> str_len s"
proof (induction s)
  case (Cons c s)
  have "1 \<le> len_utf8 c" by (simp add: len_utf8_def)
  then show ?case using Cons by simp
qed simp

lemma split_at_byte_append [simp]: "split_at_byte (str_len a) (a @ b) = Some (a, b)"
proof (induction a)
  case Nil
  show ?case by (cases b) simp_all
qed simp

lemma fitting_prefix: "\<exists>rest. s = fitting n s @ rest \<and> str_len (fitting n s) \<le> n \<and>
    (\<forall>c t. rest = c # t \<longrightarrow> n < str_len (fitting n s) + len_utf8 c)"
proof (induction n s rule: fitting.induct)
  case (2 n c s)
  show ?case
  proof (cases "len_utf8 c \<le> n")
    case True
    with 2 obtain rest where "s = fitting (n - len_utf8 c) s @ rest" "str_len (fitting (n - len_utf8 c) s) \<le> n - len_utf8 c"
      "\<forall>d t. rest = d # t \<longrightarrow> n - len_utf8 c < str_len (fitting (n - len_utf8 c) s) + len_utf8 d" by blast
    then show ?thesis using True by (intro exI [of _ rest]) auto
  qed simp
qed simp

text \<open>The head and the tail that truncation keeps, and what is left out between them.\<close>

lemma ends_split:
  obtains left mid right where "s = left @ mid @ right" "left = fitting b s" "str_len left \<le> b" "str_len right \<le> e"
    "\<And>c t. mid @ right = c # t \<Longrightarrow> b < str_len left + len_utf8 c"
    "\<And>m c. mid = m @ [c] \<Longrightarrow> e < len_utf8 c + str_len right"
proof -
  obtain rest where rest: "s = fitting b s @ rest" "str_len (fitting b s) \<le> b"
    "\<forall>c t. rest = c # t \<longrightarrow> b < str_len (fitting b s) + len_utf8 c"
    using fitting_prefix [of s b] by blast
  obtain tser where tser: "rev rest = fitting e (rev rest) @ tser" "str_len (fitting e (rev rest)) \<le> e"
    "\<forall>c t. tser = c # t \<longrightarrow> e < str_len (fitting e (rev rest)) + len_utf8 c"
    using fitting_prefix [of "rev rest" e] by blast
  have mid: "rest = rev tser @ rev (fitting e (rev rest))" using tser(1) by (metis rev_append rev_rev_ident)
  show ?thesis
  proof
    show "s = fitting b s @ rev tser @ rev (fitting e (rev rest))" using rest(1) mid by simp
    show "str_len (rev (fitting e (rev rest))) \<le> e" using tser(2) by simp
    show "b < str_len (fitting b s) + len_utf8 c" if "rev tser @ rev (fitting e (rev rest)) = c # t" for c t
      using rest(3) that mid by metis
    show "e < len_utf8 c + str_len (rev (fitting e (rev rest)))" if "rev tser = m @ [c]" for m c
    proof -
      have "tser = c # rev m" using that by (metis rev.simps(2) rev_rev_ident rev_swap)
      then show ?thesis using tser(3) by simp
    qed
  qed (use rest in simp_all)
qed

section \<open>The loop\<close>

lemma split_loop_left:
  "idx + str_len left \<le> b \<Longrightarrow>
   split_loop b t idx (left @ rest) st =
   split_loop b t (idx + str_len left) rest (if left = [] then st else st\<lparr>prefix_end := idx + str_len left\<rparr>)"
  by (induction left arbitrary: idx st) (simp_all add: Let_def add.assoc)

lemma split_loop_mid:
  "mid = [] \<or> b < idx + len_utf8 (hd mid) \<Longrightarrow> mid = [] \<or> idx + str_len (butlast mid) < t \<Longrightarrow>
   removed_chars st + length mid \<le> usize_max \<Longrightarrow>
   split_loop b t idx (mid @ right) st =
   split_loop b t (idx + str_len mid) right (st\<lparr>removed_chars := removed_chars st + length mid\<rparr>)"
proof (induction mid arbitrary: idx st)
  case (Cons c mid)
  have "mid = [] \<or> b < idx + len_utf8 c + len_utf8 (hd mid)" using Cons.prems(1) by auto
  moreover have "mid = [] \<or> idx + len_utf8 c + str_len (butlast mid) < t" using Cons.prems(2) by (auto split: if_splits)
  moreover have "idx < t" using Cons.prems(2) by (auto split: if_splits)
  ultimately show ?case
    using Cons.IH [of "idx + len_utf8 c" "st\<lparr>removed_chars := removed_chars st + 1\<rparr>"] Cons.prems
    by (simp add: Let_def usat_add_exact add.assoc)
qed simp

lemma split_loop_started:
  "suffix_started st \<Longrightarrow> t \<le> idx \<Longrightarrow> right = [] \<or> b < idx + len_utf8 (hd right) \<Longrightarrow> split_loop b t idx right st = st"
proof (induction right arbitrary: idx)
  case (Cons c right)
  then have "right = [] \<or> b < idx + len_utf8 c + len_utf8 (hd right)" by auto
  then show ?case using Cons by (simp add: Let_def)
qed simp

lemma split_loop_right:
  assumes "\<not> suffix_started st" "t \<le> idx" "right = [] \<or> b < idx + len_utf8 (hd right)"
  shows "split_loop b t idx right st = (if right = [] then st else st\<lparr>suffix_start := idx, suffix_started := True\<rparr>)"
proof (cases right)
  case (Cons c r)
  then have "r = [] \<or> b < idx + len_utf8 c + len_utf8 (hd r)" using assms(3) by auto
  then show ?thesis using assms Cons by (simp add: Let_def split_loop_started)
qed simp

lemma split_string_ends:
  assumes "s = left @ mid @ right" "s \<noteq> []" "str_len left \<le> b" "str_len right \<le> e" "length s \<le> usize_max"
    and head: "\<And>c t. mid @ right = c # t \<Longrightarrow> b < str_len left + len_utf8 c"
    and tail: "\<And>m c. mid = m @ [c] \<Longrightarrow> e < len_utf8 c + str_len right"
  shows "split_string s b e = Some (length mid, left, right)"
proof -
  define t where "t = str_len s - e"
  define st where "st = \<lparr>prefix_end = 0, suffix_start = str_len s, removed_chars = 0, suffix_started = False\<rparr>"
  have mid1: "mid = [] \<or> b < str_len left + len_utf8 (hd mid)" using head by (cases mid) auto
  have mid2: "mid = [] \<or> str_len left + str_len (butlast mid) < t"
    using tail assms(1) by (cases mid rule: rev_cases) (auto simp: t_def)
  have right1: "t \<le> str_len left + str_len mid" using assms(1,4) by (simp add: t_def)
  have right2: "right = [] \<or> b < str_len left + str_len mid + len_utf8 (hd right)"
  proof (cases mid)
    case Nil
    then show ?thesis using head by (cases right) auto
  next
    case (Cons c m)
    then show ?thesis using mid1 by simp
  qed
  have "split_loop b t 0 s st = split_loop b t (str_len left) (mid @ right) (st\<lparr>prefix_end := str_len left\<rparr>)"
    using split_loop_left [of 0 left b t "mid @ right" st] assms(1,3) by (simp add: st_def)
  also have "\<dots> = split_loop b t (str_len left + str_len mid) right
      (st\<lparr>prefix_end := str_len left, removed_chars := length mid\<rparr>)"
    using split_loop_mid [OF mid1 mid2, of "st\<lparr>prefix_end := str_len left\<rparr>"] assms(1,5) by (simp add: st_def)
  also have "\<dots> = \<lparr>prefix_end = str_len left, suffix_start = str_len left + str_len mid, removed_chars = length mid,
      suffix_started = (right \<noteq> [])\<rparr>"
    using split_loop_right [OF _ right1 right2] assms(1) by (simp add: st_def)
  finally have loop: "split_loop b t 0 s st = \<dots>" .
  have "split_at_byte (str_len left) s = Some (left, mid @ right)" "split_at_byte (str_len left + str_len mid) s = Some (left @ mid, right)"
    using split_at_byte_append [of left "mid @ right"] split_at_byte_append [of "left @ mid" right] assms(1) by simp_all
  then show ?thesis using loop assms(2) by (simp add: split_string_def t_def st_def Let_def)
qed

text \<open>
  C24: truncation keeps the longest ends that fit. A text within the budget is unchanged. Of a longer
  text exactly the longest head within one half of the budget and the longest tail within the
  other are kept, and the marker between them tells the number of characters left out.
  Truncation never slices inside a character.
\<close>

theorem truncate_keeps_ends:
  assumes "length s \<le> usize_max"
  shows "\<exists>left mid right. s = left @ mid @ right \<and>
    truncate_middle_chars s max_bytes =
      Some (if str_len s \<le> max_bytes then s else left @ format_truncation_marker False (length mid) @ right) \<and>
    str_len left \<le> max_bytes div 2 \<and> str_len right \<le> max_bytes - max_bytes div 2 \<and>
    (\<forall>c t. mid @ right = c # t \<longrightarrow> max_bytes div 2 < str_len (left @ [c])) \<and>
    (\<forall>m c. mid = m @ [c] \<longrightarrow> max_bytes - max_bytes div 2 < str_len (c # right))"
proof -
  obtain left mid right where ends: "s = left @ mid @ right" "str_len left \<le> max_bytes div 2" "str_len right \<le> max_bytes - max_bytes div 2"
    "\<And>c t. mid @ right = c # t \<Longrightarrow> max_bytes div 2 < str_len left + len_utf8 c"
    "\<And>m c. mid = m @ [c] \<Longrightarrow> max_bytes - max_bytes div 2 < len_utf8 c + str_len right"
    using ends_split [of s "max_bytes div 2" "max_bytes - max_bytes div 2"] by metis
  have "truncate_middle_chars s max_bytes =
      Some (if str_len s \<le> max_bytes then s else left @ format_truncation_marker False (length mid) @ right)"
  proof (cases "s = [] \<or> max_bytes = 0 \<or> str_len s \<le> max_bytes")
    case True
    then show ?thesis using ends(1-3)
      by (auto simp: truncate_middle_chars_def truncate_with_byte_estimate_def removed_units_def)
  next
    case False
    then have "split_string s (max_bytes div 2) (max_bytes - max_bytes div 2) = Some (length mid, left, right)"
      using split_string_ends [OF ends(1) _ ends(2,3) assms] ends(4,5) by blast
    then show ?thesis using False
      by (simp add: truncate_middle_chars_def truncate_with_byte_estimate_def split_budget_def removed_units_def Let_def)
  qed
  then show ?thesis using ends by (intro exI [of _ left] exI [of _ mid] exI [of _ right]) auto
qed

theorem truncate_keeps_ends_witness:
  "\<exists>left mid right. lit ''abcdefgh'' = left @ mid @ right \<and> length (lit ''abcdefgh'') \<le> usize_max \<and>
    truncate_middle_chars (lit ''abcdefgh'') 4 = Some (left @ format_truncation_marker False (length mid) @ right)"
proof -
  have "length (lit ''abcdefgh'') \<le> usize_max" by (simp add: usize_max_def rust_eval)
  moreover have "\<not> str_len (lit ''abcdefgh'') \<le> 4" by (simp add: len_utf8_def rust_eval)
  ultimately show ?thesis using truncate_keeps_ends [of "lit ''abcdefgh''" 4] by auto
qed

text \<open>The marker comes on top of the budget: a truncated text can be longer than the budget, even than the text.\<close>

lemma truncation_exceeds_budget:
  "truncate_middle_chars (lit ''abcdefgh'') 4 = Some (lit ''ab'' @ format_truncation_marker False 4 @ lit ''gh'') \<and>
   8 < str_len (lit ''ab'' @ format_truncation_marker False 4 @ lit ''gh'')"
proof
  have "split_string (lit ''abcdefgh'') 2 2 = Some (4, lit ''ab'', lit ''gh'')"
    using split_string_ends [of "lit ''abcdefgh''" "lit ''ab''" "lit ''cdef''" "lit ''gh''" 2 2]
    by (simp add: usize_max_def len_utf8_def append_eq_Cons_conv Cons_eq_append_conv rust_eval)
  then show "truncate_middle_chars (lit ''abcdefgh'') 4 = Some (lit ''ab'' @ format_truncation_marker False 4 @ lit ''gh'')"
    by (simp add: truncate_middle_chars_def truncate_with_byte_estimate_def split_budget_def removed_units_def len_utf8_def rust_eval)
  show "8 < str_len (lit ''ab'' @ format_truncation_marker False 4 @ lit ''gh'')"
    by (simp add: format_truncation_marker_def decimal.simps [of 4] len_utf8_def rust_eval)
qed

lemma take_loop_fitting: "i \<le> maxb \<Longrightarrow> take_loop maxb i s i = i + str_len (fitting (maxb - i) s)"
  by (induction s arbitrary: i) (auto simp: Let_def)

lemma take_bytes_fitting: "take_bytes_at_char_boundary s maxb = Some (fitting maxb s)"
proof -
  obtain rest where s: "s = fitting maxb s @ rest" "\<forall>c t. rest = c # t \<longrightarrow> maxb < str_len (fitting maxb s) + len_utf8 c"
    using fitting_prefix [of s maxb] by blast
  have "rest = []" if "str_len s \<le> maxb"
  proof (cases rest)
    case (Cons c t)
    then have "str_len (fitting maxb s) + len_utf8 c \<le> str_len s" using arg_cong [OF s(1), of str_len] by simp
    then show ?thesis using s(2) Cons that by auto
  qed simp
  moreover have "split_at_byte (str_len (fitting maxb s)) s = Some (fitting maxb s, rest)"
    using split_at_byte_append [of "fitting maxb s" rest] s(1) by simp
  ultimately show ?thesis using s(1) by (auto simp: take_bytes_at_char_boundary_def take_loop_fitting)
qed

text \<open>Slicing is always at a character boundary, so truncation never panics.\<close>

definition boundary :: "rstr \<Rightarrow> nat \<Rightarrow> bool" where
  "boundary s n \<longleftrightarrow> (\<exists>a b. s = a @ b \<and> n = str_len a)"

lemma boundaryI: "s = a @ b \<Longrightarrow> boundary s (str_len a)"
  by (auto simp: boundary_def)

lemma boundary_split: "boundary s n \<Longrightarrow> \<exists>a b. split_at_byte n s = Some (a, b)"
  by (auto simp: boundary_def)

lemma split_loop_boundary:
  "boundary (pre @ s) (prefix_end st) \<Longrightarrow> boundary (pre @ s) (suffix_start st) \<Longrightarrow>
   boundary (pre @ s) (prefix_end (split_loop b t (str_len pre) s st)) \<and> boundary (pre @ s) (suffix_start (split_loop b t (str_len pre) s st))"
proof (induction s arbitrary: pre st)
  case (Cons c s)
  have "boundary (pre @ c # s) (str_len pre)" "boundary (pre @ c # s) (str_len pre + len_utf8 c)"
    using boundaryI [of "pre @ c # s" pre] boundaryI [of "pre @ c # s" "pre @ [c]" s] by simp_all
  then show ?case using Cons.IH [of "pre @ [c]"] Cons.prems by (simp add: Let_def)
qed simp

lemma split_string_total: "\<exists>r. split_string s b e = Some r"
proof -
  let ?st = "split_loop b (str_len s - e) 0 s \<lparr>prefix_end = 0, suffix_start = str_len s, removed_chars = 0, suffix_started = False\<rparr>"
  note boundaryI [of s "[]" s] boundaryI [of s s "[]"]
  then have "boundary s (prefix_end ?st)" "boundary s (suffix_start ?st)"
    using split_loop_boundary [of "[]" s "\<lparr>prefix_end = 0, suffix_start = str_len s, removed_chars = 0, suffix_started = False\<rparr>"] by auto
  then have "boundary s (prefix_end ?st)" "boundary s (if suffix_start ?st < prefix_end ?st then prefix_end ?st else suffix_start ?st)"
    by simp_all
  from this [THEN boundary_split] show ?thesis by (auto simp: split_string_def Let_def)
qed

lemma truncate_total: "\<exists>t. truncate_with_byte_estimate s max_bytes use_tokens = Some t"
  using split_string_total [of s "max_bytes div 2" "max_bytes - max_bytes div 2"]
  by (auto simp: truncate_with_byte_estimate_def split_budget_def Let_def)

section \<open>Policies and tool outputs\<close>

datatype truncation_policy = Bytes nat | Tokens nat

fun token_budget :: "truncation_policy \<Rightarrow> nat" where
  "token_budget (Bytes bytes) = approx_tokens_from_byte_count bytes"
| "token_budget (Tokens tokens) = tokens"

fun byte_budget :: "truncation_policy \<Rightarrow> nat" where
  "byte_budget (Bytes bytes) = bytes"
| "byte_budget (Tokens tokens) = approx_bytes_for_tokens tokens"

fun truncate_text :: "rstr \<Rightarrow> truncation_policy \<Rightarrow> rstr option" where
  "truncate_text content (Bytes bytes) = truncate_middle_chars content bytes"
| "truncate_text content (Tokens tokens) = map_option fst (truncate_middle_with_token_budget content tokens)"

definition formatted_truncate_text :: "rstr \<Rightarrow> truncation_policy \<Rightarrow> rstr option" where
  "formatted_truncate_text content policy =
     (if str_len content \<le> byte_budget policy then Some content
      else map_option (\<lambda>result. lit ''Total output lines: '' @ decimal (length (str_lines content)) @ [newline, newline] @ result)
             (truncate_text content policy))"

datatype image_detail = Auto | Low | High | Original

datatype output_content_item =
    FInputText rstr
  | FInputImage rstr "image_detail option"
  | EncryptedContent rstr

definition text_of :: "output_content_item \<Rightarrow> rstr option" where
  "text_of item = (case item of FInputText t \<Rightarrow> Some t | _ \<Rightarrow> None)"

definition combine_texts :: "rstr list \<Rightarrow> rstr" where
  "combine_texts texts =
     fold (\<lambda>t combined. (if combined \<noteq> [] then combined @ [newline] else combined) @ t) texts []"

definition formatted_truncate_text_content_items_with_policy ::
    "output_content_item list \<Rightarrow> truncation_policy \<Rightarrow> (output_content_item list \<times> nat option) option" where
  "formatted_truncate_text_content_items_with_policy items policy =
     (let text_segments = List.map_filter text_of items
      in if text_segments = [] then Some (items, None)
         else
           (let combined = combine_texts text_segments
            in if str_len combined \<le> byte_budget policy then Some (items, None)
               else map_option (\<lambda>t. (FInputText t # filter (\<lambda>item. text_of item = None) items, Some (approx_token_count combined)))
                      (formatted_truncate_text combined policy)))"

definition text_cost :: "truncation_policy \<Rightarrow> rstr \<Rightarrow> nat" where
  "text_cost policy t = (case policy of Bytes _ \<Rightarrow> str_len t | Tokens _ \<Rightarrow> approx_token_count t)"

definition with_budget :: "truncation_policy \<Rightarrow> nat \<Rightarrow> truncation_policy" where
  "with_budget policy n = (case policy of Bytes _ \<Rightarrow> Bytes n | Tokens _ \<Rightarrow> Tokens n)"

text \<open>The loop over the items: what is put out, and how many texts are omitted.\<close>

fun truncate_items_loop ::
    "truncation_policy \<Rightarrow> output_content_item list \<Rightarrow> nat \<Rightarrow> (output_content_item list \<times> nat) option" where
  "truncate_items_loop policy [] remaining_budget = Some ([], 0)"
| "truncate_items_loop policy (FInputText t # items) remaining_budget =
     (if remaining_budget = 0 then map_option (\<lambda>(out, n). (out, Suc n)) (truncate_items_loop policy items 0)
      else
        (let cost = text_cost policy t
         in if cost \<le> remaining_budget then
              map_option (\<lambda>(out, n). (FInputText t # out, n)) (truncate_items_loop policy items (remaining_budget - cost))
            else
              (case truncate_text t (with_budget policy remaining_budget) of
                 None \<Rightarrow> None
               | Some snippet \<Rightarrow>
                   map_option (\<lambda>(out, n). if snippet = [] then (out, Suc n) else (FInputText snippet # out, n))
                     (truncate_items_loop policy items 0))))"
| "truncate_items_loop policy (item # items) remaining_budget =
     map_option (\<lambda>(out, n). (item # out, n)) (truncate_items_loop policy items remaining_budget)"

definition truncate_function_output_items_with_policy ::
    "output_content_item list \<Rightarrow> truncation_policy \<Rightarrow> output_content_item list option" where
  "truncate_function_output_items_with_policy items policy =
     map_option (\<lambda>(out, omitted). if 0 < omitted
         then out @ [FInputText (lit ''[omitted '' @ decimal omitted @ lit '' text items ...]'')] else out)
       (truncate_items_loop policy items (case policy of Bytes n \<Rightarrow> n | Tokens n \<Rightarrow> n))"

lemma truncate_text_total: "\<exists>t. truncate_text s policy = Some t"
proof (cases policy)
  case (Bytes n)
  then show ?thesis using truncate_total [of s n False] by (auto simp: truncate_middle_chars_def)
next
  case (Tokens n)
  then show ?thesis
    using truncate_total [of s "approx_bytes_for_tokens n" True]
    by (auto simp: truncate_middle_with_token_budget_def split: option.splits)
qed

lemma truncate_items_total: "\<exists>out. truncate_function_output_items_with_policy items policy = Some out"
proof -
  have "truncate_items_loop policy items budget \<noteq> None" for budget
  proof (induction items arbitrary: budget)
    case (Cons item items)
    have "truncate_text t p \<noteq> None" for t p using truncate_text_total [of t p] by auto
    then show ?case using Cons.IH by (cases item) (auto simp del: not_None_eq simp: Let_def split: option.splits)
  qed simp
  then show ?thesis by (simp add: truncate_function_output_items_with_policy_def)
qed

definition approx_tokens_from_byte_count_i64 :: "int \<Rightarrow> int" where
  "approx_tokens_from_byte_count_i64 bytes =
     (if bytes \<le> 0 then 0 else i64_of_usize (approx_tokens_from_byte_count (nat bytes)))"

text \<open>
  Multiplying a policy by 1.2. The factor is the double \<open>5404319552844595 / 2 ^ 52\<close>; converting and
  multiplying round to 53 significant bits, ties to even; the result is rounded up and
  saturates.
\<close>

fun bit_length :: "nat \<Rightarrow> nat" where
  "bit_length n = (if n = 0 then 0 else Suc (bit_length (n div 2)))"

declare bit_length.simps [simp del]

definition round_f64 :: "nat \<Rightarrow> nat" where
  "round_f64 n =
     (let k = bit_length n - 53
      in if k = 0 then n
         else
           (let q = n div 2 ^ k; r = n mod 2 ^ k; half = 2 ^ (k - 1)
            in (if half < r \<or> r = half \<and> odd q then q + 1 else q) * 2 ^ k))"

definition mul_1_2 :: "nat \<Rightarrow> nat" where
  "mul_1_2 n = min usize_max ((round_f64 (round_f64 n * 5404319552844595) + (2 ^ 52 - 1)) div 2 ^ 52)"

fun policy_mul_1_2 :: "truncation_policy \<Rightarrow> truncation_policy" where
  "policy_mul_1_2 (Bytes bytes) = Bytes (mul_1_2 bytes)"
| "policy_mul_1_2 (Tokens tokens) = Tokens (mul_1_2 tokens)"

section \<open>What is left of a tool output\<close>

text \<open>
  Only texts are shortened: every other item survives in its place. The texts before the budget
  is used up are unchanged, at most one more is shortened, and the rest are counted.
\<close>

definition shortened ::
    "truncation_policy \<Rightarrow> nat \<Rightarrow> output_content_item list \<Rightarrow> output_content_item list \<Rightarrow> nat \<Rightarrow> rstr list \<Rightarrow> rstr list \<Rightarrow> rstr list \<Rightarrow> bool" where
  "shortened policy budget items out omitted kept rest snippets \<longleftrightarrow>
     filter (\<lambda>i. text_of i = None) out = filter (\<lambda>i. text_of i = None) items \<and>
     List.map_filter text_of items = kept @ rest \<and> List.map_filter text_of out = kept @ snippets \<and>
     length snippets \<le> 1 \<and> sum_list (map (text_cost policy) kept) \<le> budget \<and>
     omitted + length snippets = length rest \<and> (rest = [] \<longrightarrow> out = items)"

lemma text_of_simps [simp]:
  "text_of (FInputText t) = Some t" "text_of (FInputImage u d) = None" "text_of (EncryptedContent e) = None"
  by (simp_all add: text_of_def)

lemma map_filter_text_simps [simp]:
  "List.map_filter text_of [] = []" "List.map_filter text_of (FInputText t # items) = t # List.map_filter text_of items"
  "text_of item = None \<Longrightarrow> List.map_filter text_of (item # items) = List.map_filter text_of items"
  by (simp_all add: List.map_filter_def)

lemma truncate_items_loop_empty:
  "truncate_items_loop policy items 0 = Some (out, n) \<Longrightarrow>
   filter (\<lambda>i. text_of i = None) out = filter (\<lambda>i. text_of i = None) items \<and>
   List.map_filter text_of out = [] \<and> n = length (List.map_filter text_of items)"
proof (induction policy items "0 :: nat" arbitrary: out n rule: truncate_items_loop.induct)
  case (2 policy t items)
  then obtain n' where "truncate_items_loop policy items 0 = Some (out, n')" "n = Suc n'" by auto
  with 2(1) show ?case by simp
qed (auto split: prod.splits)

lemma shortened_other:
  "text_of item = None \<Longrightarrow> shortened policy budget items out n kept rest snippets \<Longrightarrow>
   shortened policy budget (item # items) (item # out) n kept rest snippets"
  by (simp add: shortened_def)

lemma truncate_items_loop_shape:
  "truncate_items_loop policy items budget = Some (out, n) \<Longrightarrow>
   \<exists>kept rest snippets. shortened policy budget items out n kept rest snippets"
proof (induction items arbitrary: budget out n)
  case Nil
  then have "shortened policy budget [] out n [] [] []" by (simp add: shortened_def)
  then show ?case by blast
next
  case (Cons item items)
  show ?case
  proof (cases item)
    case (FInputText t)
    consider (empty) "budget = 0" | (fits) "budget \<noteq> 0" "text_cost policy t \<le> budget" | (cut) "budget \<noteq> 0" "\<not> text_cost policy t \<le> budget"
      by blast
    then show ?thesis
    proof cases
      case empty
      then have "shortened policy budget (item # items) out n [] (t # List.map_filter text_of items) []"
        using Cons.prems truncate_items_loop_empty [of policy items] by (auto simp: FInputText shortened_def)
      then show ?thesis by blast
    next
      case fits
      then obtain out' where out': "truncate_items_loop policy items (budget - text_cost policy t) = Some (out', n)" "out = FInputText t # out'"
        using Cons.prems by (auto simp: FInputText)
      from Cons.IH [OF out'(1)] obtain kept rest snippets where
        "shortened policy (budget - text_cost policy t) items out' n kept rest snippets" by blast
      then have "shortened policy budget (item # items) out n (t # kept) rest snippets"
        using out'(2) fits by (auto simp: FInputText shortened_def)
      then show ?thesis by blast
    next
      case cut
      then obtain snippet out' n' where rec: "truncate_items_loop policy items 0 = Some (out', n')"
        and out: "(if snippet = [] then (out', Suc n') else (FInputText snippet # out', n')) = (out, n)"
        using Cons.prems by (auto simp: FInputText Let_def split: option.splits)
      then have "shortened policy budget (item # items) out n [] (t # List.map_filter text_of items) (if snippet = [] then [] else [snippet])"
        using truncate_items_loop_empty [OF rec] cut by (auto simp: FInputText shortened_def split: if_splits)
      then show ?thesis by blast
    qed
  next
    case (FInputImage u d)
    then obtain out' where "truncate_items_loop policy items budget = Some (out', n)" "out = item # out'" using Cons.prems by auto
    then show ?thesis using Cons.IH [of budget out' n] shortened_other [of item] FInputImage by fastforce
  next
    case (EncryptedContent e)
    then obtain out' where "truncate_items_loop policy items budget = Some (out', n)" "out = item # out'" using Cons.prems by auto
    then show ?thesis using Cons.IH [of budget out' n] shortened_other [of item] EncryptedContent by fastforce
  qed
qed

end
