(* ===== verification/Response_Items.thy ===== *)
theory Response_Items
  imports Text_Truncation
begin

text \<open>
  The items of a conversation (\<^verbatim>\<open>protocol/src/models.rs\<close>) and the passes that keep calls and their
  outputs together (\<^verbatim>\<open>core/src/context_manager/normalize.rs\<close>). Values that these passes only copy
  are kept as their JSON text. The build is a release build, in which \<^verbatim>\<open>error_or_panic\<close> logs.
\<close>

type_synonym json_value = rstr

datatype content_item =
    InputText rstr
  | InputImage rstr "image_detail option"
  | OutputText rstr

datatype function_call_output_body = TextBody rstr | ContentItems "output_content_item list"

record function_call_output_payload =
  payload_body :: function_call_output_body
  payload_success :: "bool option"

datatype response_item =
    Message (message_id: "rstr option") (message_role: rstr) (message_content: "content_item list")
      (message_phase: "json_value option")
  | Reasoning (reasoning_id: "rstr option") (summary: json_value) (reasoning_content: "json_value option")
      (encrypted_content: "rstr option") (metadata: "json_value option") (raw_wire_block: "json_value option")
  | LocalShellCall (shell_id: "rstr option") (shell_call_id: "rstr option") (shell_status: json_value) (action: json_value)
  | FunctionCall (function_id: "rstr option") (function_name: rstr) (namespace: "rstr option") (arguments: rstr)
      (function_call_id: rstr)
  | ToolSearchCall (search_id: "rstr option") (search_call_id: "rstr option") (search_status: "rstr option")
      (search_execution: rstr) (search_arguments: json_value)
  | FunctionCallOutput (output_call_id: rstr) (function_output: function_call_output_payload)
  | CustomToolCall (custom_id: "rstr option") (custom_status: "rstr option") (custom_call_id: rstr) (custom_name: rstr)
      (custom_input: rstr)
  | CustomToolCallOutput (custom_output_call_id: rstr) (custom_output_name: "rstr option")
      (custom_output: function_call_output_payload)
  | ToolSearchOutput (search_output_call_id: "rstr option") (output_status: rstr) (output_execution: rstr)
      (output_tools: "json_value list")
  | WebSearchCall (web_id: "rstr option") (web_status: "rstr option") (web_action: "json_value option")
  | ImageGenerationCall (image_id: rstr) (image_status: rstr) (revised_prompt: "rstr option") (image_result: rstr)
  | Compaction (compaction_content: rstr)
  | CompactionTrigger
  | ContextCompaction (context_content: "rstr option")
  | OtherItem

definition from_text :: "rstr \<Rightarrow> function_call_output_payload" where
  "from_text content = \<lparr>payload_body = TextBody content, payload_success = None\<rparr>"

section \<open>Passes\<close>

definition has_function_output :: "response_item list \<Rightarrow> rstr \<Rightarrow> bool" where
  "has_function_output items call_id = list_ex (\<lambda>i. case i of FunctionCallOutput existing _ \<Rightarrow> existing = call_id | _ \<Rightarrow> False) items"

definition has_search_output :: "response_item list \<Rightarrow> rstr \<Rightarrow> bool" where
  "has_search_output items call_id =
     list_ex (\<lambda>i. case i of ToolSearchOutput (Some existing) _ _ _ \<Rightarrow> existing = call_id | _ \<Rightarrow> False) items"

definition has_custom_output :: "response_item list \<Rightarrow> rstr \<Rightarrow> bool" where
  "has_custom_output items call_id =
     list_ex (\<lambda>i. case i of CustomToolCallOutput existing _ _ \<Rightarrow> existing = call_id | _ \<Rightarrow> False) items"

definition missing_output :: "response_item list \<Rightarrow> response_item \<Rightarrow> response_item option" where
  "missing_output items item =
     (case item of
        FunctionCall _ _ _ _ call_id \<Rightarrow>
          if \<not> has_function_output items call_id then Some (FunctionCallOutput call_id (from_text (lit ''aborted''))) else None
      | ToolSearchCall _ (Some call_id) _ _ _ \<Rightarrow>
          if \<not> has_search_output items call_id
          then Some (ToolSearchOutput (Some call_id) (lit ''completed'') (lit ''client'') []) else None
      | CustomToolCall _ _ call_id _ _ \<Rightarrow>
          if \<not> has_custom_output items call_id
          then Some (CustomToolCallOutput call_id None (from_text (lit ''aborted''))) else None
      | LocalShellCall _ (Some call_id) _ _ \<Rightarrow>
          if \<not> has_function_output items call_id then Some (FunctionCallOutput call_id (from_text (lit ''aborted''))) else None
      | _ \<Rightarrow> None)"

definition missing_outputs_to_insert :: "response_item list \<Rightarrow> (nat \<times> response_item) list" where
  "missing_outputs_to_insert items =
     List.map_filter (\<lambda>(idx, item). map_option (Pair idx) (missing_output items item)) (enumerate 0 items)"

definition ensure_call_outputs_present :: "response_item list \<Rightarrow> response_item list option" where
  "ensure_call_outputs_present items =
     fold (\<lambda>(idx, output_item) res. Option.bind res (vec_insert (idx + 1) output_item))
       (rev (missing_outputs_to_insert items)) (Some items)"

definition function_call_ids :: "response_item list \<Rightarrow> rstr list" where
  "function_call_ids = List.map_filter (\<lambda>i. case i of FunctionCall _ _ _ _ call_id \<Rightarrow> Some call_id | _ \<Rightarrow> None)"

definition tool_search_call_ids :: "response_item list \<Rightarrow> rstr list" where
  "tool_search_call_ids = List.map_filter (\<lambda>i. case i of ToolSearchCall _ call_id _ _ _ \<Rightarrow> call_id | _ \<Rightarrow> None)"

definition local_shell_call_ids :: "response_item list \<Rightarrow> rstr list" where
  "local_shell_call_ids = List.map_filter (\<lambda>i. case i of LocalShellCall _ call_id _ _ \<Rightarrow> call_id | _ \<Rightarrow> None)"

definition custom_tool_call_ids :: "response_item list \<Rightarrow> rstr list" where
  "custom_tool_call_ids = List.map_filter (\<lambda>i. case i of CustomToolCall _ _ call_id _ _ \<Rightarrow> Some call_id | _ \<Rightarrow> None)"

definition remove_orphan_outputs :: "response_item list \<Rightarrow> response_item list" where
  "remove_orphan_outputs items =
     filter (\<lambda>item. case item of
         FunctionCallOutput call_id _ \<Rightarrow>
           call_id \<in> set (function_call_ids items) \<or> call_id \<in> set (local_shell_call_ids items)
       | CustomToolCallOutput call_id _ _ \<Rightarrow> call_id \<in> set (custom_tool_call_ids items)
       | ToolSearchOutput call_id _ execution _ \<Rightarrow>
           if execution = lit ''server'' then True
           else (case call_id of Some call_id \<Rightarrow> call_id \<in> set (tool_search_call_ids items) | None \<Rightarrow> True)
       | _ \<Rightarrow> True) items"

definition remove_first_matching :: "(response_item \<Rightarrow> bool) \<Rightarrow> response_item list \<Rightarrow> response_item list" where
  "remove_first_matching predicate items =
     (case position predicate items of Some pos \<Rightarrow> take pos items @ drop (Suc pos) items | None \<Rightarrow> items)"

definition is_function_output :: "rstr \<Rightarrow> response_item \<Rightarrow> bool" where
  "is_function_output call_id i = (case i of FunctionCallOutput existing _ \<Rightarrow> existing = call_id | _ \<Rightarrow> False)"

definition remove_corresponding_for :: "response_item list \<Rightarrow> response_item \<Rightarrow> response_item list" where
  "remove_corresponding_for items item =
     (case item of
        FunctionCall _ _ _ _ call_id \<Rightarrow> remove_first_matching (is_function_output call_id) items
      | FunctionCallOutput call_id _ \<Rightarrow>
          (case position (\<lambda>i. case i of FunctionCall _ _ _ _ existing \<Rightarrow> existing = call_id | _ \<Rightarrow> False) items of
             Some pos \<Rightarrow> take pos items @ drop (Suc pos) items
           | None \<Rightarrow>
               remove_first_matching (\<lambda>i. case i of LocalShellCall _ existing _ _ \<Rightarrow> existing = Some call_id | _ \<Rightarrow> False) items)
      | ToolSearchCall _ (Some call_id) _ _ _ \<Rightarrow>
          remove_first_matching (\<lambda>i. case i of ToolSearchOutput existing _ _ _ \<Rightarrow> existing = Some call_id | _ \<Rightarrow> False) items
      | ToolSearchOutput (Some call_id) _ _ _ \<Rightarrow>
          remove_first_matching (\<lambda>i. case i of ToolSearchCall _ existing _ _ _ \<Rightarrow> existing = Some call_id | _ \<Rightarrow> False) items
      | CustomToolCall _ _ call_id _ _ \<Rightarrow>
          remove_first_matching (\<lambda>i. case i of CustomToolCallOutput existing _ _ \<Rightarrow> existing = call_id | _ \<Rightarrow> False) items
      | CustomToolCallOutput call_id _ _ \<Rightarrow>
          remove_first_matching (\<lambda>i. case i of CustomToolCall _ _ existing _ _ \<Rightarrow> existing = call_id | _ \<Rightarrow> False) items
      | LocalShellCall _ (Some call_id) _ _ \<Rightarrow> remove_first_matching (is_function_output call_id) items
      | _ \<Rightarrow> items)"

definition IMAGE_CONTENT_OMITTED_PLACEHOLDER :: rstr where
  "IMAGE_CONTENT_OMITTED_PLACEHOLDER = lit ''image content omitted because you do not support image input''"

fun strip_content :: "content_item \<Rightarrow> content_item" where
  "strip_content (InputImage _ _) = InputText IMAGE_CONTENT_OMITTED_PLACEHOLDER"
| "strip_content item = item"

fun strip_output_content :: "output_content_item \<Rightarrow> output_content_item" where
  "strip_output_content (FInputImage _ _) = FInputText IMAGE_CONTENT_OMITTED_PLACEHOLDER"
| "strip_output_content item = item"

definition strip_payload :: "function_call_output_payload \<Rightarrow> function_call_output_payload" where
  "strip_payload output =
     (case payload_body output of
        TextBody _ \<Rightarrow> output
      | ContentItems content_items \<Rightarrow> output\<lparr>payload_body := ContentItems (map strip_output_content content_items)\<rparr>)"

definition strip_item :: "response_item \<Rightarrow> response_item" where
  "strip_item item =
     (case item of
        Message i role content phase \<Rightarrow> Message i role (map strip_content content) phase
      | FunctionCallOutput call_id output \<Rightarrow> FunctionCallOutput call_id (strip_payload output)
      | CustomToolCallOutput call_id name output \<Rightarrow> CustomToolCallOutput call_id name (strip_payload output)
      | ImageGenerationCall i status revised _ \<Rightarrow> ImageGenerationCall i status revised []
      | _ \<Rightarrow> item)"

datatype input_modality = TextModality | ImageModality

definition strip_images_when_unsupported :: "input_modality list \<Rightarrow> response_item list \<Rightarrow> response_item list" where
  "strip_images_when_unsupported input_modalities items =
     (if ImageModality \<in> set input_modalities then items else map strip_item items)"

section \<open>Calls and outputs\<close>

text \<open>What a call waits for and what an output answers.\<close>

datatype call_key = FunctionKey rstr | CustomKey rstr | SearchKey rstr

definition call_of :: "response_item \<Rightarrow> call_key option" where
  "call_of item =
     (case item of
        FunctionCall _ _ _ _ call_id \<Rightarrow> Some (FunctionKey call_id)
      | LocalShellCall _ call_id _ _ \<Rightarrow> map_option FunctionKey call_id
      | ToolSearchCall _ call_id _ _ _ \<Rightarrow> map_option SearchKey call_id
      | CustomToolCall _ _ call_id _ _ \<Rightarrow> Some (CustomKey call_id)
      | _ \<Rightarrow> None)"

definition output_of :: "response_item \<Rightarrow> call_key option" where
  "output_of item =
     (case item of
        FunctionCallOutput call_id _ \<Rightarrow> Some (FunctionKey call_id)
      | ToolSearchOutput call_id _ _ _ \<Rightarrow> map_option SearchKey call_id
      | CustomToolCallOutput call_id _ _ \<Rightarrow> Some (CustomKey call_id)
      | _ \<Rightarrow> None)"

definition from_server :: "response_item \<Rightarrow> bool" where
  "from_server item = (case item of ToolSearchOutput _ _ execution _ \<Rightarrow> execution = lit ''server'' | _ \<Rightarrow> False)"

definition calls :: "response_item list \<Rightarrow> call_key list" where
  "calls = List.map_filter call_of"

definition outputs :: "response_item list \<Rightarrow> call_key list" where
  "outputs = List.map_filter output_of"

fun synthetic :: "call_key \<Rightarrow> response_item" where
  "synthetic (FunctionKey call_id) = FunctionCallOutput call_id (from_text (lit ''aborted''))"
| "synthetic (CustomKey call_id) = CustomToolCallOutput call_id None (from_text (lit ''aborted''))"
| "synthetic (SearchKey call_id) = ToolSearchOutput (Some call_id) (lit ''completed'') (lit ''client'') []"

lemma set_map_filter: "set (List.map_filter f xs) = {y. \<exists>x \<in> set xs. f x = Some y}"
  by (auto simp: List.map_filter_def) (force)

lemma outputs_iff: "k \<in> set (outputs items) \<longleftrightarrow> (\<exists>i \<in> set items. output_of i = Some k)"
  by (simp add: outputs_def set_map_filter)

lemma calls_iff: "k \<in> set (calls items) \<longleftrightarrow> (\<exists>i \<in> set items. call_of i = Some k)"
  by (simp add: calls_def set_map_filter)

lemma output_of_iff:
  "output_of i = Some (FunctionKey c) \<longleftrightarrow> (case i of FunctionCallOutput e _ \<Rightarrow> e = c | _ \<Rightarrow> False)"
  "output_of i = Some (CustomKey c) \<longleftrightarrow> (case i of CustomToolCallOutput e _ _ \<Rightarrow> e = c | _ \<Rightarrow> False)"
  "output_of i = Some (SearchKey c) \<longleftrightarrow> (case i of ToolSearchOutput e _ _ _ \<Rightarrow> e = Some c | _ \<Rightarrow> False)"
  by (auto simp: output_of_def split: response_item.splits)

lemma has_output_iff:
  "has_function_output items c \<longleftrightarrow> FunctionKey c \<in> set (outputs items)"
  "has_custom_output items c \<longleftrightarrow> CustomKey c \<in> set (outputs items)"
  "has_search_output items c \<longleftrightarrow> SearchKey c \<in> set (outputs items)"
proof -
  have "(case i of ToolSearchOutput (Some e) _ _ _ \<Rightarrow> e = c | _ \<Rightarrow> False) \<longleftrightarrow> (case i of ToolSearchOutput e _ _ _ \<Rightarrow> e = Some c | _ \<Rightarrow> False)" for i
    by (auto split: response_item.splits option.splits)
  then show "has_function_output items c \<longleftrightarrow> FunctionKey c \<in> set (outputs items)"
    "has_custom_output items c \<longleftrightarrow> CustomKey c \<in> set (outputs items)"
    "has_search_output items c \<longleftrightarrow> SearchKey c \<in> set (outputs items)"
    by (simp_all add: outputs_iff output_of_iff has_function_output_def has_custom_output_def has_search_output_def list_ex_iff)
qed

lemma missing_output_eq:
  "missing_output items item =
   (case call_of item of None \<Rightarrow> None | Some k \<Rightarrow> if k \<in> set (outputs items) then None else Some (synthetic k))"
  by (cases item) (simp_all add: missing_output_def call_of_def has_output_iff split: option.splits)

lemma synthetic_simps [simp]: "output_of (synthetic k) = Some k" "call_of (synthetic k) = None"
  by (cases k; simp add: output_of_def call_of_def)+

lemma call_ids_iff:
  "c \<in> set (function_call_ids items) \<or> c \<in> set (local_shell_call_ids items) \<longleftrightarrow> FunctionKey c \<in> set (calls items)"
  "c \<in> set (custom_tool_call_ids items) \<longleftrightarrow> CustomKey c \<in> set (calls items)"
  "c \<in> set (tool_search_call_ids items) \<longleftrightarrow> SearchKey c \<in> set (calls items)"
proof -
  have "call_of i = Some (FunctionKey c) \<longleftrightarrow>
      (case i of FunctionCall _ _ _ _ e \<Rightarrow> Some e | _ \<Rightarrow> None) = Some c \<or> (case i of LocalShellCall _ e _ _ \<Rightarrow> e | _ \<Rightarrow> None) = Some c"
    "call_of i = Some (CustomKey c) \<longleftrightarrow> (case i of CustomToolCall _ _ e _ _ \<Rightarrow> Some e | _ \<Rightarrow> None) = Some c"
    "call_of i = Some (SearchKey c) \<longleftrightarrow> (case i of ToolSearchCall _ e _ _ _ \<Rightarrow> e | _ \<Rightarrow> None) = Some c" for i
    by (cases i; simp add: call_of_def)+
  then show "c \<in> set (function_call_ids items) \<or> c \<in> set (local_shell_call_ids items) \<longleftrightarrow> FunctionKey c \<in> set (calls items)"
    "c \<in> set (custom_tool_call_ids items) \<longleftrightarrow> CustomKey c \<in> set (calls items)"
    "c \<in> set (tool_search_call_ids items) \<longleftrightarrow> SearchKey c \<in> set (calls items)"
    by (auto simp: calls_iff function_call_ids_def local_shell_call_ids_def custom_tool_call_ids_def tool_search_call_ids_def set_map_filter)
qed

lemma remove_orphan_outputs_eq:
  "remove_orphan_outputs items =
   filter (\<lambda>i. from_server i \<or> (case output_of i of None \<Rightarrow> True | Some k \<Rightarrow> k \<in> set (calls items))) items"
  unfolding remove_orphan_outputs_def
proof (rule filter_cong)
  fix i
  show "(case i of
         FunctionCallOutput call_id _ \<Rightarrow> call_id \<in> set (function_call_ids items) \<or> call_id \<in> set (local_shell_call_ids items)
       | CustomToolCallOutput call_id _ _ \<Rightarrow> call_id \<in> set (custom_tool_call_ids items)
       | ToolSearchOutput call_id _ execution _ \<Rightarrow>
           if execution = lit ''server'' then True
           else (case call_id of Some call_id \<Rightarrow> call_id \<in> set (tool_search_call_ids items) | None \<Rightarrow> True)
       | _ \<Rightarrow> True) \<longleftrightarrow> from_server i \<or> (case output_of i of None \<Rightarrow> True | Some k \<Rightarrow> k \<in> set (calls items))"
    by (cases i) (simp_all only: call_ids_iff response_item.case; simp add: from_server_def output_of_def split: option.splits)+
qed simp

section \<open>Normalisation\<close>

text \<open>Inserting from the back keeps the positions of what comes before.\<close>

definition insert_after :: "('a \<Rightarrow> 'a option) \<Rightarrow> 'a list \<Rightarrow> 'a list" where
  "insert_after f xs = concat (map (\<lambda>x. x # (case f x of None \<Rightarrow> [] | Some y \<Rightarrow> [y])) xs)"

lemma insert_after_simps [simp]:
  "insert_after f [] = []"
  "insert_after f (x # xs) = x # (case f x of None \<Rightarrow> [] | Some y \<Rightarrow> [y]) @ insert_after f xs"
  "insert_after f (xs @ ys) = insert_after f xs @ insert_after f ys"
  by (simp_all add: insert_after_def)

lemma insert_backwards:
  "fold (\<lambda>(idx, y) res. Option.bind res (vec_insert (idx + 1) y))
     (rev (List.map_filter (\<lambda>(idx, x). map_option (Pair idx) (f x)) (enumerate 0 xs))) (Some (xs @ tail)) =
   Some (insert_after f xs @ tail)"
proof (induction xs arbitrary: tail rule: rev_induct)
  case Nil
  show ?case by (simp add: List.map_filter_def)
next
  case (snoc x xs)
  then show ?case
    by (cases "f x") (simp_all add: enumerate_append_eq List.map_filter_def vec_insert_def)
qed

lemma ensure_call_outputs_present_eq:
  "ensure_call_outputs_present items = Some (insert_after (missing_output items) items)"
  using insert_backwards [of "missing_output items" items "[]"]
  by (simp add: ensure_call_outputs_present_def missing_outputs_to_insert_def)

definition normalize_pairs :: "response_item list \<Rightarrow> response_item list" where
  "normalize_pairs items = remove_orphan_outputs (insert_after (missing_output items) items)"

lemma set_insert_after: "set (insert_after f xs) = set xs \<union> {y. \<exists>x \<in> set xs. f x = Some y}"
  by (induction xs) (auto split: option.splits)

lemma missing_output_Some:
  "missing_output items i = Some y \<longleftrightarrow> (\<exists>k. call_of i = Some k \<and> k \<notin> set (outputs items) \<and> y = synthetic k)"
  by (auto simp: missing_output_eq split: option.splits if_splits)

lemma calls_insert_after: "set (calls (insert_after (missing_output items) items)) = set (calls items)"
  by (auto simp: calls_iff set_insert_after missing_output_Some set_eq_iff)

lemma outputs_insert_after: "set (outputs (insert_after (missing_output items) items)) = set (outputs items) \<union> set (calls items)"
proof (rule set_eqI)
  fix k
  have "\<exists>y. output_of y = Some k \<and> (\<exists>x \<in> set items. missing_output items x = Some y)"
    if "i \<in> set items" "call_of i = Some k" "k \<notin> set (outputs items)" for i
    using that by (intro exI [of _ "synthetic k"]) (auto simp: missing_output_Some)
  moreover have "k \<in> set (calls items)" if "output_of y = Some k" "x \<in> set items" "missing_output items x = Some y" for x y
    using that by (auto simp: missing_output_Some calls_iff)
  ultimately show "k \<in> set (outputs (insert_after (missing_output items) items)) \<longleftrightarrow> k \<in> set (outputs items) \<union> set (calls items)"
    unfolding Un_iff outputs_iff [of k "insert_after (missing_output items) items"] set_insert_after
    using outputs_iff [of k items] calls_iff [of k items] by blast
qed

text \<open>Every call has an output and every output, unless the server produced it, has a call.\<close>

definition paired_up :: "response_item list \<Rightarrow> bool" where
  "paired_up items \<longleftrightarrow>
     set (calls items) \<subseteq> set (outputs items) \<and>
     (\<forall>i \<in> set items. \<forall>k. output_of i = Some k \<longrightarrow> from_server i \<or> k \<in> set (calls items))"

lemma output_not_call: "output_of i = Some k \<Longrightarrow> call_of i = None"
  by (cases i) (simp_all add: output_of_def call_of_def)

lemma calls_remove_orphans: "calls (remove_orphan_outputs items) = calls items"
proof -
  have kept: "List.map_filter call_of (filter P items) = List.map_filter call_of items"
    if "\<And>i. \<not> P i \<Longrightarrow> call_of i = None" for P
    using that by (induction items) (auto simp: List.map_filter_def)
  show ?thesis unfolding remove_orphan_outputs_eq calls_def
    by (rule kept) (auto split: option.splits dest: output_not_call)
qed

lemma normalize_pairs_paired: "paired_up (normalize_pairs items)"
proof -
  let ?xs = "insert_after (missing_output items) items"
  have "k \<in> set (outputs (remove_orphan_outputs ?xs))" if k: "k \<in> set (calls ?xs)" for k
  proof -
    have "k \<in> set (outputs ?xs)" using k by (simp add: calls_insert_after outputs_insert_after)
    then obtain i where "i \<in> set ?xs" "output_of i = Some k" by (auto simp: outputs_iff)
    then show ?thesis using k by (auto simp: outputs_iff remove_orphan_outputs_eq)
  qed
  then show ?thesis
    unfolding paired_up_def normalize_pairs_def calls_remove_orphans
    by (auto simp: remove_orphan_outputs_eq)
qed

text \<open>A history that is paired up already is left alone.\<close>

lemma insert_after_id: "(\<And>x. x \<in> set xs \<Longrightarrow> f x = None) \<Longrightarrow> insert_after f xs = xs"
  by (induction xs) auto

lemma normalize_pairs_id: "paired_up items \<Longrightarrow> normalize_pairs items = items"
proof -
  assume p: "paired_up items"
  have "k \<in> set (outputs items)" if "i \<in> set items" "call_of i = Some k" for i k
    using p that calls_iff [of k items] by (auto simp: paired_up_def)
  then have "insert_after (missing_output items) items = items"
    by (intro insert_after_id) (auto simp: missing_output_eq split: option.splits)
  moreover have "remove_orphan_outputs items = items"
    unfolding remove_orphan_outputs_eq using p by (intro filter_True) (auto simp: paired_up_def split: option.splits)
  ultimately show ?thesis by (simp add: normalize_pairs_def)
qed

text \<open>Everything but outputs stays, in its order; so do the outputs that answer a call.\<close>

lemma normalize_pairs_keeps_others:
  "filter (\<lambda>i. output_of i = None) (normalize_pairs items) = filter (\<lambda>i. output_of i = None) items"
proof -
  have "filter (\<lambda>i. output_of i = None) (insert_after (missing_output items') items) = filter (\<lambda>i. output_of i = None) items" for items'
    by (induction items) (auto simp: missing_output_eq split: option.splits)
  moreover have "filter (\<lambda>i. output_of i = None) (remove_orphan_outputs xs) = filter (\<lambda>i. output_of i = None) xs" for xs
    unfolding remove_orphan_outputs_eq filter_filter by (rule filter_cong) auto
  ultimately show ?thesis by (simp add: normalize_pairs_def)
qed

definition answered :: "response_item list \<Rightarrow> response_item \<Rightarrow> bool" where
  "answered items i \<longleftrightarrow> output_of i \<noteq> None \<and> the (output_of i) \<in> set (outputs items) \<and> (from_server i \<or> the (output_of i) \<in> set (calls items))"

lemma normalize_pairs_keeps_outputs:
  "filter (answered items) (normalize_pairs items) = filter (answered items) items"
proof -
  have "filter (answered items) (insert_after (missing_output items) xs) = filter (answered items) xs" for xs
    by (induction xs) (auto simp: missing_output_eq answered_def split: option.splits)
  moreover have "filter (answered items) (remove_orphan_outputs xs) = filter (answered items) xs"
    if "set (calls xs) = set (calls items)" for xs
    unfolding remove_orphan_outputs_eq filter_filter that by (rule filter_cong) (auto simp: answered_def split: option.splits)
  ultimately show ?thesis by (simp add: normalize_pairs_def calls_insert_after)
qed

lemma strip_item_keys [simp]:
  "output_of (strip_item i) = output_of i" "call_of (strip_item i) = call_of i" "from_server (strip_item i) = from_server i"
  by (cases i; simp add: strip_item_def output_of_def call_of_def from_server_def)+

lemma strip_item_idem [simp]: "strip_item (strip_item i) = strip_item i"
proof -
  have "strip_content (strip_content c) = strip_content c" for c by (cases c) simp_all
  moreover have "strip_payload (strip_payload p) = strip_payload p" for p
  proof -
    have "strip_output_content (strip_output_content c) = strip_output_content c" for c by (cases c) simp_all
    then show ?thesis by (cases "payload_body p") (simp_all add: strip_payload_def)
  qed
  ultimately show ?thesis by (cases i) (simp_all add: strip_item_def)
qed

lemma keys_map_strip [simp]: "calls (map strip_item items) = calls items" "outputs (map strip_item items) = outputs items"
  by (simp_all add: calls_def outputs_def List.map_filter_def comp_def filter_map)

lemma paired_up_strip [simp]: "paired_up (map strip_item items) \<longleftrightarrow> paired_up items"
  by (auto simp: paired_up_def)

section \<open>Removing an item with its counterpart\<close>

text \<open>Every call has exactly one output and every output exactly one call.\<close>

definition paired_once :: "response_item list \<Rightarrow> bool" where
  "paired_once items \<longleftrightarrow> distinct (calls items) \<and> distinct (outputs items) \<and> set (calls items) = set (outputs items)"

lemma remove_first_matching_simps [simp]:
  "remove_first_matching P [] = []"
  "remove_first_matching P (x # xs) = (if P x then xs else x # remove_first_matching P xs)"
  by (auto simp: remove_first_matching_def split: option.splits)

lemma remove_first_matching_none: "\<forall>x \<in> set xs. \<not> P x \<Longrightarrow> remove_first_matching P xs = xs"
  by (induction xs) simp_all

lemma remove_first_matching_cong:
  "(\<And>x. x \<in> set xs \<Longrightarrow> P x = Q x) \<Longrightarrow> remove_first_matching P xs = remove_first_matching Q xs"
  by (induction xs) auto

lemma map_filter_simps [simp]:
  "List.map_filter f [] = []"
  "List.map_filter f (x # xs) = (case f x of None \<Rightarrow> List.map_filter f xs | Some y \<Rightarrow> y # List.map_filter f xs)"
  by (simp_all add: List.map_filter_def split: option.splits)

lemma map_filter_remove_first:
  "List.map_filter f (remove_first_matching (\<lambda>i. f i = Some k) xs) = remove1 k (List.map_filter f xs)"
  "(\<And>i. f i = Some k \<Longrightarrow> g i = None) \<Longrightarrow>
   List.map_filter g (remove_first_matching (\<lambda>i. f i = Some k) xs) = List.map_filter g xs"
  by (induction xs) (auto split: option.splits)

lemma call_not_output: "call_of i = Some k \<Longrightarrow> output_of i = None"
  by (cases i) (simp_all add: output_of_def call_of_def)

lemma call_of_iff:
  "call_of i = Some (FunctionKey c) \<longleftrightarrow>
     (case i of FunctionCall _ _ _ _ e \<Rightarrow> e = c | _ \<Rightarrow> False) \<or> (case i of LocalShellCall _ e _ _ \<Rightarrow> e = Some c | _ \<Rightarrow> False)"
  "call_of i = Some (CustomKey c) \<longleftrightarrow> (case i of CustomToolCall _ _ e _ _ \<Rightarrow> e = c | _ \<Rightarrow> False)"
  "call_of i = Some (SearchKey c) \<longleftrightarrow> (case i of ToolSearchCall _ e _ _ _ \<Rightarrow> e = Some c | _ \<Rightarrow> False)"
  by (cases i; simp add: call_of_def)+

lemma remove_corresponding_call:
  "call_of r = Some k \<Longrightarrow> remove_corresponding_for items r = remove_first_matching (\<lambda>i. output_of i = Some k) items"
  by (cases r) (auto simp: call_of_def remove_corresponding_for_def is_function_output_def [abs_def] output_of_iff split: option.splits)

lemma remove_first_either:
  assumes "distinct (calls items)" "\<And>i. P i \<or> Q i \<longleftrightarrow> call_of i = Some k"
  shows "(case position P items of Some pos \<Rightarrow> take pos items @ drop (Suc pos) items | None \<Rightarrow> remove_first_matching Q items) =
    remove_first_matching (\<lambda>i. call_of i = Some k) items"
proof (cases "\<exists>i \<in> set items. P i")
  case True
  have "position P items = position (\<lambda>i. call_of i = Some k) items"
    using assms(1) True
  proof (induction items)
    case (Cons x xs)
    have "k \<in> set (calls xs)" if "i \<in> set xs" "P i" for i
      using that assms(2) [of i] by (auto simp: calls_iff)
    then have "\<not> call_of x = Some k" if "\<not> P x"
      using Cons.prems that by (auto simp: calls_def)
    moreover have "distinct (calls xs)" using Cons.prems(1) by (auto simp: calls_def split: option.splits)
    moreover have "call_of x = Some k" if "P x" using that assms(2) by blast
    ultimately show ?case using Cons.IH Cons.prems(2) by (cases "P x") auto
  qed simp
  then show ?thesis using True position_None_iff [of P items] by (auto simp: remove_first_matching_def split: option.splits)
next
  case False
  then have "remove_first_matching Q items = remove_first_matching (\<lambda>i. call_of i = Some k) items"
    using assms(2) by (intro remove_first_matching_cong) blast
  then show ?thesis using False position_None_iff [of P items] by auto
qed

lemma remove_corresponding_output:
  assumes "output_of r = Some k" "distinct (calls items)"
  shows "remove_corresponding_for items r = remove_first_matching (\<lambda>i. call_of i = Some k) items"
proof (cases r)
  case (FunctionCallOutput c payload)
  then have k: "k = FunctionKey c" using assms(1) by (simp add: output_of_def)
  show ?thesis unfolding FunctionCallOutput remove_corresponding_for_def k
    using remove_first_either [OF assms(2), of _ _ "FunctionKey c", OF call_of_iff(1) [symmetric]] by simp
qed (use assms(1) in \<open>auto simp: output_of_def remove_corresponding_for_def call_of_iff split: option.splits\<close>)

lemma remove_corresponding_neither:
  "call_of r = None \<Longrightarrow> output_of r = None \<Longrightarrow> remove_corresponding_for items r = items"
  by (cases r) (auto simp: call_of_def output_of_def remove_corresponding_for_def)

lemma keys_Cons:
  "calls (x # xs) = (case call_of x of None \<Rightarrow> calls xs | Some k \<Rightarrow> k # calls xs)"
  "outputs (x # xs) = (case output_of x of None \<Rightarrow> outputs xs | Some k \<Rightarrow> k # outputs xs)"
  by (simp_all add: calls_def outputs_def split: option.splits)

lemma remove_corresponding_paired:
  assumes "paired_once (x # xs)"
  shows "paired_once (remove_corresponding_for xs x)"
proof -
  consider (call) k where "call_of x = Some k" | (out) k where "output_of x = Some k" | (neither) "call_of x = None" "output_of x = None"
    by fastforce
  then show ?thesis
  proof cases
    case (call k)
    note noout = call_not_output [OF call]
    have "calls (remove_corresponding_for xs x) = calls xs" "outputs (remove_corresponding_for xs x) = remove1 k (outputs xs)"
      unfolding remove_corresponding_call [OF call] calls_def outputs_def
      by (rule map_filter_remove_first(2), erule output_not_call) (rule map_filter_remove_first(1))
    then show ?thesis using assms call noout by (auto simp: paired_once_def keys_Cons set_remove1_eq)
  next
    case (out k)
    note nocall = output_not_call [OF out]
    have dist: "distinct (calls xs)" using assms nocall by (simp add: paired_once_def keys_Cons)
    have "outputs (remove_corresponding_for xs x) = outputs xs" "calls (remove_corresponding_for xs x) = remove1 k (calls xs)"
      unfolding remove_corresponding_output [OF out dist] calls_def outputs_def
      by (rule map_filter_remove_first(2), erule call_not_output) (rule map_filter_remove_first(1))
    then show ?thesis using assms out nocall dist by (auto simp: paired_once_def keys_Cons set_remove1_eq)
  next
    case neither
    then show ?thesis using assms by (simp add: remove_corresponding_neither paired_once_def keys_Cons)
  qed
qed

lemma paired_once_rotate: "paired_once (xs @ [x]) \<longleftrightarrow> paired_once (x # xs)"
proof -
  have "List.map_filter f (xs @ [x]) = List.map_filter f xs @ List.map_filter f [x]" for f :: "response_item \<Rightarrow> call_key option"
    by (induction xs) (simp_all split: option.splits)
  then show ?thesis by (auto simp: paired_once_def calls_def outputs_def split: option.splits)
qed

text \<open>One item and its counterpart are gone, and nothing else.\<close>

definition counterpart :: "response_item \<Rightarrow> response_item \<Rightarrow> bool" where
  "counterpart x y \<longleftrightarrow> (\<exists>k. call_of x = Some k \<and> output_of y = Some k \<or> output_of x = Some k \<and> call_of y = Some k)"

definition pair_removed :: "response_item \<Rightarrow> response_item list \<Rightarrow> response_item list \<Rightarrow> bool" where
  "pair_removed x xs out \<longleftrightarrow>
     call_of x = None \<and> output_of x = None \<and> out = xs \<or> (\<exists>a y b. xs = a @ y # b \<and> out = a @ b \<and> counterpart x y)"

lemma remove_first_matching_split:
  "x \<in> set xs \<Longrightarrow> P x \<Longrightarrow> \<exists>a y b. xs = a @ y # b \<and> P y \<and> remove_first_matching P xs = a @ b"
proof (induction xs)
  case (Cons z zs)
  show ?case
  proof (cases "P z")
    case True
    then show ?thesis by (intro exI [of _ "[]"]) auto
  next
    case False
    then obtain a y b where "zs = a @ y # b" "P y" "remove_first_matching P zs = a @ b" using Cons by auto
    then show ?thesis using False by (intro exI [of _ "z # a"]) auto
  qed
qed simp

lemma remove_corresponding_pair:
  assumes "paired_once (x # xs)"
  shows "pair_removed x xs (remove_corresponding_for xs x)"
proof -
  consider (call) k where "call_of x = Some k" | (out) k where "output_of x = Some k" | (neither) "call_of x = None" "output_of x = None"
    by fastforce
  then show ?thesis
  proof cases
    case (call k)
    have "k \<in> set (outputs xs)" using assms call call_not_output [OF call] by (auto simp: paired_once_def keys_Cons)
    then obtain i where "i \<in> set xs" "output_of i = Some k" by (auto simp: outputs_iff)
    then show ?thesis
      using remove_first_matching_split [of i xs "\<lambda>i. output_of i = Some k"] call
      unfolding pair_removed_def counterpart_def remove_corresponding_call [OF call] by blast
  next
    case (out k)
    have dist: "distinct (calls xs)" and "k \<in> set (calls xs)"
      using assms out output_not_call [OF out] by (auto simp: paired_once_def keys_Cons)
    then obtain i where "i \<in> set xs" "call_of i = Some k" by (auto simp: calls_iff)
    then show ?thesis
      using remove_first_matching_split [of i xs "\<lambda>i. call_of i = Some k"] out
      unfolding pair_removed_def counterpart_def remove_corresponding_output [OF out dist] by blast
  next
    case neither
    then show ?thesis by (simp add: pair_removed_def remove_corresponding_neither)
  qed
qed

end
