(* ===== verification/Context_Fragments.thy ===== *)
theory Context_Fragments
  imports Response_Items
begin

text \<open>
  Recognising the messages the program itself injects into a conversation
  (\<^verbatim>\<open>core/src/context/fragment.rs\<close>, \<^verbatim>\<open>contextual_user_message.rs\<close>, the fragment types beside them and
  \<^verbatim>\<open>core/src/event_mapping.rs\<close>). The XML reader behind hook prompts is a parameter. Parts of a fragment
  that other code renders (the environment, a JSON status, a duration) are given as their text.
\<close>

section \<open>Fragments\<close>

datatype fragment_type =
    UserInstructionsType | EnvironmentContextType | AdditionalContextType | SkillInstructionsType | UserShellCommandType
  | TurnAbortedType | SubagentNotificationType | PlanStateType | GoalContextType
  | LegacyUnifiedExecProcessLimitWarningType | LegacyApplyPatchExecCommandWarningType | LegacyModelMismatchWarningType

definition user_instructions_markers :: "rstr \<times> rstr" where
  "user_instructions_markers = (lit ''# AGENTS.md instructions for '', lit ''</INSTRUCTIONS>'')"

definition environment_context_markers :: "rstr \<times> rstr" where
  "environment_context_markers = (lit ''<environment_context>'', lit ''</environment_context>'')"

definition additional_context_markers :: "rstr \<times> rstr" where
  "additional_context_markers = (lit ''<external_'', lit ''>'')"

definition skill_instructions_markers :: "rstr \<times> rstr" where
  "skill_instructions_markers = (lit ''<skill>'', lit ''</skill>'')"

definition user_shell_command_markers :: "rstr \<times> rstr" where
  "user_shell_command_markers = (lit ''<user_shell_command>'', lit ''</user_shell_command>'')"

definition turn_aborted_markers :: "rstr \<times> rstr" where
  "turn_aborted_markers = (lit ''<turn_aborted>'', lit ''</turn_aborted>'')"

definition subagent_notification_markers :: "rstr \<times> rstr" where
  "subagent_notification_markers = (lit ''<subagent_notification>'', lit ''</subagent_notification>'')"

definition plan_state_markers :: "rstr \<times> rstr" where
  "plan_state_markers = (lit ''<plan_state>'', lit ''</plan_state>'')"

definition goal_context_markers :: "rstr \<times> rstr" where
  "goal_context_markers = (lit ''<goal_context>'', lit ''</goal_context>'')"

lemmas marker_defs = user_instructions_markers_def environment_context_markers_def additional_context_markers_def skill_instructions_markers_def user_shell_command_markers_def turn_aborted_markers_def subagent_notification_markers_def plan_state_markers_def goal_context_markers_def

fun type_markers :: "fragment_type \<Rightarrow> rstr \<times> rstr" where
  "type_markers UserInstructionsType = user_instructions_markers"
| "type_markers EnvironmentContextType = environment_context_markers"
| "type_markers AdditionalContextType = additional_context_markers"
| "type_markers SkillInstructionsType = skill_instructions_markers"
| "type_markers UserShellCommandType = user_shell_command_markers"
| "type_markers TurnAbortedType = turn_aborted_markers"
| "type_markers SubagentNotificationType = subagent_notification_markers"
| "type_markers PlanStateType = plan_state_markers"
| "type_markers GoalContextType = goal_context_markers"
| "type_markers LegacyUnifiedExecProcessLimitWarningType = ([], [])"
| "type_markers LegacyApplyPatchExecCommandWarningType = ([], [])"
| "type_markers LegacyModelMismatchWarningType = ([], [])"

text \<open>\<^verbatim>\<open>s.get(..n)\<close> and \<^verbatim>\<open>s.get(n..)\<close>.\<close>

definition get_to :: "nat \<Rightarrow> rstr \<Rightarrow> rstr option" where
  "get_to n s = map_option fst (split_at_byte n s)"

definition get_from :: "nat \<Rightarrow> rstr \<Rightarrow> rstr option" where
  "get_from n s = map_option snd (split_at_byte n s)"

definition is_some_and :: "('a \<Rightarrow> bool) \<Rightarrow> 'a option \<Rightarrow> bool" where
  "is_some_and P x = (case x of None \<Rightarrow> False | Some y \<Rightarrow> P y)"

definition matches_marked_text :: "rstr \<Rightarrow> rstr \<Rightarrow> rstr \<Rightarrow> bool" where
  "matches_marked_text start_marker end_marker s =
     (if start_marker = [] \<or> end_marker = [] then False
      else
        (let trimmed = trim_start s;
             starts_with_marker = is_some_and (\<lambda>candidate. eq_ignore_ascii_case candidate start_marker)
               (get_to (str_len start_marker) trimmed);
             trimmed = trim_end trimmed;
             ends_with_marker = is_some_and (\<lambda>candidate. eq_ignore_ascii_case candidate end_marker)
               (get_from (str_len trimmed - str_len end_marker) trimmed)
         in starts_with_marker \<and> ends_with_marker))"

definition additional_context_matches :: "rstr \<Rightarrow> bool" where
  "additional_context_matches s =
     (case strip_prefix (lit ''<external_'') (trim s) of
        None \<Rightarrow> False
      | Some rest \<Rightarrow>
          (case split_once (chr CHR ''>'') rest of
             None \<Rightarrow> False
           | Some (key, value_and_close) \<Rightarrow> ends_with (lit ''</external_'' @ key @ lit ''>'') value_and_close))"

definition legacy_unified_exec_process_limit_warning_matches :: "rstr \<Rightarrow> bool" where
  "legacy_unified_exec_process_limit_warning_matches s =
     starts_with (lit ''Warning: The maximum number of unified exec processes you can keep open is'') (trim s)"

definition legacy_apply_patch_exec_command_warning_matches :: "rstr \<Rightarrow> bool" where
  "legacy_apply_patch_exec_command_warning_matches s \<longleftrightarrow>
     starts_with (lit ''Warning: apply_patch was requested via '') (trim s) \<and>
     ends_with (lit ''Use the apply_patch tool instead of exec_command.'') (trim s)"

definition legacy_model_mismatch_warning_matches :: "rstr \<Rightarrow> bool" where
  "legacy_model_mismatch_warning_matches s =
     starts_with (lit ''Warning: Your account was flagged for potentially high-risk cyber activity'') (trim s)"

lemmas legacy_defs = legacy_unified_exec_process_limit_warning_matches_def legacy_apply_patch_exec_command_warning_matches_def
  legacy_model_mismatch_warning_matches_def

definition matches_text :: "fragment_type \<Rightarrow> rstr \<Rightarrow> bool" where
  "matches_text t s =
     (case t of
        AdditionalContextType \<Rightarrow> additional_context_matches s
      | LegacyUnifiedExecProcessLimitWarningType \<Rightarrow> legacy_unified_exec_process_limit_warning_matches s
      | LegacyApplyPatchExecCommandWarningType \<Rightarrow> legacy_apply_patch_exec_command_warning_matches s
      | LegacyModelMismatchWarningType \<Rightarrow> legacy_model_mismatch_warning_matches s
      | _ \<Rightarrow> (case type_markers t of (start_marker, end_marker) \<Rightarrow> matches_marked_text start_marker end_marker s))"

datatype contextual_fragment =
    UserInstructions rstr rstr
  | EnvironmentContext rstr
  | AdditionalContextUserFragment rstr rstr
  | SkillInstructions rstr rstr rstr
  | UserShellCommand rstr rstr rstr rstr
  | TurnAborted rstr
  | SubagentNotification rstr
  | PlanStateFragment rstr
  | GoalContext rstr

fun fragment_type_of :: "contextual_fragment \<Rightarrow> fragment_type" where
  "fragment_type_of (UserInstructions _ _) = UserInstructionsType"
| "fragment_type_of (EnvironmentContext _) = EnvironmentContextType"
| "fragment_type_of (AdditionalContextUserFragment _ _) = AdditionalContextType"
| "fragment_type_of (SkillInstructions _ _ _) = SkillInstructionsType"
| "fragment_type_of (UserShellCommand _ _ _ _) = UserShellCommandType"
| "fragment_type_of (TurnAborted _) = TurnAbortedType"
| "fragment_type_of (SubagentNotification _) = SubagentNotificationType"
| "fragment_type_of (PlanStateFragment _) = PlanStateType"
| "fragment_type_of (GoalContext _) = GoalContextType"

definition MAX_ADDITIONAL_CONTEXT_VALUE_TOKENS :: nat where "MAX_ADDITIONAL_CONTEXT_VALUE_TOKENS = 1000"

definition additional_context_body :: "rstr \<Rightarrow> rstr \<Rightarrow> rstr option" where
  "additional_context_body key v =
     map_option (\<lambda>(v', _). key @ lit ''>'' @ v' @ lit ''</external_'' @ key)
       (truncate_middle_with_token_budget v MAX_ADDITIONAL_CONTEXT_VALUE_TOKENS)"

definition additional_context_developer_body :: "rstr \<Rightarrow> rstr \<Rightarrow> rstr option" where
  "additional_context_developer_body key v =
     map_option (\<lambda>(v', _). lit ''<'' @ key @ lit ''>'' @ v' @ lit ''</'' @ key @ lit ''>'')
       (truncate_middle_with_token_budget v MAX_ADDITIONAL_CONTEXT_VALUE_TOKENS)"

definition user_instructions_body :: "rstr \<Rightarrow> rstr \<Rightarrow> rstr" where
  "user_instructions_body directory contents =
     directory @ [newline, newline] @ lit ''<INSTRUCTIONS>'' @ [newline] @ contents @ [newline]"

definition skill_instructions_body :: "rstr \<Rightarrow> rstr \<Rightarrow> rstr \<Rightarrow> rstr" where
  "skill_instructions_body skill_name path contents =
     [newline] @ lit ''<name>'' @ skill_name @ lit ''</name>'' @ [newline] @ lit ''<path>'' @ path @ lit ''</path>'' @
     [newline] @ contents @ [newline]"

definition user_shell_command_body :: "rstr \<Rightarrow> rstr \<Rightarrow> rstr \<Rightarrow> rstr \<Rightarrow> rstr" where
  "user_shell_command_body command exit_code duration_seconds out =
     [newline] @ lit ''<command>'' @ [newline] @ command @ [newline] @ lit ''</command>'' @ [newline] @
     lit ''<result>'' @ [newline] @ lit ''Exit code: '' @ exit_code @ [newline] @ lit ''Duration: '' @ duration_seconds @
     lit '' seconds'' @ [newline] @ lit ''Output:'' @ [newline] @ out @ [newline] @ lit ''</result>'' @ [newline]"

definition turn_aborted_body :: "rstr \<Rightarrow> rstr" where
  "turn_aborted_body guidance = [newline] @ guidance @ [newline]"

definition subagent_notification_body :: "rstr \<Rightarrow> rstr" where
  "subagent_notification_body status_json = [newline] @ status_json @ [newline]"

definition goal_context_body :: "rstr \<Rightarrow> rstr" where
  "goal_context_body prompt = [newline] @ prompt @ [newline]"

fun fragment_body :: "contextual_fragment \<Rightarrow> rstr option" where
  "fragment_body (UserInstructions directory contents) = Some (user_instructions_body directory contents)"
| "fragment_body (EnvironmentContext rendered) = Some rendered"
| "fragment_body (AdditionalContextUserFragment key v) = additional_context_body key v"
| "fragment_body (SkillInstructions skill_name path contents) = Some (skill_instructions_body skill_name path contents)"
| "fragment_body (UserShellCommand command exit_code duration_seconds out) =
     Some (user_shell_command_body command exit_code duration_seconds out)"
| "fragment_body (TurnAborted guidance) = Some (turn_aborted_body guidance)"
| "fragment_body (SubagentNotification status_json) = Some (subagent_notification_body status_json)"
| "fragment_body (PlanStateFragment plan) = Some plan"
| "fragment_body (GoalContext prompt) = Some (goal_context_body prompt)"

definition render_fragment :: "contextual_fragment \<Rightarrow> rstr option" where
  "render_fragment f =
     (case type_markers (fragment_type_of f) of
        (start_marker, end_marker) \<Rightarrow>
          map_option (\<lambda>b. if start_marker = [] \<and> end_marker = [] then b else start_marker @ b @ end_marker) (fragment_body f))"

text \<open>\<^verbatim>\<open>into\<close>: the message that carries the fragment; all these fragments have the role \<^verbatim>\<open>user\<close>.\<close>

definition fragment_into :: "contextual_fragment \<Rightarrow> response_item option" where
  "fragment_into f = map_option (\<lambda>s. Message None (lit ''user'') [InputText s] None) (render_fragment f)"

section \<open>Recognising fragments\<close>

definition CONTEXTUAL_USER_FRAGMENTS :: "fragment_type list" where
  "CONTEXTUAL_USER_FRAGMENTS =
     [UserInstructionsType, EnvironmentContextType, AdditionalContextType, SkillInstructionsType, UserShellCommandType,
      TurnAbortedType, SubagentNotificationType, PlanStateType, GoalContextType, LegacyUnifiedExecProcessLimitWarningType,
      LegacyApplyPatchExecCommandWarningType, LegacyModelMismatchWarningType]"

definition is_standard_contextual_user_text :: "rstr \<Rightarrow> bool" where
  "is_standard_contextual_user_text s = list_ex (\<lambda>fragment. matches_text fragment s) CONTEXTUAL_USER_FRAGMENTS"

type_synonym xml_reader = "rstr \<Rightarrow> (rstr \<times> rstr) option"

definition parse_hook_prompt_fragment :: "xml_reader \<Rightarrow> rstr \<Rightarrow> (rstr \<times> rstr) option" where
  "parse_hook_prompt_fragment from_xml s =
     (case from_xml (trim s) of
        None \<Rightarrow> None
      | Some (contents, hook_run_id) \<Rightarrow> if trim hook_run_id = [] then None else Some (contents, hook_run_id))"

definition is_contextual_user_fragment :: "xml_reader \<Rightarrow> content_item \<Rightarrow> bool" where
  "is_contextual_user_fragment from_xml content =
     (case content of
        InputText s \<Rightarrow> parse_hook_prompt_fragment from_xml s \<noteq> None \<or> is_standard_contextual_user_text s
      | _ \<Rightarrow> False)"

definition hook_prompt_step :: "xml_reader \<Rightarrow> content_item \<Rightarrow> (rstr \<times> rstr) list option \<Rightarrow> (rstr \<times> rstr) list option" where
  "hook_prompt_step from_xml c acc =
     (case (acc, c) of
        (Some fragments, InputText s) \<Rightarrow>
          (case parse_hook_prompt_fragment from_xml s of
             Some fragment \<Rightarrow> Some (fragments @ [fragment])
           | None \<Rightarrow> if is_standard_contextual_user_text s then Some fragments else None)
      | _ \<Rightarrow> None)"

definition parse_visible_hook_prompt_message :: "xml_reader \<Rightarrow> content_item list \<Rightarrow> (rstr \<times> rstr) list option" where
  "parse_visible_hook_prompt_message from_xml content =
     (let fragments = fold (hook_prompt_step from_xml) content (Some [])
      in if fragments = Some [] then None else fragments)"

definition is_contextual_user_message_content :: "xml_reader \<Rightarrow> content_item list \<Rightarrow> bool" where
  "is_contextual_user_message_content from_xml message = list_ex (is_contextual_user_fragment from_xml) message"

definition CONTEXTUAL_DEVELOPER_PREFIXES :: "rstr list" where
  "CONTEXTUAL_DEVELOPER_PREFIXES =
     [lit ''<permissions instructions>'', lit ''<model_switch>'', lit ''<collaboration_mode>'', lit ''<realtime_conversation>'',
      lit ''<personality_spec>'']"

definition is_contextual_dev_fragment :: "content_item \<Rightarrow> bool" where
  "is_contextual_dev_fragment content =
     (case content of
        InputText s \<Rightarrow>
          list_ex (\<lambda>prefix. is_some_and (\<lambda>candidate. eq_ignore_ascii_case candidate prefix)
            (get_to (str_len prefix) (trim_start s))) CONTEXTUAL_DEVELOPER_PREFIXES
      | _ \<Rightarrow> False)"

definition is_contextual_dev_message_content :: "content_item list \<Rightarrow> bool" where
  "is_contextual_dev_message_content message = list_ex is_contextual_dev_fragment message"

definition has_non_contextual_dev_message_content :: "content_item list \<Rightarrow> bool" where
  "has_non_contextual_dev_message_content message = list_ex (\<lambda>content. \<not> is_contextual_dev_fragment content) message"

section \<open>Rendered fragments are recognised\<close>

lemma matches_marked_text_render:
  assumes "a \<noteq> []" "b \<noteq> []" "starts_solid a" "ends_solid b"
  shows "matches_marked_text a b (a @ s @ b)"
proof -
  have "trim_start (a @ s @ b) = a @ s @ b" using assms(1,3) by (rule trim_start_append_solid [rotated])
  moreover have "trim_end (a @ s @ b) = a @ s @ b"
    using trim_end_append_solid [OF assms(4,2), of "a @ s"] by simp
  moreover have "get_to (str_len a) (a @ s @ b) = Some a" by (simp add: get_to_def)
  moreover have "get_from (str_len (a @ s @ b) - str_len b) (a @ s @ b) = Some b"
    using split_at_byte_append [of "a @ s" b] by (simp add: get_from_def)
  ultimately show ?thesis
    using assms(1,2) by (simp add: matches_marked_text_def Let_def is_some_and_def eq_ignore_ascii_case_def del: str_len_simps)
qed

text \<open>A key that the opening tag of additional context can be read back from.\<close>

definition readable_key :: "contextual_fragment \<Rightarrow> bool" where
  "readable_key f = (case f of AdditionalContextUserFragment key _ \<Rightarrow> chr CHR ''>'' \<notin> set key | _ \<Rightarrow> True)"

lemma split_once_append: "c \<notin> set a \<Longrightarrow> split_once c (a @ c # b) = Some (a, b)"
proof -
  assume "c \<notin> set a"
  then have "position (\<lambda>x. x = c) (a @ c # b) = Some (length a)" by (induction a) auto
  then show ?thesis by (simp add: split_once_def)
qed

lemma ends_with_append [simp]: "ends_with p (s @ p)"
  by (simp add: ends_with_def)

lemma additional_context_matches_render:
  assumes "chr CHR ''>'' \<notin> set key"
  shows "additional_context_matches (lit ''<external_'' @ (key @ lit ''>'' @ v @ lit ''</external_'' @ key) @ lit ''>'')" (is "additional_context_matches ?s")
proof -
  have gt: "lit ''>'' = [chr CHR ''>'']" by (simp add: lit_def)
  have "trim ?s = ?s"
  proof (rule trim_id)
    show "starts_solid ?s" by (simp add: starts_solid_def rust_eval is_whitespace_def)
    show "ends_solid ?s" by (simp add: ends_solid_def rust_eval is_whitespace_def)
  qed
  moreover have "split_once (chr CHR ''>'') (key @ lit ''>'' @ v @ lit ''</external_'' @ key @ lit ''>'') =
      Some (key, v @ lit ''</external_'' @ key @ lit ''>'')"
    using split_once_append [OF assms] by (simp add: gt)
  ultimately show ?thesis
    using ends_with_append [of "lit ''</external_'' @ key @ lit ''>''" v] by (simp add: additional_context_matches_def)
qed

lemma render_fragment_total: "\<exists>s. render_fragment f = Some s"
proof -
  have "\<exists>b. additional_context_body key v = Some b" for key v
    using truncate_total [of v "approx_bytes_for_tokens MAX_ADDITIONAL_CONTEXT_VALUE_TOKENS" True]
    by (auto simp: additional_context_body_def truncate_middle_with_token_budget_def)
  then have "\<exists>b. fragment_body f = Some b" by (cases f) simp_all
  then show ?thesis by (auto simp: render_fragment_def split: prod.splits)
qed

lemma fragment_markers:
  assumes "type_markers (fragment_type_of f) = (a, b)"
  shows "a \<noteq> [] \<and> b \<noteq> [] \<and> starts_solid a \<and> ends_solid b"
  using assms by (cases f) (auto simp: marker_defs starts_solid_def ends_solid_def rust_eval is_whitespace_def)

lemma render_fragment_matches:
  assumes "readable_key f" "render_fragment f = Some s"
  shows "matches_text (fragment_type_of f) s"
proof (cases "fragment_type_of f = AdditionalContextType")
  case True
  then obtain key v where "f = AdditionalContextUserFragment key v" by (cases f) auto
  then show ?thesis
    using assms additional_context_matches_render [of key]
    by (auto simp: render_fragment_def readable_key_def additional_context_body_def matches_text_def marker_defs)
next
  case False
  obtain a b where ab: "type_markers (fragment_type_of f) = (a, b)" by fastforce
  note markers = fragment_markers [OF ab]
  obtain c where "s = a @ c @ b" using assms(2) ab markers by (auto simp: render_fragment_def)
  then have "matches_marked_text a b s" using markers matches_marked_text_render by blast
  moreover have "matches_text (fragment_type_of f) s = matches_marked_text a b s"
    using False ab by (cases f) (auto simp: matches_text_def marker_defs)
  ultimately show ?thesis by simp
qed

lemma render_fragment_contextual:
  assumes "readable_key f" "render_fragment f = Some s"
  shows "is_contextual_user_message_content from_xml [InputText s]"
proof -
  have "fragment_type_of f \<in> set CONTEXTUAL_USER_FRAGMENTS" by (cases f) (simp_all add: CONTEXTUAL_USER_FRAGMENTS_def)
  then show ?thesis
    using render_fragment_matches [OF assms]
    by (auto simp: is_contextual_user_message_content_def is_contextual_user_fragment_def is_standard_contextual_user_text_def list_ex_iff)
qed

end
