(* ===== verification/User_Input.thy ===== *)
theory User_Input
  imports Context_Fragments "HOL-Library.Word"
begin

text \<open>
  The user's input on its way into a conversation and back: content items for the model
  (\<^verbatim>\<open>protocol/src/models.rs\<close>), the turn item read back from them (\<^verbatim>\<open>core/src/event_mapping.rs\<close>) and the
  flattened message with its text elements (\<^verbatim>\<open>protocol/src/user_input.rs\<close>, \<^verbatim>\<open>protocol/src/items.rs\<close>).
  Reading a file and decoding an image are parameters; generated identifiers are left out.
\<close>

section \<open>Input\<close>

record byte_range =
  range_start :: nat
  range_end :: nat

record text_element =
  elem_range :: byte_range
  elem_placeholder :: "rstr option"

datatype user_input =
    Text rstr "text_element list"
  | Image rstr "image_detail option"
  | LocalImage rstr "image_detail option"
  | Skill rstr rstr
  | Mention rstr rstr

text \<open>\<^verbatim>\<open>s.get(a..b)\<close>.\<close>

definition get_range :: "byte_range \<Rightarrow> rstr \<Rightarrow> rstr option" where
  "get_range r s =
     (if range_end r < range_start r then None
      else Option.bind (get_from (range_start r) s) (get_to (range_end r - range_start r)))"

definition element_placeholder :: "text_element \<Rightarrow> rstr \<Rightarrow> rstr option" where
  "element_placeholder e s = (case elem_placeholder e of Some p \<Rightarrow> Some p | None \<Rightarrow> get_range (elem_range e) s)"

section \<open>To content items\<close>

definition DEFAULT_IMAGE_DETAIL :: image_detail where "DEFAULT_IMAGE_DETAIL = High"
definition IMAGE_OPEN_TAG :: rstr where "IMAGE_OPEN_TAG = lit ''<image>''"
definition IMAGE_CLOSE_TAG :: rstr where "IMAGE_CLOSE_TAG = lit ''</image>''"
definition LOCAL_IMAGE_OPEN_TAG_PREFIX :: rstr where "LOCAL_IMAGE_OPEN_TAG_PREFIX = lit ''<image name=''"
definition LOCAL_IMAGE_OPEN_TAG_SUFFIX :: rstr where "LOCAL_IMAGE_OPEN_TAG_SUFFIX = lit ''>''"
definition LOCAL_IMAGE_CLOSE_TAG :: rstr where "LOCAL_IMAGE_CLOSE_TAG = IMAGE_CLOSE_TAG"

definition local_image_label_text :: "nat \<Rightarrow> rstr" where
  "local_image_label_text label_number = lit ''[Image #'' @ decimal label_number @ lit '']''"

definition local_image_open_tag_text :: "nat \<Rightarrow> rstr" where
  "local_image_open_tag_text label_number =
     LOCAL_IMAGE_OPEN_TAG_PREFIX @ local_image_label_text label_number @ LOCAL_IMAGE_OPEN_TAG_SUFFIX"

definition is_local_image_open_tag_text :: "rstr \<Rightarrow> bool" where
  "is_local_image_open_tag_text s =
     is_some_and (ends_with LOCAL_IMAGE_OPEN_TAG_SUFFIX) (strip_prefix LOCAL_IMAGE_OPEN_TAG_PREFIX s)"

definition is_image_open_tag_text :: "rstr \<Rightarrow> bool" where
  "is_image_open_tag_text s \<longleftrightarrow> s = IMAGE_OPEN_TAG"

definition is_image_close_tag_text :: "rstr \<Rightarrow> bool" where
  "is_image_close_tag_text s \<longleftrightarrow> s = IMAGE_CLOSE_TAG"

definition is_local_image_close_tag_text :: "rstr \<Rightarrow> bool" where
  "is_local_image_close_tag_text s = is_image_close_tag_text s"

definition local_image_error_placeholder :: "rstr \<Rightarrow> rstr \<Rightarrow> content_item" where
  "local_image_error_placeholder path err =
     InputText (lit ''Codex could not read the local image at `'' @ path @ lit ''`: '' @ err)"

definition invalid_image_error_placeholder :: "rstr \<Rightarrow> rstr \<Rightarrow> content_item" where
  "invalid_image_error_placeholder path err = InputText (lit ''Image located at `'' @ path @ lit ''` is invalid: '' @ err)"

definition unsupported_image_error_placeholder :: "rstr \<Rightarrow> rstr \<Rightarrow> content_item" where
  "unsupported_image_error_placeholder path mime =
     InputText (lit ''Codex cannot attach image at `'' @ path @ lit ''`: unsupported image `'' @ mime @ lit ''`.'')"

datatype prompt_image_mode = ResizeToFit | OriginalMode

text \<open>Errors of the image reader; each carries its message, \<open>DecodeError\<close> also whether the image is invalid.\<close>

datatype image_processing_error =
    ReadError rstr
  | EncodeError rstr
  | DecodeError bool rstr
  | UnsupportedImageFormat rstr

record image_reader =
  read_file :: "rstr \<Rightarrow> rstr + 8 word list"
  load_for_prompt_bytes :: "rstr \<Rightarrow> 8 word list \<Rightarrow> prompt_image_mode \<Rightarrow> image_processing_error + rstr"

definition local_image_content_items_with_label_number ::
  "image_reader \<Rightarrow> rstr \<Rightarrow> 8 word list \<Rightarrow> nat option \<Rightarrow> image_detail \<Rightarrow> content_item list" where
  "local_image_content_items_with_label_number rd path file_bytes label_number detail =
     (let mode = (case detail of Original \<Rightarrow> OriginalMode | _ \<Rightarrow> ResizeToFit)
      in case load_for_prompt_bytes rd path file_bytes mode of
           Inr data_url \<Rightarrow>
             (case label_number of Some n \<Rightarrow> [InputText (local_image_open_tag_text n)] | None \<Rightarrow> []) @
             [InputImage data_url (Some detail)] @
             (if label_number \<noteq> None then [InputText LOCAL_IMAGE_CLOSE_TAG] else [])
         | Inl (ReadError err) \<Rightarrow> [local_image_error_placeholder path err]
         | Inl (EncodeError err) \<Rightarrow> [local_image_error_placeholder path err]
         | Inl (DecodeError invalid err) \<Rightarrow>
             if invalid then [invalid_image_error_placeholder path err] else [local_image_error_placeholder path err]
         | Inl (UnsupportedImageFormat mime) \<Rightarrow> [unsupported_image_error_placeholder path mime])"

definition unwrap_or :: "'a \<Rightarrow> 'a option \<Rightarrow> 'a" where
  "unwrap_or d x = (case x of Some y \<Rightarrow> y | None \<Rightarrow> d)"

fun content_of_inputs :: "image_reader \<Rightarrow> nat \<Rightarrow> user_input list \<Rightarrow> content_item list" where
  "content_of_inputs rd image_index [] = []"
| "content_of_inputs rd image_index (Text s _ # inputs) = InputText s # content_of_inputs rd image_index inputs"
| "content_of_inputs rd image_index (Image image_url detail # inputs) =
     InputImage image_url (Some (unwrap_or DEFAULT_IMAGE_DETAIL detail)) # content_of_inputs rd (image_index + 1) inputs"
| "content_of_inputs rd image_index (LocalImage path detail # inputs) =
     (case read_file rd path of
        Inr file_bytes \<Rightarrow>
          local_image_content_items_with_label_number rd path file_bytes (Some (image_index + 1))
            (unwrap_or DEFAULT_IMAGE_DETAIL detail)
      | Inl err \<Rightarrow> [local_image_error_placeholder path err]) @ content_of_inputs rd (image_index + 1) inputs"
| "content_of_inputs rd image_index (Skill _ _ # inputs) = content_of_inputs rd image_index inputs"
| "content_of_inputs rd image_index (Mention _ _ # inputs) = content_of_inputs rd image_index inputs"

section \<open>Back to a turn item\<close>

definition image_at :: "content_item list \<Rightarrow> nat \<Rightarrow> bool" where
  "image_at message i = (i < length message \<and> (case message ! i of InputImage _ _ \<Rightarrow> True | _ \<Rightarrow> False))"

definition is_image_tag :: "content_item list \<Rightarrow> nat \<Rightarrow> rstr \<Rightarrow> bool" where
  "is_image_tag message idx s \<longleftrightarrow>
     (is_local_image_open_tag_text s \<or> is_image_open_tag_text s) \<and> image_at message (idx + 1) \<or>
     0 < idx \<and> (is_local_image_close_tag_text s \<or> is_image_close_tag_text s) \<and> image_at message (idx - 1)"

definition user_input_of :: "content_item list \<Rightarrow> nat \<times> content_item \<Rightarrow> user_input option" where
  "user_input_of message =
     (\<lambda>(idx, content). case content of
        InputText s \<Rightarrow> if is_image_tag message idx s then None else Some (Text s [])
      | InputImage image_url detail \<Rightarrow> Some (Image image_url detail)
      | OutputText _ \<Rightarrow> None)"

definition parse_user_message :: "xml_reader \<Rightarrow> content_item list \<Rightarrow> user_input list option" where
  "parse_user_message from_xml message =
     (if is_contextual_user_message_content from_xml message then None
      else Some (List.map_filter (user_input_of message) (enumerate 0 message)))"

definition parse_agent_message :: "content_item list \<Rightarrow> rstr list" where
  "parse_agent_message message =
     List.map_filter (\<lambda>content. case content of InputText s \<Rightarrow> Some s | OutputText s \<Rightarrow> Some s | _ \<Rightarrow> None) message"

text \<open>Reasoning, web searches and generated images, whose fields are only repackaged, carry the response item.\<close>

datatype turn_item =
    UserMessageItem "user_input list"
  | HookPromptItem "(rstr \<times> rstr) list"
  | AgentMessageItem "rstr list"
  | ReasoningItem response_item
  | WebSearchItem response_item
  | ImageGenerationItem response_item

definition parse_turn_item :: "xml_reader \<Rightarrow> response_item \<Rightarrow> turn_item option" where
  "parse_turn_item from_xml item =
     (case item of
        Message _ role content _ \<Rightarrow>
          if role = lit ''user'' then
            (case parse_visible_hook_prompt_message from_xml content of
               Some fragments \<Rightarrow> Some (HookPromptItem fragments)
             | None \<Rightarrow> map_option UserMessageItem (parse_user_message from_xml content))
          else if role = lit ''assistant'' then Some (AgentMessageItem (parse_agent_message content))
          else None
      | Reasoning _ _ _ _ _ _ \<Rightarrow> Some (ReasoningItem item)
      | WebSearchCall _ _ _ \<Rightarrow> Some (WebSearchItem item)
      | ImageGenerationCall _ _ _ _ \<Rightarrow> Some (ImageGenerationItem item)
      | _ \<Rightarrow> None)"

section \<open>The flattened message\<close>

definition flat_message :: "user_input list \<Rightarrow> rstr" where
  "flat_message content = concat (map (\<lambda>c. case c of Text s _ \<Rightarrow> s | _ \<Rightarrow> []) content)"

text \<open>Offsets are added as in a release build, modulo the word size.\<close>

definition uwrap_add :: "nat \<Rightarrow> nat \<Rightarrow> nat" where
  "uwrap_add a b = (a + b) mod (usize_max + 1)"

fun text_elements_from :: "nat \<Rightarrow> user_input list \<Rightarrow> text_element list" where
  "text_elements_from offset [] = []"
| "text_elements_from offset (input # content) =
     (case input of
        Text s elements \<Rightarrow>
          map (\<lambda>elem. \<lparr>elem_range =
                \<lparr>range_start = uwrap_add offset (range_start (elem_range elem)),
                 range_end = uwrap_add offset (range_end (elem_range elem))\<rparr>,
              elem_placeholder = element_placeholder elem s\<rparr>) elements @
          text_elements_from (uwrap_add offset (str_len s)) content
      | _ \<Rightarrow> text_elements_from offset content)"

definition text_elements :: "user_input list \<Rightarrow> text_element list" where
  "text_elements content = text_elements_from 0 content"

definition image_urls :: "user_input list \<Rightarrow> rstr list" where
  "image_urls content = List.map_filter (\<lambda>c. case c of Image image_url _ \<Rightarrow> Some image_url | _ \<Rightarrow> None) content"

definition local_image_paths :: "user_input list \<Rightarrow> rstr list" where
  "local_image_paths content = List.map_filter (\<lambda>c. case c of LocalImage path _ \<Rightarrow> Some path | _ \<Rightarrow> None) content"

definition trim_trailing_default_image_details :: "image_detail option list \<Rightarrow> image_detail option list" where
  "trim_trailing_default_image_details details = rev (dropWhile (\<lambda>d. d = None) (rev details))"

definition image_details :: "user_input list \<Rightarrow> image_detail option list" where
  "image_details content =
     trim_trailing_default_image_details (List.map_filter (\<lambda>c. case c of Image _ detail \<Rightarrow> Some detail | _ \<Rightarrow> None) content)"

definition local_image_details :: "user_input list \<Rightarrow> image_detail option list" where
  "local_image_details content =
     trim_trailing_default_image_details (List.map_filter (\<lambda>c. case c of LocalImage _ detail \<Rightarrow> Some detail | _ \<Rightarrow> None) content)"

section \<open>Reading inputs back\<close>

text \<open>The parser, with the item before and the items after each position.\<close>

definition is_image :: "content_item option \<Rightarrow> bool" where
  "is_image c = (case c of Some (InputImage _ _) \<Rightarrow> True | _ \<Rightarrow> False)"

definition open_tag :: "rstr \<Rightarrow> bool" where
  "open_tag s \<longleftrightarrow> is_local_image_open_tag_text s \<or> is_image_open_tag_text s"

definition first_opt :: "'a list \<Rightarrow> 'a option" where
  "first_opt xs = (case xs of [] \<Rightarrow> None | x # _ \<Rightarrow> Some x)"

fun read_back :: "content_item option \<Rightarrow> content_item list \<Rightarrow> user_input list" where
  "read_back prev [] = []"
| "read_back prev (c # cs) =
     (case c of
        InputText s \<Rightarrow>
          if open_tag s \<and> is_image (first_opt cs) \<or> is_image_close_tag_text s \<and> is_image prev then []
          else [Text s []]
      | InputImage image_url detail \<Rightarrow> [Image image_url detail]
      | OutputText _ \<Rightarrow> []) @ read_back (Some c) cs"

lemma map_filter_user_input_of:
  "List.map_filter (user_input_of (pre @ cs)) (enumerate (length pre) cs) = read_back (last_opt pre) cs"
proof (induction cs arbitrary: pre)
  case (Cons c cs)
  have after: "image_at (pre @ c # cs) (Suc (length pre)) = is_image (first_opt cs)"
    by (cases cs) (auto simp: image_at_def is_image_def first_opt_def nth_append split: content_item.splits)
  have before: "image_at (pre @ c # cs) (length pre - Suc 0) = is_image (last_opt pre)" if "pre \<noteq> []"
    using that by (cases pre rule: rev_cases) (auto simp: image_at_def is_image_def nth_append split: content_item.splits)
  have "\<not> is_image (last_opt [])" by (simp add: is_image_def)
  then have "user_input_of (pre @ c # cs) (length pre, c) =
      (case c of InputText s \<Rightarrow> if open_tag s \<and> is_image (first_opt cs) \<or> is_image_close_tag_text s \<and> is_image (last_opt pre) then None else Some (Text s [])
       | InputImage u d \<Rightarrow> Some (Image u d) | OutputText _ \<Rightarrow> None)"
    using after before
    by (cases "pre = []") (auto simp: user_input_of_def is_image_tag_def open_tag_def is_local_image_close_tag_text_def split: content_item.splits)
  then show ?case using Cons.IH [of "pre @ [c]"] by (auto split: content_item.splits)
qed simp

lemma parse_user_message_eq:
  "\<not> is_contextual_user_message_content from_xml m \<Longrightarrow> parse_user_message from_xml m = Some (read_back None m)"
  using map_filter_user_input_of [of "[]" m] by (simp add: parse_user_message_def)

text \<open>A visible hook prompt is contextual, so a user message is read exactly from the other user items.\<close>

lemma hook_prompt_step_simps [simp]:
  "hook_prompt_step from_xml c None = None"
  "hook_prompt_step from_xml (InputImage u d) acc = None" "hook_prompt_step from_xml (OutputText t) acc = None"
  by (cases acc; simp add: hook_prompt_step_def)+

lemma fold_hook_prompt_None [simp]: "fold (hook_prompt_step from_xml) content None = None"
  by (induction content) simp_all

lemma fold_hook_prompt_step:
  "fold (hook_prompt_step from_xml) content (Some acc) = Some fragments \<Longrightarrow> fragments \<noteq> acc \<Longrightarrow>
   list_ex (is_contextual_user_fragment from_xml) content"
proof (induction content arbitrary: acc)
  case (Cons c content)
  show ?case
  proof (cases c)
    case (InputText s)
    show ?thesis
    proof (cases "parse_hook_prompt_fragment from_xml s")
      case None
      then have "hook_prompt_step from_xml c (Some acc) = (if is_standard_contextual_user_text s then Some acc else None)"
        by (simp add: InputText hook_prompt_step_def)
      then show ?thesis using Cons by (auto split: if_splits)
    next
      case (Some fragment)
      then show ?thesis by (simp add: InputText is_contextual_user_fragment_def)
    qed
  qed (use Cons.prems in simp_all)
qed simp

lemma visible_hook_prompt_contextual:
  "parse_visible_hook_prompt_message from_xml content = Some fragments \<Longrightarrow> is_contextual_user_message_content from_xml content"
  using fold_hook_prompt_step [of from_xml content "[]" fragments]
  by (auto simp: parse_visible_hook_prompt_message_def is_contextual_user_message_content_def Let_def split: if_splits)

lemma parse_turn_item_user:
  "parse_turn_item from_xml item = Some (UserMessageItem inputs) \<longleftrightarrow>
   (case item of
      Message _ role content _ \<Rightarrow>
        role = lit ''user'' \<and> \<not> is_contextual_user_message_content from_xml content \<and> inputs = read_back None content
    | _ \<Rightarrow> False)"
proof (cases item)
  case (Message i role content phase)
  show ?thesis
  proof (cases "parse_visible_hook_prompt_message from_xml content")
    case None
    then show ?thesis
      using map_filter_user_input_of [of "[]" content]
      by (auto simp: Message parse_turn_item_def parse_user_message_def split: if_splits)
  next
    case (Some fragments)
    then show ?thesis
      using visible_hook_prompt_contextual [OF Some] by (auto simp: Message parse_turn_item_def)
  qed
qed (simp_all add: parse_turn_item_def)

text \<open>What the turn item shows of the user's input.\<close>

definition shown_local_image :: "image_reader \<Rightarrow> rstr \<Rightarrow> image_detail \<Rightarrow> user_input" where
  "shown_local_image rd path detail =
     (let shown = (\<lambda>c. case c of InputText s \<Rightarrow> Text s [] | _ \<Rightarrow> Text [] [])
      in case read_file rd path of
           Inl err \<Rightarrow> shown (local_image_error_placeholder path err)
         | Inr file_bytes \<Rightarrow>
             (case load_for_prompt_bytes rd path file_bytes (if detail = Original then OriginalMode else ResizeToFit) of
                Inr data_url \<Rightarrow> Image data_url (Some detail)
              | Inl (ReadError err) \<Rightarrow> shown (local_image_error_placeholder path err)
              | Inl (EncodeError err) \<Rightarrow> shown (local_image_error_placeholder path err)
              | Inl (DecodeError invalid err) \<Rightarrow>
                  shown (if invalid then invalid_image_error_placeholder path err else local_image_error_placeholder path err)
              | Inl (UnsupportedImageFormat mime) \<Rightarrow> shown (unsupported_image_error_placeholder path mime)))"

fun shown_input :: "image_reader \<Rightarrow> user_input \<Rightarrow> user_input list" where
  "shown_input rd (Text s _) = [Text s []]"
| "shown_input rd (Image u d) = [Image u (Some (unwrap_or DEFAULT_IMAGE_DETAIL d))]"
| "shown_input rd (LocalImage path d) = [shown_local_image rd path (unwrap_or DEFAULT_IMAGE_DETAIL d)]"
| "shown_input rd (Skill _ _) = []"
| "shown_input rd (Mention _ _) = []"

definition tag_free :: "user_input \<Rightarrow> bool" where
  "tag_free input = (case input of Text s _ \<Rightarrow> \<not> open_tag s \<and> \<not> is_image_close_tag_text s | _ \<Rightarrow> True)"

lemma tags_eval:
  "open_tag (local_image_open_tag_text n)" "is_image_close_tag_text LOCAL_IMAGE_CLOSE_TAG"
  by (simp_all add: open_tag_def is_local_image_open_tag_text_def local_image_open_tag_text_def is_some_and_def
      LOCAL_IMAGE_CLOSE_TAG_def is_image_close_tag_text_def ends_with_append [of _ "_ @ _", simplified])

lemma placeholders_not_tags:
  "\<not> open_tag (lit ''Codex could not read the local image at `'' @ x)" "\<not> is_image_close_tag_text (lit ''Codex could not read the local image at `'' @ x)"
  "\<not> open_tag (lit ''Image located at `'' @ x)" "\<not> is_image_close_tag_text (lit ''Image located at `'' @ x)"
  "\<not> open_tag (lit ''Codex cannot attach image at `'' @ x)" "\<not> is_image_close_tag_text (lit ''Codex cannot attach image at `'' @ x)"
  by (simp_all add: open_tag_def is_local_image_open_tag_text_def is_image_open_tag_text_def is_image_close_tag_text_def is_some_and_def
      IMAGE_OPEN_TAG_def IMAGE_CLOSE_TAG_def LOCAL_IMAGE_OPEN_TAG_PREFIX_def rust_eval)

lemmas placeholder_defs = local_image_error_placeholder_def invalid_image_error_placeholder_def unsupported_image_error_placeholder_def

lemma image_mode_eq: "(case detail of Original \<Rightarrow> OriginalMode | _ \<Rightarrow> ResizeToFit) = (if detail = Original then OriginalMode else ResizeToFit)"
  by (cases detail) simp_all

lemma local_image_items:
  fixes rd path n detail
  defines "items \<equiv> (case read_file rd path of
      Inr file_bytes \<Rightarrow> local_image_content_items_with_label_number rd path file_bytes (Some n) detail
    | Inl err \<Rightarrow> [local_image_error_placeholder path err])"
  shows "(\<exists>u. items = [InputText (local_image_open_tag_text n), InputImage u (Some detail), InputText LOCAL_IMAGE_CLOSE_TAG] \<and>
            shown_local_image rd path detail = Image u (Some detail)) \<or>
         (\<exists>s. items = [InputText s] \<and> \<not> open_tag s \<and> \<not> is_image_close_tag_text s \<and> shown_local_image rd path detail = Text s [])"
proof (cases "read_file rd path")
  case (Inl err)
  then show ?thesis by (simp add: items_def shown_local_image_def placeholder_defs placeholders_not_tags)
next
  case (Inr file_bytes)
  note read = this
  show ?thesis
  proof (cases "load_for_prompt_bytes rd path file_bytes (if detail = Original then OriginalMode else ResizeToFit)")
    case (Inl err)
    then show ?thesis using read
      by (cases err) (simp_all add: items_def shown_local_image_def local_image_content_items_with_label_number_def image_mode_eq
          placeholder_defs placeholders_not_tags)
  next
    case (Inr u)
    then show ?thesis using read
      by (simp add: items_def shown_local_image_def local_image_content_items_with_label_number_def image_mode_eq)
  qed
qed

lemma read_back_local_image:
  "\<exists>prev'. read_back prev
      ((case read_file rd path of
          Inr file_bytes \<Rightarrow> local_image_content_items_with_label_number rd path file_bytes (Some n) detail
        | Inl err \<Rightarrow> [local_image_error_placeholder path err]) @ cs) =
    shown_local_image rd path detail # read_back prev' cs"
  using local_image_items [where rd = rd and path = path and n = n and detail = detail] by (auto simp: tags_eval is_image_def first_opt_def)

lemma read_back_content:
  "list_all tag_free inputs \<Longrightarrow> read_back prev (content_of_inputs rd n inputs) = concat (map (shown_input rd) inputs)"
proof (induction rd n inputs arbitrary: prev rule: content_of_inputs.induct)
  case (4 rd n path detail inputs)
  then show ?case
    using read_back_local_image [where prev = prev and rd = rd and path = path and n = "n + 1"
        and detail = "unwrap_or DEFAULT_IMAGE_DETAIL detail" and cs = "content_of_inputs rd (n + 1) inputs"]
    by auto
qed (simp_all add: tag_free_def)

section \<open>Text elements of the flattened message\<close>

lemma split_at_byte_SomeD: "split_at_byte n s = Some (a, b) \<Longrightarrow> s = a @ b \<and> n = str_len a"
  by (induction n s arbitrary: a rule: split_at_byte.induct) (auto split: if_splits)

lemma get_range_shift:
  assumes "get_range r s = Some sub"
  shows "get_range \<lparr>range_start = str_len pre + range_start r, range_end = str_len pre + range_end r\<rparr> (pre @ s @ post) = Some sub"
proof -
  obtain a b c where "split_at_byte (range_start r) s = Some (a, b)" "split_at_byte (range_end r - range_start r) b = Some (sub, c)"
    "range_start r \<le> range_end r"
    using assms by (auto simp: get_range_def get_from_def get_to_def bind_eq_Some_conv split: if_splits)
  then have s: "s = a @ sub @ c" "range_start r = str_len a" "range_end r - range_start r = str_len sub"
    using split_at_byte_SomeD by fastforce+
  have "split_at_byte (str_len pre + range_start r) (pre @ s @ post) = Some (pre @ a, sub @ c @ post)"
    using split_at_byte_append [of "pre @ a" "sub @ c @ post"] s by simp
  then show ?thesis
    using split_at_byte_append [of sub "c @ post"] s(3) \<open>range_start r \<le> range_end r\<close>
    by (simp add: get_range_def get_from_def get_to_def)
qed

definition elements_valid :: "user_input \<Rightarrow> bool" where
  "elements_valid input = (case input of Text s elements \<Rightarrow> list_all (\<lambda>e. get_range (elem_range e) s \<noteq> None) elements | _ \<Rightarrow> True)"

definition elements_of :: "user_input \<Rightarrow> (rstr option \<times> rstr option) list" where
  "elements_of input =
     (case input of
        Text s elements \<Rightarrow> map (\<lambda>e. (get_range (elem_range e) s, element_placeholder e s)) elements
      | _ \<Rightarrow> [])"

lemma get_range_bounds: "get_range r s = Some sub \<Longrightarrow> range_start r \<le> str_len s \<and> range_end r \<le> str_len s"
  by (auto simp: get_range_def get_from_def get_to_def bind_eq_Some_conv dest!: split_at_byte_SomeD split: if_splits)

lemma text_elements_from_aligned:
  assumes "list_all elements_valid content" "str_len (pre @ flat_message content) \<le> usize_max"
  shows "map (\<lambda>e. (get_range (elem_range e) (pre @ flat_message content), elem_placeholder e)) (text_elements_from (str_len pre) content) =
    concat (map elements_of content)"
  using assms
proof (induction content arbitrary: pre)
  case (Cons input content)
  show ?case
  proof (cases input)
    case (Text s elements)
    have flat: "flat_message (input # content) = s @ flat_message content" by (simp add: flat_message_def Text)
    have wrap: "uwrap_add (str_len pre) k = str_len pre + k" if "k \<le> str_len s" for k
      using that Cons.prems(2) by (simp add: uwrap_add_def flat)
    have "map (\<lambda>e. (get_range (elem_range e) (pre @ flat_message (input # content)), elem_placeholder e))
        (text_elements_from (str_len (pre @ s)) content) = concat (map elements_of content)"
      using Cons.IH [of "pre @ s"] Cons.prems by (simp add: flat)
    moreover have "get_range \<lparr>range_start = uwrap_add (str_len pre) (range_start (elem_range e)),
          range_end = uwrap_add (str_len pre) (range_end (elem_range e))\<rparr> (pre @ s @ flat_message content) = get_range (elem_range e) s"
      if e: "e \<in> set elements" for e
    proof -
      obtain sub where sub: "get_range (elem_range e) s = Some sub"
        using Cons.prems(1) e by (auto simp: elements_valid_def Text list_all_iff)
      show ?thesis using get_range_shift [OF sub] get_range_bounds [OF sub] sub by (simp add: wrap)
    qed
    moreover have "elements_of input = map (\<lambda>e. (get_range (elem_range e) s, element_placeholder e s)) elements"
      by (simp add: elements_of_def Text)
    ultimately show ?thesis using wrap [of "str_len s"] by (simp add: flat) (simp add: Text flat [unfolded Text])
  qed (use Cons in \<open>simp_all add: flat_message_def elements_of_def\<close>)
qed simp

text \<open>
  C25: Reading user input back from the conversation. For input in which no text is itself one of the
  tags that mark images: if one of the resulting content items reads as injected context, the message is
  not taken for the user's at all; otherwise texts and images come back in order, a local image comes
  back as the image that was sent (the tags around it are gone) or as the message that explains why it
  could not be read, and skills and mentions leave nothing behind.
\<close>

theorem user_input_round_trip:
  assumes "list_all tag_free inputs"
  shows "parse_user_message from_xml (content_of_inputs rd 0 inputs) =
    (if is_contextual_user_message_content from_xml (content_of_inputs rd 0 inputs) then None
     else Some (concat (map (shown_input rd) inputs)))"
proof (cases "is_contextual_user_message_content from_xml (content_of_inputs rd 0 inputs)")
  case True
  then show ?thesis by (simp add: parse_user_message_def)
next
  case False
  then show ?thesis using parse_user_message_eq [OF False] read_back_content [OF assms] by simp
qed

text \<open>A text that is itself a closing tag is lost when it follows an image.\<close>

lemma tag_text_is_lost:
  "parse_user_message (\<lambda>_. None) (content_of_inputs rd 0 [Image (lit ''u'') None, Text (lit ''</image>'') []]) =
   Some [Image (lit ''u'') (Some High)]"
proof -
  have "\<not> is_contextual_user_message_content (\<lambda>_. None) [InputImage (lit ''u'') (Some High), InputText (lit ''</image>'')]"
    by (simp add: is_contextual_user_message_content_def is_contextual_user_fragment_def parse_hook_prompt_fragment_def
        is_standard_contextual_user_text_def CONTEXTUAL_USER_FRAGMENTS_def matches_text_def legacy_defs marker_defs matches_marked_text_def
        additional_context_matches_def get_to_def get_from_def is_some_and_def eq_ignore_ascii_case_def to_ascii_lower_def len_utf8_def
        trim_defs is_whitespace_def starts_with_def ends_with_def strip_prefix_def rust_eval)
  moreover have "is_image_close_tag_text (lit ''</image>'')" by (simp add: is_image_close_tag_text_def IMAGE_CLOSE_TAG_def)
  ultimately show ?thesis
    by (simp add: parse_user_message_def user_input_of_def is_image_tag_def image_at_def unwrap_or_def DEFAULT_IMAGE_DETAIL_def List.map_filter_def)
qed

theorem user_input_round_trip_witness:
  "parse_user_message (\<lambda>_. None) (content_of_inputs
     \<lparr>read_file = \<lambda>_. Inr [1], load_for_prompt_bytes = \<lambda>_ _ _. Inr (lit ''data:a'')\<rparr> 0
     [Text (lit ''see'') [], LocalImage (lit ''a.png'') None, Skill (lit ''s'') (lit ''p'')]) =
   Some [Text (lit ''see'') [], Image (lit ''data:a'') (Some High)]"
proof -
  let ?rd = "\<lparr>read_file = \<lambda>_. Inr [1], load_for_prompt_bytes = \<lambda>_ _ _. Inr (lit ''data:a'')\<rparr> :: image_reader"
  let ?inputs = "[Text (lit ''see'') [], LocalImage (lit ''a.png'') None, Skill (lit ''s'') (lit ''p'')]"
  have tags: "list_all tag_free ?inputs"
    by (simp add: tag_free_def open_tag_def is_local_image_open_tag_text_def is_image_open_tag_text_def is_image_close_tag_text_def
        is_some_and_def IMAGE_OPEN_TAG_def IMAGE_CLOSE_TAG_def LOCAL_IMAGE_OPEN_TAG_PREFIX_def rust_eval)
  have content: "content_of_inputs ?rd 0 ?inputs =
      [InputText (lit ''see''), InputText (lit ''<image name=[Image #1]>''), InputImage (lit ''data:a'') (Some High), InputText (lit ''</image>'')]"
    by (simp add: local_image_content_items_with_label_number_def unwrap_or_def DEFAULT_IMAGE_DETAIL_def local_image_open_tag_text_def
        local_image_label_text_def LOCAL_IMAGE_OPEN_TAG_PREFIX_def LOCAL_IMAGE_OPEN_TAG_SUFFIX_def LOCAL_IMAGE_CLOSE_TAG_def
        IMAGE_CLOSE_TAG_def decimal.simps rust_eval)
  have "\<not> is_contextual_user_message_content (\<lambda>_. None) (content_of_inputs ?rd 0 ?inputs)"
    unfolding content
    by (simp add: is_contextual_user_message_content_def is_contextual_user_fragment_def parse_hook_prompt_fragment_def
        is_standard_contextual_user_text_def CONTEXTUAL_USER_FRAGMENTS_def matches_text_def legacy_defs marker_defs matches_marked_text_def
        additional_context_matches_def get_to_def get_from_def is_some_and_def eq_ignore_ascii_case_def to_ascii_lower_def len_utf8_def
        trim_defs is_whitespace_def starts_with_def ends_with_def strip_prefix_def rust_eval)
  with user_input_round_trip [OF tags, of "\<lambda>_. None" ?rd] show ?thesis
    by (simp add: shown_local_image_def unwrap_or_def DEFAULT_IMAGE_DETAIL_def)
qed

text \<open>
  The flattened message of several inputs keeps every text element on the text it marked: at its
  rebased byte range the message holds what the element's own text held at the original range, and its
  placeholder is the original one or, failing that, that text.
\<close>

theorem text_elements_aligned:
  assumes "list_all elements_valid content" "str_len (flat_message content) \<le> usize_max"
  shows "map (\<lambda>e. (get_range (elem_range e) (flat_message content), elem_placeholder e)) (text_elements content) =
    concat (map elements_of content)"
  using text_elements_from_aligned [of content "[]"] assms by (simp add: text_elements_def)

theorem text_elements_aligned_witness:
  "map (\<lambda>e. (get_range (elem_range e) (lit ''ab@x''), elem_placeholder e))
     (text_elements [Text (lit ''ab'') [], Text (lit ''@x'') [\<lparr>elem_range = \<lparr>range_start = 0, range_end = 2\<rparr>, elem_placeholder = None\<rparr>]]) =
   [(Some (lit ''@x''), Some (lit ''@x''))]"
proof -
  let ?content = "[Text (lit ''ab'') [], Text (lit ''@x'') [\<lparr>elem_range = \<lparr>range_start = 0, range_end = 2\<rparr>, elem_placeholder = None\<rparr>]]"
  have flat: "flat_message ?content = lit ''ab@x''" by (simp add: flat_message_def rust_eval)
  have sub: "get_range \<lparr>range_start = 0, range_end = 2\<rparr> (lit ''@x'') = Some (lit ''@x'')"
    by (simp add: get_range_def get_from_def get_to_def len_utf8_def rust_eval)
  have "list_all elements_valid ?content" "concat (map elements_of ?content) = [(Some (lit ''@x''), Some (lit ''@x''))]"
    by (simp_all add: elements_valid_def elements_of_def element_placeholder_def sub)
  moreover have "str_len (flat_message ?content) \<le> usize_max" unfolding flat by (simp add: len_utf8_def usize_max_def rust_eval)
  ultimately show ?thesis using text_elements_aligned [of ?content] unfolding flat by simp
qed

end
