(* ===== verification/Context_History.thy ===== *)
theory Context_History
  imports Context_Fragments
begin

text \<open>
  The transcript of a thread (\<^verbatim>\<open>core/src/context_manager/history.rs\<close>) with its token accounting
  (\<^verbatim>\<open>TokenUsageInfo\<close> of \<^verbatim>\<open>protocol/src/protocol.rs\<close>, \<^verbatim>\<open>codex-wire-extensions/src/token_usage.rs\<close>). JSON and
  XML readers and the image decoder are parameters. The cache of image estimates is left out: it
  returns what the estimate computes.
\<close>

section \<open>Token usage\<close>

text \<open>Plain additions of a release build wrap around.\<close>

definition i64_wrap :: "int \<Rightarrow> int" where
  "i64_wrap x = (x + 2 ^ 63) mod 2 ^ 64 - 2 ^ 63"

record token_usage =
  input_tokens :: int
  cached_input_tokens :: int
  cache_creation_input_tokens :: int
  output_tokens :: int
  reasoning_output_tokens :: int
  total_tokens :: int
  web_search_requests :: int
  web_fetch_requests :: int

definition default_usage :: token_usage where
  "default_usage = \<lparr>input_tokens = 0, cached_input_tokens = 0, cache_creation_input_tokens = 0, output_tokens = 0,
     reasoning_output_tokens = 0, total_tokens = 0, web_search_requests = 0, web_fetch_requests = 0\<rparr>"

definition BASELINE_TOKENS :: int where "BASELINE_TOKENS = 12000"

definition cached_input :: "token_usage \<Rightarrow> int" where
  "cached_input u = max (cached_input_tokens u) 0"

definition non_cached_input :: "token_usage \<Rightarrow> int" where
  "non_cached_input u = max (i64_wrap (input_tokens u - cached_input u)) 0"

definition blended_total :: "token_usage \<Rightarrow> int" where
  "blended_total u = max (i64_wrap (non_cached_input u + max (output_tokens u) 0)) 0"

definition add_assign :: "token_usage \<Rightarrow> token_usage \<Rightarrow> token_usage" where
  "add_assign u other =
     \<lparr>input_tokens = i64_wrap (input_tokens u + input_tokens other),
      cached_input_tokens = i64_wrap (cached_input_tokens u + cached_input_tokens other),
      cache_creation_input_tokens = i64_wrap (cache_creation_input_tokens u + cache_creation_input_tokens other),
      output_tokens = i64_wrap (output_tokens u + output_tokens other),
      reasoning_output_tokens = i64_wrap (reasoning_output_tokens u + reasoning_output_tokens other),
      total_tokens = i64_wrap (total_tokens u + total_tokens other),
      web_search_requests = i64_wrap (web_search_requests u + web_search_requests other),
      web_fetch_requests = i64_wrap (web_fetch_requests u + web_fetch_requests other)\<rparr>"

record token_usage_info =
  total_token_usage :: token_usage
  last_token_usage :: token_usage
  model_context_window :: "int option"

definition append_last_usage :: "token_usage_info \<Rightarrow> token_usage \<Rightarrow> token_usage_info" where
  "append_last_usage info last_usage =
     info\<lparr>total_token_usage := add_assign (total_token_usage info) last_usage, last_token_usage := last_usage\<rparr>"

definition new_or_append ::
  "token_usage_info option \<Rightarrow> token_usage option \<Rightarrow> int option \<Rightarrow> token_usage_info option" where
  "new_or_append info last_usage window =
     (if info = None \<and> last_usage = None then None
      else
        (let info = (case info of
               Some info \<Rightarrow> info
             | None \<Rightarrow> \<lparr>total_token_usage = default_usage, last_token_usage = default_usage, model_context_window = window\<rparr>);
             info = (case last_usage of Some u \<Rightarrow> append_last_usage info u | None \<Rightarrow> info);
             info = (case window of Some w \<Rightarrow> info\<lparr>model_context_window := Some w\<rparr> | None \<Rightarrow> info)
         in Some info))"

definition fill_to_context_window :: "token_usage_info \<Rightarrow> int \<Rightarrow> token_usage_info" where
  "fill_to_context_window info context_window =
     (let previous_total = total_tokens (total_token_usage info);
          delta = max (i64_wrap (context_window - previous_total)) 0
      in info\<lparr>model_context_window := Some context_window,
          total_token_usage := default_usage\<lparr>total_tokens := context_window\<rparr>,
          last_token_usage := default_usage\<lparr>total_tokens := delta\<rparr>\<rparr>)"

definition full_context_window :: "int \<Rightarrow> token_usage_info" where
  "full_context_window context_window =
     fill_to_context_window
       \<lparr>total_token_usage = default_usage, last_token_usage = default_usage, model_context_window = Some context_window\<rparr>
       context_window"

section \<open>Estimates\<close>

text \<open>
  What the history needs of code it does not contain: the XML reader of hook prompts, the JSON reader of
  inter-agent messages (for a message, whether it triggers a turn), the length of an item's JSON
  (\<open>None\<close> where serialising fails), and the size of the image that a base64 payload encodes.
\<close>

record history_env =
  hook_xml :: xml_reader
  inter_agent_json :: "rstr \<Rightarrow> bool option"
  serialized_len :: "response_item \<Rightarrow> nat option"
  image_size :: "rstr \<Rightarrow> (nat \<times> nat) option"

definition estimate_reasoning_length :: "nat \<Rightarrow> nat" where
  "estimate_reasoning_length encoded_len = usat_mul encoded_len 3 div 4 - 650"

definition estimate_encrypted_function_output_length :: "nat \<Rightarrow> nat" where
  "estimate_encrypted_function_output_length encoded_len =
     (let n = usat_mul encoded_len 9 in n div 16 + (if n mod 16 = 0 then 0 else 1))"

definition RESIZED_IMAGE_BYTES_ESTIMATE :: int where "RESIZED_IMAGE_BYTES_ESTIMATE = 7373"
definition ORIGINAL_IMAGE_PATCH_SIZE :: int where "ORIGINAL_IMAGE_PATCH_SIZE = 32"
definition ORIGINAL_IMAGE_MAX_PATCHES :: nat where "ORIGINAL_IMAGE_MAX_PATCHES = 10000"

definition parse_base64_image_data_url :: "rstr \<Rightarrow> rstr option" where
  "parse_base64_image_data_url url =
     (if \<not> is_some_and (\<lambda>prefix. eq_ignore_ascii_case prefix (lit ''data:'')) (get_to 5 url) then None
      else
        (case split_once (chr CHR '','') url of
           None \<Rightarrow> None
         | Some (header, payload) \<Rightarrow>
             (let parts = split_on (chr CHR '';'') (drop 5 header);
                  mime_type = hd parts;
                  has_base64_marker = list_ex (\<lambda>part. eq_ignore_ascii_case part (lit ''base64'')) (tl parts)
              in if \<not> is_some_and (\<lambda>prefix. eq_ignore_ascii_case prefix (lit ''image/'')) (get_to 6 mime_type) then None
                 else if \<not> has_base64_marker then None
                 else Some payload)))"

definition isat_mul :: "int \<Rightarrow> int \<Rightarrow> int" where
  "isat_mul a b = i64_clamp (a * b)"

definition estimate_original_image_bytes :: "history_env \<Rightarrow> rstr \<Rightarrow> int option" where
  "estimate_original_image_bytes env image_url =
     (case parse_base64_image_data_url image_url of
        None \<Rightarrow> None
      | Some payload \<Rightarrow>
          (case image_size env payload of
             None \<Rightarrow> None
           | Some (width, height) \<Rightarrow>
               (let patch_size = ORIGINAL_IMAGE_PATCH_SIZE;
                    patches_wide = isat_add (int width) (isat_sub patch_size 1) div patch_size;
                    patches_high = isat_add (int height) (isat_sub patch_size 1) div patch_size;
                    patch_count = min (nat (isat_mul patches_wide patches_high)) ORIGINAL_IMAGE_MAX_PATCHES
                in Some (i64_of_usize (approx_bytes_for_tokens patch_count)))))"

definition accumulate :: "history_env \<Rightarrow> rstr \<times> image_detail option \<Rightarrow> int \<times> int \<Rightarrow> int \<times> int" where
  "accumulate env = (\<lambda>(image_url, detail) (payload_bytes, replacement_bytes).
     case parse_base64_image_data_url image_url of
       None \<Rightarrow> (payload_bytes, replacement_bytes)
     | Some payload \<Rightarrow>
         (isat_add payload_bytes (i64_of_usize (str_len payload)),
          isat_add replacement_bytes
            (case detail of
               Some Original \<Rightarrow>
                 (case estimate_original_image_bytes env image_url of
                    Some n \<Rightarrow> n | None \<Rightarrow> RESIZED_IMAGE_BYTES_ESTIMATE)
             | _ \<Rightarrow> RESIZED_IMAGE_BYTES_ESTIMATE)))"

definition output_images :: "function_call_output_payload \<Rightarrow> (rstr \<times> image_detail option) list" where
  "output_images p =
     (case payload_body p of
        ContentItems items \<Rightarrow> List.map_filter (\<lambda>c. case c of FInputImage u d \<Rightarrow> Some (u, d) | _ \<Rightarrow> None) items
      | _ \<Rightarrow> [])"

definition image_data_url_estimate_adjustment :: "history_env \<Rightarrow> response_item \<Rightarrow> int \<times> int" where
  "image_data_url_estimate_adjustment env item =
     (case item of
        Message _ _ content _ \<Rightarrow>
          fold (accumulate env) (List.map_filter (\<lambda>c. case c of InputImage u d \<Rightarrow> Some (u, d) | _ \<Rightarrow> None) content) (0, 0)
      | FunctionCallOutput _ p \<Rightarrow> fold (accumulate env) (output_images p) (0, 0)
      | CustomToolCallOutput _ _ p \<Rightarrow> fold (accumulate env) (output_images p) (0, 0)
      | _ \<Rightarrow> (0, 0))"

definition encrypted_function_output_estimate_adjustment :: "response_item \<Rightarrow> int \<times> int" where
  "encrypted_function_output_estimate_adjustment item =
     (case item of
        FunctionCallOutput _ p \<Rightarrow>
          (case payload_body p of
             ContentItems items \<Rightarrow>
               fold (\<lambda>c acc. case c of
                   EncryptedContent e \<Rightarrow>
                     (isat_add (fst acc) (i64_of_usize (str_len e)),
                      isat_add (snd acc) (i64_of_usize (estimate_encrypted_function_output_length (str_len e))))
                 | _ \<Rightarrow> acc) items (0, 0)
           | _ \<Rightarrow> (0, 0))
      | _ \<Rightarrow> (0, 0))"

definition estimate_serialized_bytes :: "history_env \<Rightarrow> response_item \<Rightarrow> int" where
  "estimate_serialized_bytes env item =
     (let raw = (case serialized_len env item of Some n \<Rightarrow> i64_of_usize n | None \<Rightarrow> 0);
          (image_payload_bytes, image_replacement_bytes) = image_data_url_estimate_adjustment env item;
          (encrypted_payload_bytes, encrypted_replacement_bytes) = encrypted_function_output_estimate_adjustment item;
          raw = isat_add (isat_sub raw image_payload_bytes) image_replacement_bytes
      in isat_add (isat_sub raw encrypted_payload_bytes) encrypted_replacement_bytes)"

definition estimate_response_item_model_visible_bytes :: "history_env \<Rightarrow> response_item \<Rightarrow> int" where
  "estimate_response_item_model_visible_bytes env item =
     (case item of
        Reasoning _ _ _ (Some content) _ _ \<Rightarrow> i64_of_usize (estimate_reasoning_length (str_len content))
      | Compaction content \<Rightarrow> i64_of_usize (estimate_reasoning_length (str_len content))
      | ContextCompaction (Some content) \<Rightarrow> i64_of_usize (estimate_reasoning_length (str_len content))
      | _ \<Rightarrow> estimate_serialized_bytes env item)"

definition estimate_item_token_count :: "history_env \<Rightarrow> response_item \<Rightarrow> int" where
  "estimate_item_token_count env item =
     approx_tokens_from_byte_count_i64 (estimate_response_item_model_visible_bytes env item)"

definition saturating_sum :: "int list \<Rightarrow> int" where
  "saturating_sum xs = fold (\<lambda>x acc. isat_add acc x) xs 0"

section \<open>Kinds of items\<close>

definition is_api_message :: "response_item \<Rightarrow> bool" where
  "is_api_message item =
     (case item of
        Message _ role _ _ \<Rightarrow> role \<noteq> lit ''system''
      | CompactionTrigger \<Rightarrow> False
      | OtherItem \<Rightarrow> False
      | _ \<Rightarrow> True)"

definition is_model_generated_item :: "response_item \<Rightarrow> bool" where
  "is_model_generated_item item =
     (case item of
        Message _ role _ _ \<Rightarrow> role = lit ''assistant''
      | CompactionTrigger \<Rightarrow> False
      | FunctionCallOutput _ _ \<Rightarrow> False
      | ToolSearchOutput _ _ _ _ \<Rightarrow> False
      | CustomToolCallOutput _ _ _ \<Rightarrow> False
      | OtherItem \<Rightarrow> False
      | _ \<Rightarrow> True)"

definition is_codex_generated_item :: "response_item \<Rightarrow> bool" where
  "is_codex_generated_item item =
     (case item of
        FunctionCallOutput _ _ \<Rightarrow> True
      | ToolSearchOutput _ _ _ _ \<Rightarrow> True
      | CustomToolCallOutput _ _ _ \<Rightarrow> True
      | Message _ role _ _ \<Rightarrow> role = lit ''developer''
      | _ \<Rightarrow> False)"

definition from_message_content :: "history_env \<Rightarrow> content_item list \<Rightarrow> bool option" where
  "from_message_content env content =
     (case content of
        [InputText s] \<Rightarrow> inter_agent_json env s
      | [OutputText s] \<Rightarrow> inter_agent_json env s
      | _ \<Rightarrow> None)"

definition is_message_content :: "history_env \<Rightarrow> content_item list \<Rightarrow> bool" where
  "is_message_content env content \<longleftrightarrow> from_message_content env content \<noteq> None"

definition is_user_turn_boundary :: "history_env \<Rightarrow> response_item \<Rightarrow> bool" where
  "is_user_turn_boundary env item =
     (case item of
        Message _ role content _ \<Rightarrow>
          role = lit ''user'' \<and> \<not> is_contextual_user_message_content (hook_xml env) content \<or>
          role = lit ''assistant'' \<and> is_message_content env content
      | _ \<Rightarrow> False)"

definition user_message_positions :: "history_env \<Rightarrow> response_item list \<Rightarrow> nat list" where
  "user_message_positions env items =
     List.map_filter (\<lambda>(idx, item). if is_user_turn_boundary env item then Some idx else None) (enumerate 0 items)"

section \<open>The history\<close>

record 'c context_manager =
  cm_items :: "response_item list"
  history_version :: nat
  token_info :: "token_usage_info option"
  reference_context_item :: "'c option"

definition new_context_manager :: "'c context_manager" where
  "new_context_manager = \<lparr>cm_items = [], history_version = 0, token_info = new_or_append None None None, reference_context_item = None\<rparr>"

definition set_token_info :: "token_usage_info option \<Rightarrow> 'c context_manager \<Rightarrow> 'c context_manager" where
  "set_token_info info cm = cm\<lparr>token_info := info\<rparr>"

definition set_reference_context_item :: "'c option \<Rightarrow> 'c context_manager \<Rightarrow> 'c context_manager" where
  "set_reference_context_item item cm = cm\<lparr>reference_context_item := item\<rparr>"

definition seed_model_context_window :: "int \<Rightarrow> 'c context_manager \<Rightarrow> 'c context_manager" where
  "seed_model_context_window context_window cm =
     (case token_info cm of
        Some info \<Rightarrow>
          if model_context_window info = None then cm\<lparr>token_info := Some (info\<lparr>model_context_window := Some context_window\<rparr>)\<rparr> else cm
      | None \<Rightarrow>
          cm\<lparr>token_info := Some \<lparr>total_token_usage = default_usage, last_token_usage = default_usage,
            model_context_window = Some context_window\<rparr>\<rparr>)"

definition set_token_usage_full :: "int \<Rightarrow> 'c context_manager \<Rightarrow> 'c context_manager" where
  "set_token_usage_full context_window cm =
     (case token_info cm of
        Some info \<Rightarrow> cm\<lparr>token_info := Some (fill_to_context_window info context_window)\<rparr>
      | None \<Rightarrow> cm\<lparr>token_info := Some (full_context_window context_window)\<rparr>)"

definition truncate_function_output_payload ::
  "function_call_output_payload \<Rightarrow> truncation_policy \<Rightarrow> function_call_output_payload option" where
  "truncate_function_output_payload p policy =
     map_option (\<lambda>body. \<lparr>payload_body = body, payload_success = payload_success p\<rparr>)
       (case payload_body p of
          TextBody content \<Rightarrow> map_option TextBody (truncate_text content policy)
        | ContentItems items \<Rightarrow> map_option ContentItems (truncate_function_output_items_with_policy items policy))"

definition process_item :: "response_item \<Rightarrow> truncation_policy \<Rightarrow> response_item option" where
  "process_item item policy =
     (let policy_with_serialization_budget = policy_mul_1_2 policy
      in case item of
           FunctionCallOutput call_id p \<Rightarrow>
             map_option (FunctionCallOutput call_id) (truncate_function_output_payload p policy_with_serialization_budget)
         | CustomToolCallOutput call_id name p \<Rightarrow>
             map_option (CustomToolCallOutput call_id name) (truncate_function_output_payload p policy_with_serialization_budget)
         | _ \<Rightarrow> Some item)"

fun record_items :: "response_item list \<Rightarrow> truncation_policy \<Rightarrow> 'c context_manager \<Rightarrow> 'c context_manager option" where
  "record_items [] policy cm = Some cm"
| "record_items (item # rest) policy cm =
     (if \<not> is_api_message item then record_items rest policy cm
      else
        (case process_item item policy of
           None \<Rightarrow> None
         | Some processed \<Rightarrow> record_items rest policy (cm\<lparr>cm_items := cm_items cm @ [processed]\<rparr>)))"

definition normalize_history :: "input_modality list \<Rightarrow> 'c context_manager \<Rightarrow> 'c context_manager option" where
  "normalize_history input_modalities cm =
     map_option (\<lambda>items. cm\<lparr>cm_items := strip_images_when_unsupported input_modalities (remove_orphan_outputs items)\<rparr>)
       (ensure_call_outputs_present (cm_items cm))"

definition for_prompt :: "input_modality list \<Rightarrow> 'c context_manager \<Rightarrow> response_item list option" where
  "for_prompt input_modalities cm = map_option cm_items (normalize_history input_modalities cm)"

definition estimate_token_count_with_base_instructions :: "history_env \<Rightarrow> rstr \<Rightarrow> 'c context_manager \<Rightarrow> int" where
  "estimate_token_count_with_base_instructions env base_instructions cm =
     isat_add (i64_of_usize (approx_token_count base_instructions))
       (saturating_sum (map (estimate_item_token_count env) (cm_items cm)))"

definition u64_bump :: "nat \<Rightarrow> nat" where
  "u64_bump v = usat_add v 1"

definition remove_first_item :: "'c context_manager \<Rightarrow> 'c context_manager" where
  "remove_first_item cm =
     (case cm_items cm of
        [] \<Rightarrow> cm
      | removed # items \<Rightarrow> cm\<lparr>cm_items := remove_corresponding_for items removed\<rparr>)"

definition remove_last_item :: "'c context_manager \<Rightarrow> 'c context_manager \<times> bool" where
  "remove_last_item cm =
     (case last_opt (cm_items cm) of
        Some removed \<Rightarrow>
          (cm\<lparr>cm_items := remove_corresponding_for (butlast (cm_items cm)) removed,
              history_version := u64_bump (history_version cm)\<rparr>, True)
      | None \<Rightarrow> (cm, False))"

definition replace_items :: "response_item list \<Rightarrow> 'c context_manager \<Rightarrow> 'c context_manager" where
  "replace_items items cm = cm\<lparr>cm_items := items, history_version := u64_bump (history_version cm)\<rparr>"

definition replace_last_turn_images :: "history_env \<Rightarrow> rstr \<Rightarrow> 'c context_manager \<Rightarrow> 'c context_manager \<times> bool" where
  "replace_last_turn_images env placeholder cm =
     (case rposition (\<lambda>item. (case item of FunctionCallOutput _ _ \<Rightarrow> True | _ \<Rightarrow> False) \<or> is_user_turn_boundary env item) (cm_items cm) of
        None \<Rightarrow> (cm, False)
      | Some index \<Rightarrow>
          (case cm_items cm ! index of
             FunctionCallOutput call_id p \<Rightarrow>
               (case payload_body p of
                  ContentItems content_items \<Rightarrow>
                    (let replaced = list_ex (\<lambda>c. case c of FInputImage _ _ \<Rightarrow> True | _ \<Rightarrow> False) content_items;
                         new_items = map (\<lambda>c. case c of FInputImage _ _ \<Rightarrow> FInputText placeholder | _ \<Rightarrow> c) content_items;
                         cm' = cm\<lparr>cm_items := (cm_items cm)[index := FunctionCallOutput call_id (p\<lparr>payload_body := ContentItems new_items\<rparr>)]\<rparr>
                     in (if replaced then cm'\<lparr>history_version := u64_bump (history_version cm)\<rparr> else cm', replaced))
                | _ \<Rightarrow> (cm, False))
           | _ \<Rightarrow> (cm, False)))"

fun trim_pre_turn_context_updates ::
  "history_env \<Rightarrow> response_item list \<Rightarrow> nat \<Rightarrow> nat \<Rightarrow> 'c context_manager \<Rightarrow> ('c context_manager \<times> nat) option" where
  "trim_pre_turn_context_updates env snapshot first_instruction_turn_idx cut_idx cm =
     (if first_instruction_turn_idx < cut_idx then
        (if length snapshot \<le> cut_idx - 1 then None
         else
           (case snapshot ! (cut_idx - 1) of
              Message _ role content _ \<Rightarrow>
                if role = lit ''developer'' \<and> is_contextual_dev_message_content content then
                  trim_pre_turn_context_updates env snapshot first_instruction_turn_idx (cut_idx - 1)
                    (if has_non_contextual_dev_message_content content then cm\<lparr>reference_context_item := None\<rparr> else cm)
                else if role = lit ''user'' \<and> is_contextual_user_message_content (hook_xml env) content then
                  trim_pre_turn_context_updates env snapshot first_instruction_turn_idx (cut_idx - 1) cm
                else Some (cm, cut_idx)
            | _ \<Rightarrow> Some (cm, cut_idx)))
      else Some (cm, cut_idx))"

definition drop_last_n_user_turns :: "history_env \<Rightarrow> nat \<Rightarrow> 'c context_manager \<Rightarrow> 'c context_manager option" where
  "drop_last_n_user_turns env num_turns cm =
     (if num_turns = 0 then Some cm
      else
        (let snapshot = cm_items cm; user_positions = user_message_positions env snapshot
         in case user_positions of
              [] \<Rightarrow> Some (replace_items snapshot cm)
            | first_instruction_turn_idx # _ \<Rightarrow>
                (let cut_idx = (if length user_positions \<le> num_turns then first_instruction_turn_idx
                                else user_positions ! (length user_positions - num_turns))
                 in map_option (\<lambda>(cm, cut_idx). replace_items (take cut_idx snapshot) cm)
                      (trim_pre_turn_context_updates env snapshot first_instruction_turn_idx cut_idx cm))))"

definition update_token_info :: "token_usage \<Rightarrow> int option \<Rightarrow> 'c context_manager \<Rightarrow> 'c context_manager" where
  "update_token_info usage window cm = cm\<lparr>token_info := new_or_append (token_info cm) (Some usage) window\<rparr>"

definition get_non_last_reasoning_items_tokens :: "history_env \<Rightarrow> 'c context_manager \<Rightarrow> int" where
  "get_non_last_reasoning_items_tokens env cm =
     (case rposition (is_user_turn_boundary env) (cm_items cm) of
        None \<Rightarrow> 0
      | Some last_user_index \<Rightarrow>
          saturating_sum (map (estimate_item_token_count env)
            (filter (\<lambda>item. case item of Reasoning _ _ _ (Some _) _ _ \<Rightarrow> True | _ \<Rightarrow> False) (take last_user_index (cm_items cm)))))"

definition items_after_last_model_generated_item :: "'c context_manager \<Rightarrow> response_item list" where
  "items_after_last_model_generated_item cm =
     drop (case rposition is_model_generated_item (cm_items cm) of None \<Rightarrow> length (cm_items cm) | Some index \<Rightarrow> index + 1) (cm_items cm)"

definition last_total_tokens :: "'c context_manager \<Rightarrow> int" where
  "last_total_tokens cm = (case token_info cm of Some info \<Rightarrow> total_tokens (last_token_usage info) | None \<Rightarrow> 0)"

definition get_total_token_usage :: "history_env \<Rightarrow> bool \<Rightarrow> 'c context_manager \<Rightarrow> int" where
  "get_total_token_usage env server_reasoning_included cm =
     (let last_tokens = last_total_tokens cm;
          after = saturating_sum (map (estimate_item_token_count env) (items_after_last_model_generated_item cm))
      in if server_reasoning_included then isat_add last_tokens after
         else isat_add (isat_add last_tokens (get_non_last_reasoning_items_tokens env cm)) after)"

record total_token_usage_breakdown =
  last_api_response_total_tokens :: int
  all_history_items_model_visible_bytes :: int
  estimated_tokens_of_items_added :: int
  estimated_bytes_of_items_added :: int

definition get_total_token_usage_breakdown :: "history_env \<Rightarrow> 'c context_manager \<Rightarrow> total_token_usage_breakdown" where
  "get_total_token_usage_breakdown env cm =
     (let after = items_after_last_model_generated_item cm
      in \<lparr>last_api_response_total_tokens = last_total_tokens cm,
          all_history_items_model_visible_bytes =
            saturating_sum (map (estimate_response_item_model_visible_bytes env) (cm_items cm)),
          estimated_tokens_of_items_added = saturating_sum (map (estimate_item_token_count env) after),
          estimated_bytes_of_items_added = saturating_sum (map (estimate_response_item_model_visible_bytes env) after)\<rparr>)"

declare trim_pre_turn_context_updates.simps [simp del]

section \<open>The prompt\<close>

definition image_free :: "response_item \<Rightarrow> bool" where
  "image_free item =
     (case item of
        Message _ _ content _ \<Rightarrow> list_all (\<lambda>c. case c of InputImage _ _ \<Rightarrow> False | _ \<Rightarrow> True) content
      | FunctionCallOutput _ p \<Rightarrow> output_images p = []
      | CustomToolCallOutput _ _ p \<Rightarrow> output_images p = []
      | ImageGenerationCall _ _ _ result \<Rightarrow> result = []
      | _ \<Rightarrow> True)"

definition strip_for :: "input_modality list \<Rightarrow> response_item \<Rightarrow> response_item" where
  "strip_for input_modalities = (if ImageModality \<in> set input_modalities then id else strip_item)"

lemma strip_for_simps [simp]:
  "output_of (strip_for m i) = output_of i" "call_of (strip_for m i) = call_of i" "from_server (strip_for m i) = from_server i"
  "strip_for m (strip_for m i) = strip_for m i"
  by (simp_all add: strip_for_def)

lemma strip_images_eq: "strip_images_when_unsupported m items = map (strip_for m) items"
  by (simp add: strip_images_when_unsupported_def strip_for_def)

lemma image_free_strip_item: "image_free (strip_item i)"
proof -
  have c: "list_all (\<lambda>c. case c of InputImage _ _ \<Rightarrow> False | _ \<Rightarrow> True) (map strip_content cs)" for cs
    by (induction cs) (auto split: content_item.splits elim: strip_content.elims)
  have "List.map_filter (\<lambda>c. case c of FInputImage u d \<Rightarrow> Some (u, d) | _ \<Rightarrow> None) (map strip_output_content cs) = []" for cs
  proof (induction cs)
    case (Cons c cs)
    then show ?case by (cases c) simp_all
  qed simp
  then have "output_images (strip_payload p) = []" for p
    by (cases "payload_body p") (simp_all add: output_images_def strip_payload_def)
  with c show ?thesis by (cases i) (simp_all add: image_free_def strip_item_def)
qed

lemma for_prompt_eq: "for_prompt m cm = Some (map (strip_for m) (normalize_pairs (cm_items cm)))"
  by (simp add: for_prompt_def normalize_history_def ensure_call_outputs_present_eq normalize_pairs_def strip_images_eq)

lemma filter_map_strip:
  "(\<And>i. P (strip_for m i) = P i) \<Longrightarrow> filter P (map (strip_for m) xs) = map (strip_for m) (filter P xs)"
  by (simp add: filter_map comp_def)

text \<open>
  C10: The history sent to the model is always produced; in it every call has an output and every output
  not made by the server has a call. Everything that is not an output is there in its order, and so is
  every output that answers a call; without image support no image is left; and preparing the result
  again changes nothing.
\<close>

theorem for_prompt_pairs_calls:
  "\<exists>out. for_prompt modalities cm = Some out \<and> paired_up out \<and>
     filter (\<lambda>i. output_of i = None) out = map (strip_for modalities) (filter (\<lambda>i. output_of i = None) (cm_items cm)) \<and>
     filter (answered (cm_items cm)) out = map (strip_for modalities) (filter (answered (cm_items cm)) (cm_items cm)) \<and>
     (ImageModality \<in> set modalities \<or> list_all image_free out) \<and>
     for_prompt modalities (cm\<lparr>cm_items := out\<rparr>) = Some out"
proof -
  let ?out = "map (strip_for modalities) (normalize_pairs (cm_items cm))"
  have keys: "calls ?out = calls (normalize_pairs (cm_items cm))" "outputs ?out = outputs (normalize_pairs (cm_items cm))"
    by (simp_all add: strip_for_def)
  have paired: "paired_up ?out" using normalize_pairs_paired [of "cm_items cm"] by (simp add: strip_for_def)
  then have again: "for_prompt modalities (cm\<lparr>cm_items := ?out\<rparr>) = Some ?out"
    by (simp add: for_prompt_eq normalize_pairs_id comp_def)
  have "ImageModality \<in> set modalities \<or> list_all image_free ?out"
    using image_free_strip_item by (simp add: strip_for_def list_all_iff)
  moreover have "filter (\<lambda>i. output_of i = None) ?out = map (strip_for modalities) (filter (\<lambda>i. output_of i = None) (cm_items cm))"
    using filter_map_strip [of "\<lambda>i. output_of i = None" modalities] by (simp add: normalize_pairs_keeps_others)
  moreover have "filter (answered (cm_items cm)) ?out = map (strip_for modalities) (filter (answered (cm_items cm)) (cm_items cm))"
    using filter_map_strip [of "answered (cm_items cm)" modalities] by (simp add: answered_def normalize_pairs_keeps_outputs)
  ultimately show ?thesis using for_prompt_eq [of modalities cm] paired again by blast
qed

section \<open>Removing the oldest or newest item\<close>

text \<open>
  C22: Removing the oldest or the newest item takes its counterpart with it, if it has one, and nothing
  else, so a history in which calls and outputs correspond one to one stays such a history.
\<close>

theorem removal_keeps_pairing:
  assumes "paired_once (cm_items cm)" "cm_items cm \<noteq> []"
  shows "paired_once (cm_items (remove_first_item cm)) \<and>
    pair_removed (hd (cm_items cm)) (tl (cm_items cm)) (cm_items (remove_first_item cm)) \<and>
    paired_once (cm_items (fst (remove_last_item cm))) \<and>
    pair_removed (last (cm_items cm)) (butlast (cm_items cm)) (cm_items (fst (remove_last_item cm)))"
proof -
  obtain x xs where first: "cm_items cm = x # xs" using assms(2) by (cases "cm_items cm") auto
  obtain ys y where final: "cm_items cm = ys @ [y]" using assms(2) by (cases "cm_items cm" rule: rev_cases) auto
  have "paired_once (x # xs)" "paired_once (y # ys)" using assms(1) first final by (auto simp: paired_once_rotate [symmetric])
  note removed = this [THEN remove_corresponding_paired] this [THEN remove_corresponding_pair]
  have "cm_items (remove_first_item cm) = remove_corresponding_for xs x" "hd (cm_items cm) = x" "tl (cm_items cm) = xs"
    by (simp_all add: remove_first_item_def first)
  moreover have "cm_items (fst (remove_last_item cm)) = remove_corresponding_for ys y" "last (cm_items cm) = y" "butlast (cm_items cm) = ys"
    by (simp_all add: remove_last_item_def final)
  ultimately show ?thesis using removed by simp
qed

definition sample_call :: response_item where
  "sample_call = FunctionCall None (lit ''shell'') None (lit ''{}'') (lit ''c1'')"

definition sample_history :: "unit context_manager" where
  "sample_history = \<lparr>cm_items = [sample_call, FunctionCallOutput (lit ''c1'') (from_text (lit ''ok''))],
     history_version = 0, token_info = None, reference_context_item = None\<rparr>"

theorem removal_keeps_pairing_witness:
  "paired_once (cm_items (remove_first_item sample_history)) \<and> cm_items (remove_first_item sample_history) = []"
proof -
  have "paired_once (cm_items sample_history)" "cm_items sample_history \<noteq> []"
    by (simp_all add: sample_history_def sample_call_def paired_once_def calls_def outputs_def call_of_def output_of_def)
  from removal_keeps_pairing [OF this] show ?thesis
    by (simp add: sample_history_def sample_call_def remove_first_item_def remove_corresponding_for_def is_function_output_def)
qed

text \<open>Removing the newest item bumps the version of the history, removing the oldest does not.\<close>

lemma removal_versions:
  "history_version (remove_first_item sample_history) = 0 \<and> history_version (fst (remove_last_item sample_history)) = 1"
  by (simp add: sample_history_def remove_first_item_def remove_last_item_def last_opt_def u64_bump_def usat_add_def usize_max_def)

section \<open>Rolling back turns\<close>

definition trimmable :: "history_env \<Rightarrow> response_item \<Rightarrow> bool" where
  "trimmable env item =
     (case item of
        Message _ role content _ \<Rightarrow>
          role = lit ''developer'' \<and> is_contextual_dev_message_content content \<or>
          role = lit ''user'' \<and> is_contextual_user_message_content (hook_xml env) content
      | _ \<Rightarrow> False)"

definition mixed_bundle :: "response_item \<Rightarrow> bool" where
  "mixed_bundle item =
     (case item of
        Message _ role content _ \<Rightarrow>
          role = lit ''developer'' \<and> is_contextual_dev_message_content content \<and> has_non_contextual_dev_message_content content
      | _ \<Rightarrow> False)"

definition turns :: "history_env \<Rightarrow> response_item list \<Rightarrow> nat" where
  "turns env items = length (filter (is_user_turn_boundary env) items)"

definition before_turns :: "history_env \<Rightarrow> response_item list \<Rightarrow> response_item list" where
  "before_turns env items = takeWhile (\<lambda>i. \<not> is_user_turn_boundary env i) items"

lemma trimmable_no_turn: "trimmable env i \<Longrightarrow> \<not> is_user_turn_boundary env i"
  by (auto simp: trimmable_def is_user_turn_boundary_def split: response_item.splits)

lemma turns_append [simp]: "turns env (xs @ ys) = turns env xs + turns env ys"
  by (simp add: turns_def)

lemma turns_trimmable: "list_all (trimmable env) xs \<Longrightarrow> turns env xs = 0"
  using trimmable_no_turn by (fastforce simp: turns_def list_all_iff filter_empty_conv)

lemma positions_snoc:
  "user_message_positions env [] = []"
  "user_message_positions env (xs @ [x]) =
     user_message_positions env xs @ (if is_user_turn_boundary env x then [length xs] else [])"
  by (simp_all add: user_message_positions_def enumerate_append_eq List.map_filter_def)

lemma length_positions: "length (user_message_positions env items) = turns env items"
  by (induction items rule: rev_induct) (simp_all add: positions_snoc turns_def)

lemma positions_nth:
  "j < turns env items \<Longrightarrow>
   (\<exists>a x b. items = a @ x # b \<and> length a = user_message_positions env items ! j \<and> is_user_turn_boundary env x \<and> turns env a = j)"
proof (induction items rule: rev_induct)
  case (snoc y ys)
  show ?case
  proof (cases "j < turns env ys")
    case True
    then obtain a x b where ax: "ys = a @ x # b" "length a = user_message_positions env ys ! j" "is_user_turn_boundary env x" "turns env a = j"
      using snoc.IH by blast
    have "user_message_positions env (ys @ [y]) ! j = user_message_positions env ys ! j"
      using True by (simp add: positions_snoc nth_append length_positions)
    moreover have "ys @ [y] = a @ x # (b @ [y])" using ax(1) by simp
    ultimately show ?thesis using ax(2-4) by metis
  next
    case False
    then have y: "is_user_turn_boundary env y" "j = turns env ys" using snoc.prems by (auto simp: turns_def split: if_splits)
    then have "user_message_positions env (ys @ [y]) ! j = length ys" by (simp add: positions_snoc nth_append length_positions)
    then show ?thesis using y by metis
  qed
qed (simp add: turns_def)

lemma before_turns_split: "turns env a = 0 \<Longrightarrow> is_user_turn_boundary env x \<Longrightarrow> before_turns env (a @ x # b) = a"
  by (auto simp: before_turns_def turns_def filter_empty_conv takeWhile_append)

lemma before_turns_none: "turns env items = 0 \<Longrightarrow> before_turns env items = items"
  by (auto simp: before_turns_def turns_def filter_empty_conv takeWhile_eq_all_conv)

text \<open>The trim walk cuts off the longest run of context updates that ends at the cut.\<close>

lemma trim_walk:
  "\<exists>kept mid. seg = kept @ mid \<and> list_all (trimmable env) mid \<and> takeWhile (trimmable env) (rev kept) = [] \<and>
     trim_pre_turn_context_updates env (head @ seg @ tail) (length head) (length head + length seg) cm =
       Some (if list_ex mixed_bundle mid then cm\<lparr>reference_context_item := None\<rparr> else cm, length head + length kept)"
proof (induction seg arbitrary: tail cm rule: rev_induct)
  case Nil
  show ?case by (simp add: trim_pre_turn_context_updates.simps)
next
  case (snoc x seg)
  let ?cm = "if mixed_bundle x then cm\<lparr>reference_context_item := None\<rparr> else cm"
  have step: "trim_pre_turn_context_updates env (head @ (seg @ [x]) @ tail) (length head) (length head + length (seg @ [x])) cm =
      (if trimmable env x
       then trim_pre_turn_context_updates env (head @ seg @ x # tail) (length head) (length head + length seg) ?cm
       else Some (cm, length head + length (seg @ [x])))"
    by (subst trim_pre_turn_context_updates.simps)
      (auto simp: nth_append trimmable_def mixed_bundle_def split: response_item.splits)
  show ?case
  proof (cases "trimmable env x")
    case True
    obtain kept mid where km: "seg = kept @ mid" "list_all (trimmable env) mid" "takeWhile (trimmable env) (rev kept) = []"
      "trim_pre_turn_context_updates env (head @ seg @ x # tail) (length head) (length head + length seg) ?cm =
         Some (if list_ex mixed_bundle mid then ?cm\<lparr>reference_context_item := None\<rparr> else ?cm, length head + length kept)"
      using snoc.IH [of "x # tail" ?cm] by blast
    have "seg @ [x] = kept @ (mid @ [x]) \<and> list_all (trimmable env) (mid @ [x]) \<and> takeWhile (trimmable env) (rev kept) = [] \<and>
        (if trimmable env x then trim_pre_turn_context_updates env (head @ seg @ x # tail) (length head) (length head + length seg) ?cm
         else Some (cm, length head + length (seg @ [x]))) =
        Some (if list_ex mixed_bundle (mid @ [x]) then cm\<lparr>reference_context_item := None\<rparr> else cm, length head + length kept)"
      using km(2,3) True by (simp only: km(4)) (simp add: km(1))
    then show ?thesis unfolding step by blast
  next
    case False
    then have "seg @ [x] = (seg @ [x]) @ [] \<and> list_all (trimmable env) [] \<and> takeWhile (trimmable env) (rev (seg @ [x])) = [] \<and>
        (if trimmable env x then trim_pre_turn_context_updates env (head @ seg @ x # tail) (length head) (length head + length seg) ?cm
         else Some (cm, length head + length (seg @ [x]))) =
        Some (if list_ex mixed_bundle [] then cm\<lparr>reference_context_item := None\<rparr> else cm, length head + length (seg @ [x]))" by simp
    then show ?thesis unfolding step by blast
  qed
qed

definition rolled_back ::
  "history_env \<Rightarrow> nat \<Rightarrow> response_item list \<Rightarrow> response_item list \<Rightarrow> response_item list \<Rightarrow> response_item list \<Rightarrow> bool" where
  "rolled_back env n items out mid rest \<longleftrightarrow>
     items = out @ mid @ rest \<and> turns env out = turns env items - n \<and>
     take (length (before_turns env items)) out = before_turns env items \<and>
     list_all (trimmable env) mid \<and> (rest = [] \<or> is_user_turn_boundary env (hd rest)) \<and>
     takeWhile (trimmable env) (rev (drop (length (before_turns env items)) out)) = []"

lemma cut_position:
  fixes env items n
  defines "ps \<equiv> user_message_positions env items"
  assumes "turns env items \<noteq> 0"
  obtains a seg x b where "items = a @ seg @ x # b" "before_turns env items = a" "is_user_turn_boundary env x"
    "turns env (a @ seg) = turns env items - Suc n" "ps ! 0 = length a"
    "(if length ps \<le> Suc n then ps ! 0 else ps ! (length ps - Suc n)) = length a + length seg"
proof -
  define j where "j = turns env items - Suc n"
  have j: "j < turns env items" using assms(2) by (simp add: j_def)
  obtain c x b where cut: "items = c @ x # b" "length c = ps ! j" "is_user_turn_boundary env x" "turns env c = j"
    using positions_nth [OF j] by (auto simp: ps_def)
  obtain a y d where first: "items = a @ y # d" "length a = ps ! 0" "is_user_turn_boundary env y" "turns env a = 0"
    using positions_nth [of 0 env items] assms(2) by (auto simp: ps_def)
  have "length a \<le> length c"
  proof (rule ccontr)
    assume "\<not> length a \<le> length c"
    then obtain e where "a = c @ x # e" using cut(1) first(1) by (auto simp: append_eq_append_conv2 append_eq_Cons_conv)
    then show False using first(4) cut(3) by (simp add: turns_def)
  qed
  then obtain seg where seg: "c = a @ seg" using cut(1) first(1) by (auto simp: append_eq_append_conv2 append_eq_Cons_conv)
  have "(if length ps \<le> Suc n then ps ! 0 else ps ! (length ps - Suc n)) = ps ! j"
    by (simp add: j_def ps_def length_positions)
  then have "(if length ps \<le> Suc n then ps ! 0 else ps ! (length ps - Suc n)) = length a + length seg"
    using cut(2) seg by simp
  moreover have "before_turns env items = a" using before_turns_split [OF first(4,3)] first(1) by simp
  moreover have "items = a @ seg @ x # b" "turns env (a @ seg) = turns env items - Suc n" using cut(1,4) seg by (auto simp: j_def)
  ultimately show thesis using that cut(3) first(2) by metis
qed

lemma drop_last_n_trim:
  "user_message_positions env (cm_items cm) \<noteq> [] \<Longrightarrow>
   drop_last_n_user_turns env (Suc n) cm =
     (let ps = user_message_positions env (cm_items cm)
      in map_option (\<lambda>(cm', cut). replace_items (take cut (cm_items cm)) cm')
           (trim_pre_turn_context_updates env (cm_items cm) (ps ! 0)
             (if length ps \<le> Suc n then ps ! 0 else ps ! (length ps - Suc n)) cm))"
  by (cases "user_message_positions env (cm_items cm)") (simp_all add: drop_last_n_user_turns_def Let_def)

lemma replace_items_reference:
  "replace_items items (if b then cm\<lparr>reference_context_item := None\<rparr> else cm) =
   cm\<lparr>cm_items := items, history_version := u64_bump (history_version cm),
     reference_context_item := (if b then None else reference_context_item cm)\<rparr>"
  by (simp add: replace_items_def)

lemma drop_last_n_rolled_back:
  "\<exists>out mid rest. rolled_back env (Suc n) (cm_items cm) out mid rest \<and>
     drop_last_n_user_turns env (Suc n) cm =
       Some (cm\<lparr>cm_items := out, history_version := u64_bump (history_version cm),
         reference_context_item := (if list_ex mixed_bundle mid then None else reference_context_item cm)\<rparr>)"
proof (cases "turns env (cm_items cm) = 0")
  case True
  then have "drop_last_n_user_turns env (Suc n) cm = Some (replace_items (cm_items cm) cm)"
    using length_positions [of env "cm_items cm"] by (simp add: drop_last_n_user_turns_def)
  moreover have "rolled_back env (Suc n) (cm_items cm) (cm_items cm) [] []"
    using True by (simp add: rolled_back_def before_turns_none)
  ultimately show ?thesis using replace_items_reference [of "cm_items cm" "list_ex mixed_bundle []" cm] by force
next
  case False
  then obtain a seg x b where cut: "cm_items cm = a @ seg @ x # b" "before_turns env (cm_items cm) = a" "is_user_turn_boundary env x"
    "turns env (a @ seg) = turns env (cm_items cm) - Suc n" "user_message_positions env (cm_items cm) ! 0 = length a"
    "(let ps = user_message_positions env (cm_items cm)
      in if length ps \<le> Suc n then ps ! 0 else ps ! (length ps - Suc n)) = length a + length seg"
    using cut_position [of env "cm_items cm" n] unfolding Let_def by metis
  obtain kept mid where km: "seg = kept @ mid" "list_all (trimmable env) mid" "takeWhile (trimmable env) (rev kept) = []"
    "trim_pre_turn_context_updates env (a @ seg @ x # b) (length a) (length a + length seg) cm =
       Some (if list_ex mixed_bundle mid then cm\<lparr>reference_context_item := None\<rparr> else cm, length a + length kept)"
    using trim_walk by blast
  have "user_message_positions env (cm_items cm) \<noteq> []" using False length_positions [of env "cm_items cm"] by auto
  from drop_last_n_trim [OF this, of n] have "drop_last_n_user_turns env (Suc n) cm =
      Some (replace_items (a @ kept) (if list_ex mixed_bundle mid then cm\<lparr>reference_context_item := None\<rparr> else cm))"
    using cut(5,6) km(4) unfolding Let_def by (simp add: cut(1) km(1))
  moreover have "rolled_back env (Suc n) (cm_items cm) (a @ kept) mid (x # b)"
    using km(2,3) cut(3,4) turns_trimmable [OF km(2)] unfolding rolled_back_def cut(2) by (simp add: cut(1) km(1))
  ultimately show ?thesis unfolding replace_items_reference by blast
qed

lemma rolled_back_no_turns: "rolled_back env n items out mid rest \<Longrightarrow> turns env items = 0 \<Longrightarrow> out = items \<and> mid = []"
  using before_turns_none [of env items] by (auto simp: rolled_back_def)

text \<open>
  C11: Rolling back n > 0 turns always returns. The kept items are a prefix of the history with exactly n
  turns fewer (none if there were at most n); all items before the first turn survive; what is dropped is
  the turns themselves and the run of injected context updates right before them, completely. A history
  without turns keeps its items and its baseline. Otherwise the stored baseline is forgotten exactly when
  a dropped update was mixed with lasting developer text, and the version of the history is bumped.
\<close>

theorem drop_last_n_user_turns_correct:
  "\<exists>cm' mid rest. drop_last_n_user_turns env (Suc n) cm = Some cm' \<and>
     rolled_back env (Suc n) (cm_items cm) (cm_items cm') mid rest \<and> token_info cm' = token_info cm \<and>
     (if turns env (cm_items cm) = 0
      then cm_items cm' = cm_items cm \<and> reference_context_item cm' = reference_context_item cm
      else history_version cm' = u64_bump (history_version cm) \<and>
        reference_context_item cm' = (if list_ex mixed_bundle mid then None else reference_context_item cm))"
proof -
  obtain out mid rest where o: "rolled_back env (Suc n) (cm_items cm) out mid rest"
    "drop_last_n_user_turns env (Suc n) cm =
       Some (cm\<lparr>cm_items := out, history_version := u64_bump (history_version cm),
         reference_context_item := (if list_ex mixed_bundle mid then None else reference_context_item cm)\<rparr>)"
    using drop_last_n_rolled_back by blast
  define cm' where "cm' = cm\<lparr>cm_items := out, history_version := u64_bump (history_version cm),
    reference_context_item := (if list_ex mixed_bundle mid then None else reference_context_item cm)\<rparr>"
  have "cm_items cm' = out" "token_info cm' = token_info cm" "history_version cm' = u64_bump (history_version cm)"
    "reference_context_item cm' = (if list_ex mixed_bundle mid then None else reference_context_item cm)"
    by (simp_all add: cm'_def)
  moreover have "turns env (cm_items cm) = 0 \<Longrightarrow> out = cm_items cm \<and> mid = []" by (rule rolled_back_no_turns [OF o(1)])
  ultimately have "drop_last_n_user_turns env (Suc n) cm = Some cm' \<and>
      rolled_back env (Suc n) (cm_items cm) (cm_items cm') mid rest \<and> token_info cm' = token_info cm \<and>
      (if turns env (cm_items cm) = 0
       then cm_items cm' = cm_items cm \<and> reference_context_item cm' = reference_context_item cm
       else history_version cm' = u64_bump (history_version cm) \<and>
         reference_context_item cm' = (if list_ex mixed_bundle mid then None else reference_context_item cm))"
    using o(1) o(2) [folded cm'_def] by auto
  then show ?thesis by blast
qed

text \<open>A rollback of a history without turns changes its version, although it changes nothing else.\<close>

lemma rollback_without_turns_bumps_version:
  "map_option history_version (drop_last_n_user_turns env 1 (new_context_manager :: unit context_manager)) = Some 1"
  by (simp add: drop_last_n_user_turns_def new_context_manager_def user_message_positions_def replace_items_def u64_bump_def usat_add_def
      usize_max_def List.map_filter_def)

text \<open>The items that remain do not depend on the rest of the state.\<close>

lemma trim_cut_independent:
  "map_option snd (trim_pre_turn_context_updates env snapshot first cut_idx cm) =
   map_option snd (trim_pre_turn_context_updates env snapshot first cut_idx cm')"
proof (induction cut_idx arbitrary: cm cm')
  case 0
  then show ?case by (simp add: trim_pre_turn_context_updates.simps)
next
  case (Suc cut_idx)
  show ?case
    unfolding trim_pre_turn_context_updates.simps [of env snapshot first "Suc cut_idx"]
    using Suc by (auto split: response_item.splits)
qed

lemma drop_last_n_items:
  "map_option cm_items (drop_last_n_user_turns env (Suc n) cm) =
   (let items = cm_items cm; ps = user_message_positions env items
    in if ps = [] then Some items
       else map_option (\<lambda>c. take c items)
         (map_option snd (trim_pre_turn_context_updates env items (ps ! 0)
           (if length ps \<le> Suc n then ps ! 0 else ps ! (length ps - Suc n)) cm)))"
proof (cases "user_message_positions env (cm_items cm)")
  case Nil
  then show ?thesis by (simp add: drop_last_n_user_turns_def replace_items_def)
next
  case (Cons p ps)
  then show ?thesis
    using drop_last_n_trim [of env cm n] by (simp add: Let_def option.map_comp comp_def replace_items_def split_beta)
qed

definition items_after_drop :: "history_env \<Rightarrow> nat \<Rightarrow> response_item list \<Rightarrow> response_item list" where
  "items_after_drop env n items =
     cm_items (the (drop_last_n_user_turns env n (\<lparr>cm_items = items, history_version = 0, token_info = None, reference_context_item = None\<rparr> :: unit context_manager)))"

lemma items_after_drop_eq:
  "\<exists>cm'. drop_last_n_user_turns env n cm = Some cm' \<and> cm_items cm' = items_after_drop env n (cm_items cm)"
proof (cases n)
  case 0
  then show ?thesis by (simp add: drop_last_n_user_turns_def items_after_drop_def)
next
  case (Suc m)
  let ?k = "\<lparr>cm_items = cm_items cm, history_version = 0, token_info = None, reference_context_item = None\<rparr> :: unit context_manager"
  obtain out where out: "drop_last_n_user_turns env n cm = Some out" using drop_last_n_rolled_back [of env m cm] Suc by auto
  have "map_option cm_items (drop_last_n_user_turns env n cm) = map_option cm_items (drop_last_n_user_turns env n ?k)"
    unfolding Suc drop_last_n_items using trim_cut_independent [of env "cm_items cm" _ _ cm ?k] by (simp add: Let_def)
  then show ?thesis using out by (cases "drop_last_n_user_turns env n ?k") (simp_all add: items_after_drop_def)
qed

lemma items_after_drop_turns:
  "items_after_drop env n items = items \<or>
   (\<exists>mid rest. rolled_back env n items (items_after_drop env n items) mid rest)"
proof (cases n)
  case 0
  then show ?thesis by (simp add: items_after_drop_def drop_last_n_user_turns_def)
next
  case (Suc m)
  let ?k = "\<lparr>cm_items = items, history_version = 0, token_info = None, reference_context_item = None\<rparr> :: unit context_manager"
  show ?thesis using drop_last_n_rolled_back [of env m ?k] by (auto simp: Suc items_after_drop_def)
qed

section \<open>Injected context\<close>

lemma before_boundary_unique:
  "a @ x # b = a' @ x' # b' \<Longrightarrow> P x \<Longrightarrow> P x' \<Longrightarrow> length (filter P a) = length (filter P a') \<Longrightarrow> a = a'"
proof (induction a arbitrary: a')
  case Nil
  then show ?case by (cases a') auto
next
  case (Cons y a)
  then show ?case by (cases a') (auto split: if_splits)
qed

lemma dropWhile_rev_end:
  assumes "list_all P mid" "takeWhile P (rev (drop k out)) = []" "k < length out"
  shows "dropWhile P (rev (out @ mid)) = rev out"
proof -
  obtain ys y where out: "out = ys @ [y]" using assms(3) by (cases out rule: rev_cases) auto
  then have "\<not> P y" using assms(2,3) by (auto split: if_splits)
  moreover have "dropWhile P (rev mid @ rev out) = dropWhile P (rev out)"
    using assms(1) by (intro dropWhile_append2) (simp add: list_all_iff)
  ultimately show ?thesis by (simp add: out)
qed

text \<open>Dropping a turn takes the context updates before it along, if an earlier turn remains.\<close>

lemma rolled_back_context:
  assumes "rolled_back env (Suc (turns env rest)) (h @ ctx @ t # rest) out mid rest'"
    and "list_all (trimmable env) ctx" "is_user_turn_boundary env t" "turns env h \<noteq> 0"
  shows "out = rev (dropWhile (trimmable env) (rev h))"
proof -
  let ?items = "h @ ctx @ t # rest"
  have r: "?items = out @ mid @ rest'" "turns env out = turns env ?items - Suc (turns env rest)" "list_all (trimmable env) mid"
    "rest' = [] \<or> is_user_turn_boundary env (hd rest')" "take (length (before_turns env ?items)) out = before_turns env ?items"
    "takeWhile (trimmable env) (rev (drop (length (before_turns env ?items)) out)) = []"
    using assms(1) unfolding rolled_back_def by blast+
  have t1: "turns env (t # rest) = Suc (turns env rest)" using assms(3) by (simp add: turns_def)
  have to: "turns env out = turns env h" using r(2) turns_trimmable [OF assms(2)] by (simp add: t1)
  have "turns env (h @ ctx @ t # rest) = turns env (out @ mid @ rest')" by (simp only: r(1))
  then have "turns env rest' = Suc (turns env rest)" using to turns_trimmable [OF assms(2)] turns_trimmable [OF r(3)] t1 by simp
  then obtain y ys where rest': "rest' = y # ys" "is_user_turn_boundary env y" using r(4) by (cases rest') (auto simp: turns_def)
  have "(h @ ctx) @ t # rest = (out @ mid) @ y # ys" using r(1) rest'(1) by simp
  moreover have "turns env (h @ ctx) = turns env (out @ mid)"
    using to turns_trimmable [OF assms(2)] turns_trimmable [OF r(3)] by simp
  ultimately have eq: "h @ ctx = out @ mid"
    using before_boundary_unique [of "h @ ctx" t rest "out @ mid" y ys "is_user_turn_boundary env"] assms(3) rest'(2)
    by (simp add: turns_def del: filter_append)
  have "length (before_turns env ?items) < length out"
  proof (rule ccontr)
    assume "\<not> ?thesis"
    then have "out = before_turns env ?items" using r(5) by simp
    then have "turns env out = 0" by (auto simp: before_turns_def turns_def filter_empty_conv dest: set_takeWhileD)
    then show False using to assms(4) by simp
  qed
  from dropWhile_rev_end [OF r(3,6) this] have "rev out = dropWhile (trimmable env) (rev (h @ ctx))" by (simp add: eq)
  also have "\<dots> = dropWhile (trimmable env) (rev h)" using assms(2) dropWhile_append2 [of "rev ctx" "trimmable env" "rev h"] by (simp add: list_all_iff)
  finally show ?thesis by (simp add: rev_swap)
qed

lemma drop_context_with_turn:
  assumes "list_all (trimmable env) ctx" "is_user_turn_boundary env t" "turns env h \<noteq> 0"
  shows "map_option cm_items (drop_last_n_user_turns env (Suc (turns env rest)) (cm\<lparr>cm_items := h @ ctx @ t # rest\<rparr>)) =
    Some (rev (dropWhile (trimmable env) (rev h)))"
  using drop_last_n_rolled_back [of env "turns env rest" "cm\<lparr>cm_items := h @ ctx @ t # rest\<rparr>"] rolled_back_context [OF _ assms]
  by auto

text \<open>
  C23: A message the program injects (instructions, environment, additional context, skill, shell command,
  interruption, notification, plan or goal) is recognised when it is read back, provided that the key of
  additional context contains no \<^verbatim>\<open>>\<close>. It is no turn of the user and moves no turn; and when the turn it
  was injected for and everything after are rolled back, and an earlier turn remains, the history is
  left as if the message had never been there.
\<close>

theorem injected_context_is_no_turn:
  assumes "readable_key f" "fragment_into f = Some item" "is_user_turn_boundary env t" "turns env h \<noteq> 0"
  shows "\<not> is_user_turn_boundary env item \<and>
    user_message_positions env (items @ [item]) = user_message_positions env items \<and>
    (\<exists>out. out = take (length out) h \<and>
      map_option cm_items (drop_last_n_user_turns env (Suc (turns env rest)) (cm\<lparr>cm_items := h @ item # t # rest\<rparr>)) = Some out \<and>
      map_option cm_items (drop_last_n_user_turns env (Suc (turns env rest)) (cm\<lparr>cm_items := h @ t # rest\<rparr>)) = Some out)"
proof -
  obtain s where item: "item = Message None (lit ''user'') [InputText s] None" and s: "render_fragment f = Some s"
    using assms(2) by (auto simp: fragment_into_def)
  have trim: "trimmable env item"
    using render_fragment_contextual [OF assms(1) s] by (simp add: item trimmable_def)
  have "h = rev (dropWhile (trimmable env) (rev h)) @ rev (takeWhile (trimmable env) (rev h))"
    by (simp flip: rev_append)
  then have "rev (dropWhile (trimmable env) (rev h)) = take (length (rev (dropWhile (trimmable env) (rev h)))) h"
    by (metis append_eq_conv_conj)
  moreover have "map_option cm_items (drop_last_n_user_turns env (Suc (turns env rest)) (cm\<lparr>cm_items := h @ item # t # rest\<rparr>)) =
      Some (rev (dropWhile (trimmable env) (rev h)))"
    using drop_context_with_turn [of env "[item]" t h rest cm] trim assms(3,4) by simp
  moreover have "map_option cm_items (drop_last_n_user_turns env (Suc (turns env rest)) (cm\<lparr>cm_items := h @ t # rest\<rparr>)) =
      Some (rev (dropWhile (trimmable env) (rev h)))"
    using drop_context_with_turn [of env "[]" t h rest cm] assms(3,4) by simp
  moreover have "\<not> is_user_turn_boundary env item" "user_message_positions env (items @ [item]) = user_message_positions env items"
    using trim trimmable_no_turn [of env item] by (simp_all add: positions_snoc)
  ultimately show ?thesis by blast
qed

definition sample_env :: history_env where
  "sample_env = \<lparr>hook_xml = \<lambda>_. None, inter_agent_json = \<lambda>_. Some True, serialized_len = \<lambda>_. None, image_size = \<lambda>_. None\<rparr>"

definition sample_turn :: response_item where
  "sample_turn = Message None (lit ''assistant'') [OutputText (lit ''go'')] None"

theorem injected_context_is_no_turn_witness:
  "\<exists>item out. fragment_into (AdditionalContextUserFragment (lit ''k'') (lit ''v'')) = Some item \<and>
     out = take (length out) [sample_call, sample_turn] \<and>
     map_option cm_items (drop_last_n_user_turns sample_env (Suc (turns sample_env []))
       ((new_context_manager :: unit context_manager)\<lparr>cm_items := [sample_call, sample_turn] @ item # sample_turn # []\<rparr>)) = Some out"
proof -
  let ?f = "AdditionalContextUserFragment (lit ''k'') (lit ''v'')"
  have "readable_key ?f" by (simp add: readable_key_def rust_eval)
  moreover obtain item where item: "fragment_into ?f = Some item"
    by (simp add: fragment_into_def render_fragment_def marker_defs additional_context_body_def truncate_middle_with_token_budget_def
        MAX_ADDITIONAL_CONTEXT_VALUE_TOKENS_def approx_bytes_for_tokens_def usat_mul_def usize_max_def APPROX_BYTES_PER_TOKEN_def len_utf8_def rust_eval)
  moreover have turn: "is_user_turn_boundary sample_env sample_turn"
    by (auto simp: is_user_turn_boundary_def sample_turn_def sample_env_def is_message_content_def from_message_content_def)
  moreover have "turns sample_env [sample_call, sample_turn] \<noteq> 0" using turn by (simp add: turns_def)
  ultimately show ?thesis
    using injected_context_is_no_turn [of ?f item sample_env sample_turn "[sample_call, sample_turn]" "[]" "[]" new_context_manager] by blast
qed

text \<open>
  A key of additional context that contains \<^verbatim>\<open>>\<close> is not read back: the message counts as a turn of the user.
\<close>

lemma unreadable_key_is_a_turn:
  "\<exists>item. fragment_into (AdditionalContextUserFragment (lit ''a>b'') (lit ''v'')) = Some item \<and>
     is_user_turn_boundary \<lparr>hook_xml = \<lambda>_. None, inter_agent_json = \<lambda>_. None, serialized_len = \<lambda>_. None, image_size = \<lambda>_. None\<rparr> item"
proof -
  have "render_fragment (AdditionalContextUserFragment (lit ''a>b'') (lit ''v'')) = Some (lit ''<external_a>b>v</external_a>b>'')"
    by (simp add: render_fragment_def marker_defs additional_context_body_def truncate_middle_with_token_budget_def
        MAX_ADDITIONAL_CONTEXT_VALUE_TOKENS_def approx_bytes_for_tokens_def usat_mul_def usize_max_def APPROX_BYTES_PER_TOKEN_def len_utf8_def rust_eval)
  moreover have "\<not> is_standard_contextual_user_text (lit ''<external_a>b>v</external_a>b>'')"
    by (simp add: is_standard_contextual_user_text_def CONTEXTUAL_USER_FRAGMENTS_def matches_text_def legacy_defs marker_defs matches_marked_text_def
        additional_context_matches_def get_to_def get_from_def is_some_and_def eq_ignore_ascii_case_def to_ascii_lower_def len_utf8_def
        trim_defs is_whitespace_def starts_with_def ends_with_def strip_prefix_def split_once_def rust_eval)
  ultimately show ?thesis
    by (simp add: fragment_into_def is_user_turn_boundary_def is_contextual_user_message_content_def is_contextual_user_fragment_def
        parse_hook_prompt_fragment_def)
qed

section \<open>Recording\<close>

lemma process_item_keys:
  "process_item item policy = Some processed \<Longrightarrow> call_of processed = call_of item \<and> output_of processed = output_of item"
  by (cases item) (auto simp: process_item_def call_of_def output_of_def Let_def)

text \<open>Recording appends the API messages, shortened where they are tool outputs, and keeps every call id.\<close>

lemma record_items_appends:
  "record_items items policy cm = Some cm' \<Longrightarrow>
   \<exists>new. cm' = cm\<lparr>cm_items := cm_items cm @ new\<rparr> \<and> map (\<lambda>i. process_item i policy) (filter is_api_message items) = map Some new"
proof (induction items policy cm rule: record_items.induct)
  case (2 item rest policy cm)
  show ?case
  proof (cases "is_api_message item")
    case True
    then obtain processed where p: "process_item item policy = Some processed" using "2.prems" by (auto split: option.splits)
    with True "2.prems" obtain new where "cm' = cm\<lparr>cm_items := cm_items cm @ processed # new\<rparr>"
      "map (\<lambda>i. process_item i policy) (filter is_api_message rest) = map Some new"
      using "2.IH"(2) [of processed] by auto
    then show ?thesis using True p by (intro exI [of _ "processed # new"]) simp
  next
    case False
    then show ?thesis using 2 by simp
  qed
qed simp

lemma process_item_total: "\<exists>processed. process_item item policy = Some processed"
proof -
  have "\<exists>p'. truncate_function_output_payload p q = Some p'" for p q
  proof (cases "payload_body p")
    case (TextBody s)
    then show ?thesis using truncate_text_total [of s q] by (auto simp: truncate_function_output_payload_def)
  next
    case (ContentItems items)
    then show ?thesis using truncate_items_total [of items q] by (auto simp: truncate_function_output_payload_def)
  qed
  then show ?thesis by (cases item) (auto simp: process_item_def Let_def)
qed

definition recorded :: "truncation_policy \<Rightarrow> response_item list \<Rightarrow> response_item list" where
  "recorded policy items = map (\<lambda>i. the (process_item i policy)) (filter is_api_message items)"

lemma record_items_eq: "record_items items policy cm = Some (cm\<lparr>cm_items := cm_items cm @ recorded policy items\<rparr>)"
proof (induction items policy cm rule: record_items.induct)
  case (2 item rest policy cm)
  then show ?case using process_item_total [of item policy] by (auto simp: recorded_def)
qed (simp add: recorded_def)

lemma record_items_keys:
  assumes "record_items items policy cm = Some cm'"
  shows "calls (cm_items cm') = calls (cm_items cm) @ calls (filter is_api_message items) \<and>
    outputs (cm_items cm') = outputs (cm_items cm) @ outputs (filter is_api_message items)"
proof -
  obtain new where new: "cm_items cm' = cm_items cm @ new" "map (\<lambda>i. process_item i policy) (filter is_api_message items) = map Some new"
    using record_items_appends [OF assms] by auto
  have "map (\<lambda>i. process_item i policy) xs = map Some ys \<Longrightarrow> calls ys = calls xs \<and> outputs ys = outputs xs" for xs ys
  proof (induction xs arbitrary: ys)
    case (Cons x xs)
    then obtain y ys' where "ys = y # ys'" "process_item x policy = Some y" by auto
    then show ?case using Cons process_item_keys [of x policy y] by (auto simp: keys_Cons split: option.splits)
  qed (simp add: calls_def outputs_def)
  from this [OF new(2)] show ?thesis
    by (simp add: new(1) calls_def outputs_def List.map_filter_def)
qed

section \<open>Token accounting\<close>

lemma i64_wrap_add_left: "i64_wrap (i64_wrap a + b) = i64_wrap (a + b)"
proof -
  have "i64_wrap a + b + 2 ^ 63 = (a + 2 ^ 63) mod 2 ^ 64 + b" by (simp add: i64_wrap_def)
  also have "\<dots> mod 2 ^ 64 = (a + 2 ^ 63 + b) mod 2 ^ 64" by (rule mod_add_left_eq)
  also have "a + 2 ^ 63 + b = a + b + 2 ^ 63" by simp
  finally show ?thesis unfolding i64_wrap_def [of "i64_wrap a + b"] i64_wrap_def [of "a + b"] by simp
qed

text \<open>After a sequence of responses the total is their sum and the last usage is the last one.\<close>

lemma token_info_update [simp]: "token_info (update_token_info u w cm) = new_or_append (token_info cm) (Some u) w"
  by (simp add: update_token_info_def)

lemma new_or_append_step:
  "new_or_append None (Some u) w = Some \<lparr>total_token_usage = add_assign default_usage u, last_token_usage = u, model_context_window = w\<rparr>"
  "new_or_append (Some \<lparr>total_token_usage = t, last_token_usage = l, model_context_window = w\<rparr>) (Some u) w =
     Some \<lparr>total_token_usage = add_assign t u, last_token_usage = u, model_context_window = w\<rparr>"
  by (cases w; simp add: new_or_append_def append_last_usage_def)+

lemma update_token_info_total:
  assumes "token_info cm = None"
  shows "token_info (fold (\<lambda>u. update_token_info u window) (us @ [u]) cm) =
    Some \<lparr>total_token_usage = fold (\<lambda>v t. add_assign t v) (us @ [u]) default_usage, last_token_usage = u, model_context_window = window\<rparr>"
  using assms
proof (induction us arbitrary: u rule: rev_induct)
  case Nil
  then show ?case by (simp add: new_or_append_step)
next
  case (snoc v us)
  from snoc.IH [OF snoc.prems, of v] show ?case by (simp add: new_or_append_step)
qed

lemma fold_add_assign_total:
  "total_tokens (fold (\<lambda>v t. add_assign t v) us t) = (if us = [] then total_tokens t else i64_wrap (total_tokens t + sum_list (map total_tokens us)))"
proof (induction us arbitrary: t)
  case (Cons u us)
  have "total_tokens (add_assign t u) = i64_wrap (total_tokens t + total_tokens u)" by (simp add: add_assign_def)
  then show ?case using Cons [of "add_assign t u"] by (simp add: i64_wrap_add_left add.assoc)
qed simp

end
