(* ===== verification/Compaction.thy ===== *)
theory Compaction
  imports User_Input Context_History
begin

text \<open>
  Replacing a long history by the recent words of the user and a summary (\<^verbatim>\<open>core/src/compact.rs\<close>). The
  text that opens a summary is a parameter; it is an asset of the program. Asking the model for the
  summary is outside.
\<close>

section \<open>Definitions\<close>

definition content_items_to_text :: "content_item list \<Rightarrow> rstr option" where
  "content_items_to_text content =
     (let pieces = List.map_filter (\<lambda>c. case c of
          InputText s \<Rightarrow> if s \<noteq> [] then Some s else None
        | OutputText s \<Rightarrow> if s \<noteq> [] then Some s else None
        | InputImage _ _ \<Rightarrow> None) content
      in if pieces = [] then None else Some (join_with [newline] pieces))"

definition is_summary_message :: "rstr \<Rightarrow> rstr \<Rightarrow> bool" where
  "is_summary_message summary_prefix s = starts_with (summary_prefix @ [newline]) s"

text \<open>The text of a message of the user, summaries included.\<close>

definition user_text :: "xml_reader \<Rightarrow> response_item \<Rightarrow> rstr option" where
  "user_text from_xml item =
     (case parse_turn_item from_xml item of Some (UserMessageItem inputs) \<Rightarrow> Some (flat_message inputs) | _ \<Rightarrow> None)"

definition collect_user_messages :: "xml_reader \<Rightarrow> rstr \<Rightarrow> response_item list \<Rightarrow> rstr list" where
  "collect_user_messages from_xml summary_prefix items =
     List.map_filter (\<lambda>item. case user_text from_xml item of
         Some s \<Rightarrow> if is_summary_message summary_prefix s then None else Some s
       | None \<Rightarrow> None) items"

text \<open>The backward scan: the last user message or summary, and the last message of the user.\<close>

fun scan_user_items ::
  "xml_reader \<Rightarrow> rstr \<Rightarrow> (nat \<times> response_item) list \<Rightarrow> nat option \<Rightarrow> nat option \<times> nat option" where
  "scan_user_items from_xml summary_prefix [] last_user_or_summary_index = (last_user_or_summary_index, None)"
| "scan_user_items from_xml summary_prefix ((i, item) # rest) last_user_or_summary_index =
     (case user_text from_xml item of
        None \<Rightarrow> scan_user_items from_xml summary_prefix rest last_user_or_summary_index
      | Some s \<Rightarrow>
          (let last_user_or_summary_index =
               (case last_user_or_summary_index of None \<Rightarrow> Some i | Some j \<Rightarrow> Some j)
           in if \<not> is_summary_message summary_prefix s then (last_user_or_summary_index, Some i)
              else scan_user_items from_xml summary_prefix rest last_user_or_summary_index))"

definition is_compaction_item :: "response_item \<Rightarrow> bool" where
  "is_compaction_item item = (case item of Compaction _ \<Rightarrow> True | ContextCompaction _ \<Rightarrow> True | _ \<Rightarrow> False)"

definition option_or :: "'a option \<Rightarrow> 'a option \<Rightarrow> 'a option" where
  "option_or a b = (case a of Some x \<Rightarrow> Some x | None \<Rightarrow> b)"

definition insert_initial_context_before_last_real_user_or_summary ::
  "xml_reader \<Rightarrow> rstr \<Rightarrow> response_item list \<Rightarrow> response_item list \<Rightarrow> response_item list" where
  "insert_initial_context_before_last_real_user_or_summary from_xml summary_prefix compacted_history initial_context =
     (let (last_user_or_summary_index, last_real_user_index) =
            scan_user_items from_xml summary_prefix (rev (enumerate 0 compacted_history)) None;
          last_compaction_index = rposition is_compaction_item compacted_history
      in case option_or (option_or last_real_user_index last_user_or_summary_index) last_compaction_index of
           Some i \<Rightarrow> take i compacted_history @ initial_context @ drop i compacted_history
         | None \<Rightarrow> compacted_history @ initial_context)"

definition COMPACT_USER_MESSAGE_MAX_TOKENS :: nat where "COMPACT_USER_MESSAGE_MAX_TOKENS = 20000"

fun select_messages :: "rstr list \<Rightarrow> nat \<Rightarrow> rstr list option" where
  "select_messages [] remaining = Some []"
| "select_messages (m # ms) remaining =
     (if remaining = 0 then Some []
      else
        (let tokens = approx_token_count m
         in if tokens \<le> remaining then map_option (Cons m) (select_messages ms (remaining - tokens))
            else map_option (\<lambda>truncated. [truncated]) (truncate_text m (Tokens remaining))))"

definition user_message :: "rstr \<Rightarrow> response_item" where
  "user_message s = Message None (lit ''user'') [InputText s] None"

definition build_compacted_history_with_limit ::
  "response_item list \<Rightarrow> rstr list \<Rightarrow> rstr \<Rightarrow> nat \<Rightarrow> response_item list option" where
  "build_compacted_history_with_limit history user_messages summary_text max_tokens =
     map_option (\<lambda>selected_messages.
         history @ map user_message selected_messages @
         [user_message (if summary_text = [] then lit ''(no summary available)'' else summary_text)])
       (if 0 < max_tokens then map_option rev (select_messages (rev user_messages) max_tokens) else Some [])"

definition build_compacted_history :: "response_item list \<Rightarrow> rstr list \<Rightarrow> rstr \<Rightarrow> response_item list option" where
  "build_compacted_history initial_context user_messages summary_text =
     build_compacted_history_with_limit initial_context user_messages summary_text COMPACT_USER_MESSAGE_MAX_TOKENS"

section \<open>Where the initial context goes\<close>

definition is_user_item :: "xml_reader \<Rightarrow> response_item \<Rightarrow> bool" where
  "is_user_item from_xml item \<longleftrightarrow> user_text from_xml item \<noteq> None"

definition is_real_user_item :: "xml_reader \<Rightarrow> rstr \<Rightarrow> response_item \<Rightarrow> bool" where
  "is_real_user_item from_xml summary_prefix item =
     (case user_text from_xml item of Some s \<Rightarrow> \<not> is_summary_message summary_prefix s | None \<Rightarrow> False)"

lemma rposition_snoc: "rposition P (xs @ [x]) = (if P x then Some (length xs) else rposition P xs)"
proof -
  have "map_option (\<lambda>i. length xs - i) (map_option Suc (position P (rev xs))) = rposition P xs"
    by (simp add: rposition_def option.map_comp comp_def)
  then show ?thesis by (simp add: rposition_def)
qed

lemma rposition_Nil [simp]: "rposition P [] = None"
  by (simp add: rposition_def)

lemma scan_user_items_eq:
  "scan_user_items from_xml summary_prefix (rev (enumerate 0 items)) us =
   (option_or us (rposition (is_user_item from_xml) items), rposition (is_real_user_item from_xml summary_prefix) items)"
proof (induction items arbitrary: us rule: rev_induct)
  case Nil
  then show ?case by (cases us) (simp_all add: option_or_def)
next
  case (snoc x xs)
  then show ?case
    by (cases "user_text from_xml x"; cases us)
      (auto simp: enumerate_append_eq rposition_snoc is_user_item_def is_real_user_item_def option_or_def Let_def split: option.splits)
qed

text \<open>The history is split right before the last item with a property.\<close>

definition split_before_last :: "('a \<Rightarrow> bool) \<Rightarrow> 'a list \<Rightarrow> 'a list \<Rightarrow> bool" where
  "split_before_last P a b \<longleftrightarrow> b \<noteq> [] \<and> P (hd b) \<and> list_all (\<lambda>x. \<not> P x) (tl b)"

lemma rposition_split:
  assumes "rposition P xs = Some i"
  shows "split_before_last P (take i xs) (drop i xs)"
proof -
  from rposition_SomeD [OF assms] have i: "i < length xs" "P (xs ! i)" and after: "\<And>j. i < j \<Longrightarrow> j < length xs \<Longrightarrow> \<not> P (xs ! j)" by auto
  have "\<not> P x" if "x \<in> set (drop (Suc i) xs)" for x
    using that after by (auto simp: in_set_conv_nth)
  then show ?thesis using i by (auto simp: split_before_last_def hd_drop_conv_nth list_all_iff tl_drop drop_Suc)
qed

text \<open>
  C29: The initial context is put into a compacted history as one block, before the last message of the
  user; if only summaries are left, before the last of them; if there is no message, before the last
  compaction item; else at the end. Nothing is lost or reordered.
\<close>

theorem initial_context_position:
  "\<exists>a b. history = a @ b \<and>
     insert_initial_context_before_last_real_user_or_summary from_xml summary_prefix history ctx = a @ ctx @ b \<and>
     (if list_ex (is_real_user_item from_xml summary_prefix) history then split_before_last (is_real_user_item from_xml summary_prefix) a b
      else if list_ex (is_user_item from_xml) history then split_before_last (is_user_item from_xml) a b
      else if list_ex is_compaction_item history then split_before_last is_compaction_item a b
      else b = [])"
proof -
  have found: "list_ex P history = (\<exists>i. rposition P history = Some i)" for P
    using rposition_None_iff [of P history] by (auto simp: list_ex_iff)
  define k where "k = option_or (option_or (rposition (is_real_user_item from_xml summary_prefix) history) (rposition (is_user_item from_xml) history))
    (rposition is_compaction_item history)"
  have res: "insert_initial_context_before_last_real_user_or_summary from_xml summary_prefix history ctx =
      (case k of Some i \<Rightarrow> take i history @ ctx @ drop i history | None \<Rightarrow> history @ ctx)"
    by (simp add: insert_initial_context_before_last_real_user_or_summary_def scan_user_items_eq k_def option_or_def)
  show ?thesis
  proof (cases k)
    case None
    then have "\<not> list_ex (is_real_user_item from_xml summary_prefix) history" "\<not> list_ex (is_user_item from_xml) history" "\<not> list_ex is_compaction_item history"
      unfolding found by (auto simp: k_def option_or_def split: option.splits)
    then show ?thesis using None res by (intro exI [of _ history] exI [of _ "[]"]) simp
  next
    case (Some i)
    have "(if list_ex (is_real_user_item from_xml summary_prefix) history then split_before_last (is_real_user_item from_xml summary_prefix) (take i history) (drop i history)
      else if list_ex (is_user_item from_xml) history then split_before_last (is_user_item from_xml) (take i history) (drop i history)
      else if list_ex is_compaction_item history then split_before_last is_compaction_item (take i history) (drop i history)
      else drop i history = [])"
      using Some rposition_split unfolding found by (auto simp: k_def option_or_def split: option.splits)
    then show ?thesis using Some res by (intro exI [of _ "take i history"] exI [of _ "drop i history"]) simp
  qed
qed

section \<open>What a compaction keeps\<close>

definition kept_messages :: "nat \<Rightarrow> rstr list \<Rightarrow> rstr list \<Rightarrow> rstr list \<Rightarrow> rstr list \<Rightarrow> bool" where
  "kept_messages max_tokens messages old piece recent \<longleftrightarrow>
     messages = old @ recent \<and> sum_list (map approx_token_count recent) \<le> max_tokens \<and>
     (if piece = [] then old = [] \<or> sum_list (map approx_token_count recent) = max_tokens
      else old \<noteq> [] \<and> max_tokens < approx_token_count (last old) + sum_list (map approx_token_count recent) \<and>
        map Some piece = [truncate_text (last old) (Tokens (max_tokens - sum_list (map approx_token_count recent)))])"

lemma select_messages_kept:
  "select_messages ms remaining = Some sel \<Longrightarrow>
   \<exists>old piece recent. kept_messages remaining (rev ms) old piece recent \<and> rev sel = piece @ recent"
proof (induction ms remaining arbitrary: sel rule: select_messages.induct)
  case (1 remaining)
  then show ?case by (intro exI [of _ "[]"]) (simp add: kept_messages_def)
next
  case (2 m ms remaining)
  consider (none) "remaining = 0" | (fits) "remaining \<noteq> 0" "approx_token_count m \<le> remaining" | (piece) "remaining \<noteq> 0" "\<not> approx_token_count m \<le> remaining"
    by blast
  then show ?case
  proof cases
    case none
    then have "kept_messages remaining (rev (m # ms)) (rev (m # ms)) [] [] \<and> rev sel = [] @ []"
      using "2.prems" by (simp add: kept_messages_def)
    then show ?thesis by blast
  next
    case fits
    then obtain sel' where sel': "select_messages ms (remaining - approx_token_count m) = Some sel'" "sel = m # sel'"
      using "2.prems" by auto
    from "2.IH" [OF fits(1) refl fits(2) sel'(1)] obtain old piece recent where
      "kept_messages (remaining - approx_token_count m) (rev ms) old piece recent" "rev sel' = piece @ recent" by blast
    then have "kept_messages remaining (rev (m # ms)) old piece (recent @ [m]) \<and> rev sel = piece @ (recent @ [m])"
      using fits(2) sel'(2) by (auto simp: kept_messages_def add.commute [of "approx_token_count m"] split: if_splits)
    then show ?thesis by blast
  next
    case piece
    then obtain t where "truncate_text m (Tokens remaining) = Some t" "sel = [t]" using "2.prems" by auto
    then have "kept_messages remaining (rev (m # ms)) (rev (m # ms)) [t] [] \<and> rev sel = [t] @ []"
      using piece by (auto simp: kept_messages_def)
    then show ?thesis by blast
  qed
qed

lemma user_text_user_message:
  "user_text from_xml (user_message s) = (if is_contextual_user_message_content from_xml [InputText s] then None else Some s)"
proof (cases "is_contextual_user_message_content from_xml [InputText s]")
  case True
  then have "\<nexists>inputs. parse_turn_item from_xml (user_message s) = Some (UserMessageItem inputs)"
    by (simp add: parse_turn_item_user user_message_def)
  then show ?thesis using True by (auto simp: user_text_def split: option.splits turn_item.splits)
next
  case False
  then have "parse_turn_item from_xml (user_message s) = Some (UserMessageItem (read_back None [InputText s]))"
    by (simp add: parse_turn_item_user user_message_def)
  then show ?thesis using False by (simp add: user_text_def flat_message_def is_image_def first_opt_def)
qed

definition recollected :: "xml_reader \<Rightarrow> rstr \<Rightarrow> rstr \<Rightarrow> bool" where
  "recollected from_xml summary_prefix s \<longleftrightarrow>
     \<not> is_contextual_user_message_content from_xml [InputText s] \<and> \<not> is_summary_message summary_prefix s"

lemma collect_user_message:
  "collect_user_messages from_xml summary_prefix (map user_message ms) = filter (recollected from_xml summary_prefix) ms"
proof (induction ms)
  case (Cons m ms)
  then show ?case by (simp add: collect_user_messages_def user_text_user_message recollected_def)
qed (simp add: collect_user_messages_def)

lemma collect_append:
  "collect_user_messages from_xml summary_prefix (xs @ ys) =
   collect_user_messages from_xml summary_prefix xs @ collect_user_messages from_xml summary_prefix ys"
  by (simp add: collect_user_messages_def List.map_filter_def)

lemma select_messages_total: "\<exists>sel. select_messages ms remaining = Some sel"
proof (induction ms remaining rule: select_messages.induct)
  case (2 m ms remaining)
  then show ?case using truncate_text_total [of m "Tokens remaining"] by (auto simp: Let_def simp del: truncate_text.simps)
qed simp

text \<open>
  C28: A compaction always returns. Its history is the given items, then the most recent messages of the
  user within the token limit, oldest first, the one that does not fit any more shortened to the rest
  of the budget, and last the summary. Compacting again finds these messages, apart from any that reads as
  injected context or as a summary; the summary itself is not taken for a message.
\<close>

theorem compaction_keeps_recent_messages:
  "\<exists>out old piece recent.
    build_compacted_history_with_limit history messages (summary_prefix @ newline # summary_body) (Suc limit) = Some out \<and>
    kept_messages (Suc limit) messages old piece recent \<and>
    out = history @ map user_message (piece @ recent) @ [user_message (summary_prefix @ newline # summary_body)] \<and>
    collect_user_messages from_xml summary_prefix out =
      collect_user_messages from_xml summary_prefix history @ filter (recollected from_xml summary_prefix) (piece @ recent)"
proof -
  obtain sel where sel: "select_messages (rev messages) (Suc limit) = Some sel"
    using select_messages_total by blast
  obtain old piece recent where kept: "kept_messages (Suc limit) messages old piece recent" "rev sel = piece @ recent"
    using select_messages_kept [OF sel] by auto
  define out where "out = history @ map user_message (piece @ recent) @ [user_message (summary_prefix @ newline # summary_body)]"
  have built: "build_compacted_history_with_limit history messages (summary_prefix @ newline # summary_body) (Suc limit) = Some out"
    by (simp add: build_compacted_history_with_limit_def sel kept(2) out_def)
  have "is_summary_message summary_prefix (summary_prefix @ newline # summary_body)"
    using starts_with_append [of "summary_prefix @ [newline]" summary_body] by (simp add: is_summary_message_def)
  then have "collect_user_messages from_xml summary_prefix [user_message (summary_prefix @ newline # summary_body)] = []"
    using collect_user_message [of from_xml summary_prefix "[summary_prefix @ newline # summary_body]"] by (simp add: recollected_def)
  then have "collect_user_messages from_xml summary_prefix out =
      collect_user_messages from_xml summary_prefix history @ filter (recollected from_xml summary_prefix) (piece @ recent)"
    unfolding out_def collect_append collect_user_message by simp
  then show ?thesis using kept(1) built out_def by blast
qed

end
