(* ===== verification/Rollout.thy ===== *)
theory Rollout
  imports Compaction
begin

text \<open>
  The log of a thread and what is rebuilt from it: fork and user boundaries after rollbacks
  (\<^verbatim>\<open>core/src/thread_rollout_truncation.rs\<close>) and the history of a resumed thread
  (\<^verbatim>\<open>core/src/session/rollout_reconstruction.rs\<close>). Of an event only the kinds that are looked at are told
  apart; what else a context snapshot holds is kept as its JSON text.
\<close>

section \<open>The log\<close>

datatype event_msg =
    ThreadRolledBack nat
  | TurnComplete rstr
  | TurnAbortedEvent "rstr option"
  | UserMessageEvent
  | TurnStarted rstr
  | OtherEvent json_value

record turn_context_item =
  tc_turn_id :: "rstr option"
  tc_model :: rstr
  tc_realtime_active :: "bool option"
  tc_settings :: json_value

datatype rollout_item =
    SessionMeta json_value
  | ResponseItem response_item
  | Compacted rstr "response_item list option"
  | TurnContext turn_context_item
  | EventMsg event_msg

section \<open>Boundaries in the log\<close>

definition is_real_user_message_boundary :: "history_env \<Rightarrow> response_item \<Rightarrow> bool" where
  "is_real_user_message_boundary env item =
     (case parse_turn_item (hook_xml env) item of Some (UserMessageItem _) \<Rightarrow> True | _ \<Rightarrow> False)"

definition is_trigger_turn_boundary :: "history_env \<Rightarrow> response_item \<Rightarrow> bool" where
  "is_trigger_turn_boundary env item =
     (case item of
        Message _ role content _ \<Rightarrow> role = lit ''assistant'' \<and> from_message_content env content = Some True
      | _ \<Rightarrow> False)"

definition user_position_step :: "history_env \<Rightarrow> nat \<times> rollout_item \<Rightarrow> nat list \<Rightarrow> nat list" where
  "user_position_step env = (\<lambda>(idx, item) user_positions.
     case item of
       ResponseItem i \<Rightarrow> if is_real_user_message_boundary env i then user_positions @ [idx] else user_positions
     | EventMsg (ThreadRolledBack num_turns) \<Rightarrow> take (length user_positions - num_turns) user_positions
     | _ \<Rightarrow> user_positions)"

definition user_message_positions_in_rollout :: "history_env \<Rightarrow> rollout_item list \<Rightarrow> nat list" where
  "user_message_positions_in_rollout env items = fold (user_position_step env) (enumerate 0 items) []"

definition rollback_start :: "nat \<Rightarrow> nat list \<Rightarrow> nat option" where
  "rollback_start num_turns positions =
     (if num_turns \<le> length positions then Some (positions ! (length positions - num_turns)) else first_opt positions)"

definition fork_turn_step :: "history_env \<Rightarrow> nat \<times> rollout_item \<Rightarrow> nat list \<times> nat list \<Rightarrow> nat list \<times> nat list" where
  "fork_turn_step env = (\<lambda>(idx, item) (rollback_turn_positions, fork_turn_positions).
     case item of
       ResponseItem i \<Rightarrow>
         (if is_user_turn_boundary env i then rollback_turn_positions @ [idx] else rollback_turn_positions,
          if is_real_user_message_boundary env i \<or> is_trigger_turn_boundary env i then fork_turn_positions @ [idx] else fork_turn_positions)
     | EventMsg (ThreadRolledBack num_turns) \<Rightarrow>
         if num_turns = 0 then (rollback_turn_positions, fork_turn_positions)
         else
           (case rollback_start num_turns rollback_turn_positions of
              None \<Rightarrow> (rollback_turn_positions, fork_turn_positions)
            | Some rollback_start_idx \<Rightarrow>
                (take (length rollback_turn_positions - num_turns) rollback_turn_positions,
                 filter (\<lambda>position. position < rollback_start_idx) fork_turn_positions))
     | _ \<Rightarrow> (rollback_turn_positions, fork_turn_positions))"

definition fork_turn_positions_in_rollout :: "history_env \<Rightarrow> rollout_item list \<Rightarrow> nat list" where
  "fork_turn_positions_in_rollout env items = snd (fold (fork_turn_step env) (enumerate 0 items) ([], []))"

definition truncate_rollout_before_nth_user_message_from_start ::
  "history_env \<Rightarrow> rollout_item list \<Rightarrow> nat \<Rightarrow> rollout_item list" where
  "truncate_rollout_before_nth_user_message_from_start env items n_from_start =
     (if n_from_start = usize_max then items
      else
        (let user_positions = user_message_positions_in_rollout env items
         in if length user_positions \<le> n_from_start then items else take (user_positions ! n_from_start) items))"

definition truncate_rollout_to_last_n_fork_turns :: "history_env \<Rightarrow> rollout_item list \<Rightarrow> nat \<Rightarrow> rollout_item list" where
  "truncate_rollout_to_last_n_fork_turns env items n_from_end =
     (if n_from_end = 0 then []
      else
        (case rollback_start n_from_end (fork_turn_positions_in_rollout env items) of
           None \<Rightarrow> []
         | Some keep_idx \<Rightarrow> drop keep_idx items))"

section \<open>Rebuilding a thread\<close>

datatype turn_reference_context_item = NeverSet | Cleared | Latest turn_context_item

record previous_turn_settings =
  previous_model :: rstr
  previous_realtime_active :: "bool option"

record active_replay_segment =
  seg_turn_id :: "rstr option"
  counts_as_user_turn :: bool
  seg_turn_settings :: "previous_turn_settings option"
  seg_reference :: turn_reference_context_item
  seg_base :: "response_item list option"

definition default_segment :: active_replay_segment where
  "default_segment = \<lparr>seg_turn_id = None, counts_as_user_turn = False, seg_turn_settings = None, seg_reference = NeverSet, seg_base = None\<rparr>"

record replay_scan =
  scan_base :: "response_item list option"
  scan_settings :: "previous_turn_settings option"
  scan_reference :: turn_reference_context_item
  pending_rollback_turns :: nat
  suffix_from :: nat
  active_segment :: "active_replay_segment option"

definition turn_ids_are_compatible :: "rstr option \<Rightarrow> rstr option \<Rightarrow> bool" where
  "turn_ids_are_compatible active_turn_id item_turn_id =
     (case (active_turn_id, item_turn_id) of (Some turn_id, Some item_id) \<Rightarrow> item_id = turn_id | _ \<Rightarrow> True)"

definition finalize_active_segment :: "active_replay_segment \<Rightarrow> replay_scan \<Rightarrow> replay_scan" where
  "finalize_active_segment seg st =
     (if 0 < pending_rollback_turns st then
        (if counts_as_user_turn seg then st\<lparr>pending_rollback_turns := pending_rollback_turns st - 1\<rparr> else st)
      else
        (let st = (if scan_base st = None \<and> seg_base seg \<noteq> None then st\<lparr>scan_base := seg_base seg\<rparr> else st);
             st = (if scan_settings st = None \<and> counts_as_user_turn seg then st\<lparr>scan_settings := seg_turn_settings seg\<rparr> else st)
         in if scan_reference st = NeverSet \<and> (counts_as_user_turn seg \<or> seg_reference seg = Cleared)
            then st\<lparr>scan_reference := seg_reference seg\<rparr> else st))"

definition get_segment :: "replay_scan \<Rightarrow> active_replay_segment" where
  "get_segment st = (case active_segment st of Some seg \<Rightarrow> seg | None \<Rightarrow> default_segment)"

definition scan_compacted :: "nat \<Rightarrow> response_item list option \<Rightarrow> replay_scan \<Rightarrow> replay_scan" where
  "scan_compacted index replacement_history st =
     (let seg = get_segment st;
          seg = (if seg_reference seg = NeverSet then seg\<lparr>seg_reference := Cleared\<rparr> else seg)
      in if seg_base seg = None \<and> replacement_history \<noteq> None
         then st\<lparr>active_segment := Some (seg\<lparr>seg_base := replacement_history\<rparr>), suffix_from := index + 1\<rparr>
         else st\<lparr>active_segment := Some seg\<rparr>)"

definition scan_turn_context :: "turn_context_item \<Rightarrow> replay_scan \<Rightarrow> replay_scan" where
  "scan_turn_context ctx st =
     (let seg = get_segment st;
          seg = (if seg_turn_id seg = None then seg\<lparr>seg_turn_id := tc_turn_id ctx\<rparr> else seg);
          seg = (if turn_ids_are_compatible (seg_turn_id seg) (tc_turn_id ctx)
                 then seg\<lparr>seg_turn_settings := Some \<lparr>previous_model = tc_model ctx, previous_realtime_active = tc_realtime_active ctx\<rparr>,
                   seg_reference := (if seg_reference seg = NeverSet then Latest ctx else seg_reference seg)\<rparr>
                 else seg)
      in st\<lparr>active_segment := Some seg\<rparr>)"

definition scan_event :: "event_msg \<Rightarrow> replay_scan \<Rightarrow> replay_scan" where
  "scan_event event st =
     (case event of
        ThreadRolledBack num_turns \<Rightarrow> st\<lparr>pending_rollback_turns := usat_add (pending_rollback_turns st) num_turns\<rparr>
      | TurnComplete turn_id \<Rightarrow>
          (let seg = get_segment st
           in st\<lparr>active_segment := Some (if seg_turn_id seg = None then seg\<lparr>seg_turn_id := Some turn_id\<rparr> else seg)\<rparr>)
      | TurnAbortedEvent turn_id \<Rightarrow>
          (case active_segment st of
             Some seg \<Rightarrow>
               st\<lparr>active_segment := Some (if seg_turn_id seg = None \<and> turn_id \<noteq> None then seg\<lparr>seg_turn_id := turn_id\<rparr> else seg)\<rparr>
           | None \<Rightarrow>
               if turn_id \<noteq> None then st\<lparr>active_segment := Some (default_segment\<lparr>seg_turn_id := turn_id\<rparr>)\<rparr> else st)
      | UserMessageEvent \<Rightarrow> st\<lparr>active_segment := Some ((get_segment st)\<lparr>counts_as_user_turn := True\<rparr>)\<rparr>
      | TurnStarted turn_id \<Rightarrow>
          (case active_segment st of
             Some seg \<Rightarrow>
               if turn_ids_are_compatible (seg_turn_id seg) (Some turn_id)
               then finalize_active_segment seg (st\<lparr>active_segment := None\<rparr>) else st
           | None \<Rightarrow> st)
      | OtherEvent _ \<Rightarrow> st)"

definition scan_item :: "history_env \<Rightarrow> nat \<times> rollout_item \<Rightarrow> replay_scan \<Rightarrow> replay_scan" where
  "scan_item env = (\<lambda>(index, item) st.
     case item of
       Compacted _ replacement_history \<Rightarrow> scan_compacted index replacement_history st
     | EventMsg event \<Rightarrow> scan_event event st
     | TurnContext ctx \<Rightarrow> scan_turn_context ctx st
     | ResponseItem i \<Rightarrow>
         (let seg = get_segment st
          in st\<lparr>active_segment := Some (seg\<lparr>counts_as_user_turn := counts_as_user_turn seg \<or> is_user_turn_boundary env i\<rparr>)\<rparr>)
     | SessionMeta _ \<Rightarrow> st)"

definition scan_complete :: "replay_scan \<Rightarrow> bool" where
  "scan_complete st \<longleftrightarrow> scan_base st \<noteq> None \<and> scan_settings st \<noteq> None \<and> scan_reference st \<noteq> NeverSet"

fun scan_loop :: "history_env \<Rightarrow> (nat \<times> rollout_item) list \<Rightarrow> replay_scan \<Rightarrow> replay_scan" where
  "scan_loop env [] st = st"
| "scan_loop env (x # xs) st = (let st = scan_item env x st in if scan_complete st then st else scan_loop env xs st)"

definition scan_rollout :: "history_env \<Rightarrow> rollout_item list \<Rightarrow> replay_scan" where
  "scan_rollout env items =
     (let st = scan_loop env (rev (enumerate 0 items))
        \<lparr>scan_base = None, scan_settings = None, scan_reference = NeverSet, pending_rollback_turns = 0, suffix_from = 0, active_segment = None\<rparr>
      in case active_segment st of Some seg \<Rightarrow> finalize_active_segment seg (st\<lparr>active_segment := None\<rparr>) | None \<Rightarrow> st)"

text \<open>The forward loop; the flag tells whether a compaction without a replacement was seen.\<close>

fun replay_items ::
  "history_env \<Rightarrow> truncation_policy \<Rightarrow> rstr \<Rightarrow> rollout_item list \<Rightarrow> turn_context_item context_manager \<times> bool \<Rightarrow>
   (turn_context_item context_manager \<times> bool) option" where
  "replay_items env policy summary_prefix [] (history, saw_legacy) = Some (history, saw_legacy)"
| "replay_items env policy summary_prefix (item # items) (history, saw_legacy) =
     Option.bind
       (case item of
          ResponseItem i \<Rightarrow> map_option (\<lambda>h. (h, saw_legacy)) (record_items [i] policy history)
        | Compacted _ (Some replacement_history) \<Rightarrow> Some (replace_items replacement_history history, saw_legacy)
        | Compacted summary_text None \<Rightarrow>
            map_option (\<lambda>rebuilt. (replace_items rebuilt history, True))
              (build_compacted_history [] (collect_user_messages (hook_xml env) summary_prefix (cm_items history)) summary_text)
        | EventMsg (ThreadRolledBack num_turns) \<Rightarrow> map_option (\<lambda>h. (h, saw_legacy)) (drop_last_n_user_turns env num_turns history)
        | _ \<Rightarrow> Some (history, saw_legacy))
       (replay_items env policy summary_prefix items)"

record rollout_reconstruction =
  rebuilt_history :: "response_item list"
  rebuilt_turn_settings :: "previous_turn_settings option"
  rebuilt_reference :: "turn_context_item option"

definition reconstruct_history_from_rollout ::
  "history_env \<Rightarrow> truncation_policy \<Rightarrow> rstr \<Rightarrow> rollout_item list \<Rightarrow> rollout_reconstruction option" where
  "reconstruct_history_from_rollout env policy summary_prefix rollout_items =
     (let st = scan_rollout env rollout_items;
          history = (case scan_base st of Some base \<Rightarrow> replace_items base new_context_manager | None \<Rightarrow> new_context_manager)
      in map_option (\<lambda>(history, saw_legacy).
             \<lparr>rebuilt_history = cm_items history,
              rebuilt_turn_settings = scan_settings st,
              rebuilt_reference =
                (if saw_legacy then None else case scan_reference st of Latest ctx \<Rightarrow> Some ctx | _ \<Rightarrow> None)\<rparr>)
           (replay_items env policy summary_prefix (drop (suffix_from st) rollout_items) (history, False)))"

section \<open>The thread after its rollbacks\<close>

lemma real_user_message_boundary:
  "is_real_user_message_boundary env item \<longleftrightarrow>
   (case item of
      Message _ role content _ \<Rightarrow> role = lit ''user'' \<and> \<not> is_contextual_user_message_content (hook_xml env) content
    | _ \<Rightarrow> False)"
proof -
  have "is_real_user_message_boundary env item \<longleftrightarrow> (\<exists>inputs. parse_turn_item (hook_xml env) item = Some (UserMessageItem inputs))"
    by (auto simp: is_real_user_message_boundary_def split: option.splits turn_item.splits)
  then show ?thesis by (simp add: parse_turn_item_user split: response_item.splits)
qed

text \<open>The items that count, with their positions in the log: a rollback removes the last turns.\<close>

definition drop_turns :: "history_env \<Rightarrow> nat \<Rightarrow> (nat \<times> response_item) list \<Rightarrow> (nat \<times> response_item) list" where
  "drop_turns env n h =
     (if n = 0 \<or> turns env (map snd h) = 0 then h
      else take (user_message_positions env (map snd h) ! (turns env (map snd h) - n)) h)"

definition effective_step :: "history_env \<Rightarrow> nat \<times> rollout_item \<Rightarrow> (nat \<times> response_item) list \<Rightarrow> (nat \<times> response_item) list" where
  "effective_step env = (\<lambda>(idx, item) h.
     case item of
       ResponseItem i \<Rightarrow> h @ [(idx, i)]
     | EventMsg (ThreadRolledBack n) \<Rightarrow> drop_turns env n h
     | _ \<Rightarrow> h)"

definition effective :: "history_env \<Rightarrow> rollout_item list \<Rightarrow> (nat \<times> response_item) list" where
  "effective env items = fold (effective_step env) (enumerate 0 items) []"

definition is_fork_turn :: "history_env \<Rightarrow> response_item \<Rightarrow> bool" where
  "is_fork_turn env i \<longleftrightarrow> is_real_user_message_boundary env i \<or> is_trigger_turn_boundary env i"

definition positions_of :: "(response_item \<Rightarrow> bool) \<Rightarrow> (nat \<times> response_item) list \<Rightarrow> nat list" where
  "positions_of P h = map fst (filter (\<lambda>(_, i). P i) h)"

lemma positions_of_append [simp]: "positions_of P (h @ h') = positions_of P h @ positions_of P h'"
  by (simp add: positions_of_def)

lemma length_positions_of: "length (positions_of (is_user_turn_boundary env) h) = turns env (map snd h)"
  by (induction h) (auto simp: positions_of_def turns_def)

lemma drop_turns_split:
  assumes "0 < n" "turns env (map snd h) \<noteq> 0"
  obtains a p x b where "h = a @ (p, x) # b" "drop_turns env n h = a" "is_user_turn_boundary env x"
    "turns env (map snd a) = turns env (map snd h) - n"
proof -
  have "turns env (map snd h) - n < turns env (map snd h)" using assms by simp
  from positions_nth [OF this] obtain a x b where ax: "map snd h = a @ x # b"
    "length a = user_message_positions env (map snd h) ! (turns env (map snd h) - n)" "is_user_turn_boundary env x"
    "turns env a = turns env (map snd h) - n" by blast
  have lt: "length a < length h" using arg_cong [OF ax(1), of length] by simp
  then have h: "h = take (length a) h @ h ! length a # drop (Suc (length a)) h" by (simp add: id_take_nth_drop)
  have "map snd (take (length a) h) = a" by (simp add: ax(1) flip: take_map)
  moreover have "h ! length a = (fst (h ! length a), x)" using nth_map [OF lt, of snd] by (simp add: ax(1) prod_eq_iff)
  moreover have "drop_turns env n h = take (length a) h" using assms ax(2) by (simp add: drop_turns_def)
  ultimately show thesis using that [of "take (length a) h" "fst (h ! length a)" x "drop (Suc (length a)) h"] h ax(3,4) by simp
qed

lemma rollback_positions:
  fixes env n h P
  assumes "0 < n" "sorted_wrt (<) (map fst h)"
  defines "rb \<equiv> positions_of (is_user_turn_boundary env) h"
  shows "(case rollback_start n rb of
      None \<Rightarrow> (rb, positions_of P h)
    | Some start \<Rightarrow> (take (length rb - n) rb, filter (\<lambda>p. p < start) (positions_of P h))) =
    (positions_of (is_user_turn_boundary env) (drop_turns env n h), positions_of P (drop_turns env n h))"
proof (cases "turns env (map snd h) = 0")
  case True
  then have "rb = []" using length_positions_of [of env h] by (simp add: rb_def)
  then show ?thesis using True assms(1) by (simp add: rollback_start_def first_opt_def drop_turns_def rb_def)
next
  case False
  then obtain a p x b where h: "h = a @ (p, x) # b" "drop_turns env n h = a" "is_user_turn_boundary env x"
    "turns env (map snd a) = turns env (map snd h) - n"
    using drop_turns_split [OF assms(1)] by metis
  define ra where "ra = positions_of (is_user_turn_boundary env) a"
  have rb: "rb = ra @ p # positions_of (is_user_turn_boundary env) b" using h(3) by (simp add: rb_def ra_def h(1)) (simp add: positions_of_def)
  have len: "length rb = turns env (map snd h)" "length ra = length rb - n"
    using length_positions_of [of env h] length_positions_of [of env a] h(4) by (simp_all add: rb_def ra_def)
  have "rollback_start n rb = Some p"
    using len(2) assms(1) rb by (auto simp: rollback_start_def first_opt_def nth_append split: list.splits)
  moreover have "filter (\<lambda>q. q < p) (positions_of P h) = positions_of P a"
  proof -
    have "\<forall>q \<in> fst ` set a. q < p" "\<forall>q \<in> fst ` set b. p < q" using assms(2) by (auto simp: h(1) sorted_wrt_append)
    then have "filter (\<lambda>q. q < p) (positions_of P a) = positions_of P a" "filter (\<lambda>q. q < p) (positions_of P b) = []"
      by (force simp: positions_of_def intro: filter_True, force simp: positions_of_def filter_empty_conv)
    then show ?thesis by (simp add: h(1)) (simp add: positions_of_def)
  qed
  ultimately show ?thesis using len(2) rb by (simp add: h(2) ra_def)
qed

lemma effective_sorted:
  "sorted_wrt (<) (map fst (effective env items)) \<and> (\<forall>p \<in> fst ` set (effective env items). p < length items)"
proof (induction items rule: rev_induct)
  case (snoc x xs)
  have sub: "sorted_wrt (<) (map fst (take k h)) \<and> (\<forall>p \<in> fst ` set (take k h). p < m)"
    if "sorted_wrt (<) (map fst h)" "\<forall>p \<in> fst ` set h. p < m" for k m and h :: "(nat \<times> response_item) list"
    using that sorted_wrt_take [of "(<)" "map fst h" k] by (auto simp: take_map dest: in_set_takeD)
  have "effective env (xs @ [x]) = effective_step env (length xs, x) (effective env xs)"
    by (simp add: effective_def enumerate_append_eq)
  then show ?case
    using snoc sub [of "effective env xs" "Suc (length xs)"]
    by (auto simp: effective_step_def drop_turns_def sorted_wrt_append less_Suc_eq split: rollout_item.splits event_msg.splits)
qed (simp add: effective_def)

lemma fork_positions_effective:
  "fold (fork_turn_step env) (enumerate 0 items) ([], []) =
   (positions_of (is_user_turn_boundary env) (effective env items), positions_of (is_fork_turn env) (effective env items))"
proof (induction items rule: rev_induct)
  case Nil
  then show ?case by (simp add: effective_def positions_of_def)
next
  case (snoc x xs)
  let ?h = "effective env xs"
  have eff: "effective env (xs @ [x]) = effective_step env (length xs, x) ?h"
    by (simp add: effective_def enumerate_append_eq)
  have "fold (fork_turn_step env) (enumerate 0 (xs @ [x])) ([], []) =
      fork_turn_step env (length xs, x) (positions_of (is_user_turn_boundary env) ?h, positions_of (is_fork_turn env) ?h)"
    using snoc by (simp add: enumerate_append_eq)
  also have "\<dots> = (positions_of (is_user_turn_boundary env) (effective_step env (length xs, x) ?h),
      positions_of (is_fork_turn env) (effective_step env (length xs, x) ?h))"
  proof (cases x)
    case (ResponseItem i)
    then show ?thesis
      by (simp add: fork_turn_step_def effective_step_def is_fork_turn_def positions_of_def)
  next
    case (EventMsg e)
    show ?thesis
    proof (cases e)
      case (ThreadRolledBack n)
      show ?thesis
        using rollback_positions [where n = n and h = ?h and env = env and P = "is_fork_turn env"] effective_sorted [of env xs]
        by (cases "n = 0") (simp_all add: EventMsg ThreadRolledBack fork_turn_step_def effective_step_def drop_turns_def)
    qed (simp_all add: EventMsg fork_turn_step_def effective_step_def)
  qed (simp_all add: fork_turn_step_def effective_step_def)
  finally show ?case by (simp add: eff)
qed

text \<open>
  C27: Looking for fork points in a log agrees with the thread the log describes: the positions are those of
  the fork turns that are left when every rollback has removed its turns, and cutting to the last n of
  them starts at the n-th last, or at the first if there are fewer.
\<close>

theorem fork_points_match_thread:
  "fork_turn_positions_in_rollout env items = positions_of (is_fork_turn env) (effective env items) \<and>
   truncate_rollout_to_last_n_fork_turns env items (Suc n) =
     (let ps = positions_of (is_fork_turn env) (effective env items)
      in if ps = [] then [] else drop (ps ! (length ps - Suc n)) items)"
proof -
  have fork: "fork_turn_positions_in_rollout env items = positions_of (is_fork_turn env) (effective env items)"
    by (simp add: fork_turn_positions_in_rollout_def fork_positions_effective)
  have start: "rollback_start (Suc n) ps = (if ps = [] then None else Some (ps ! (length ps - Suc n)))" for ps
    by (auto simp: rollback_start_def first_opt_def split: list.splits)
  show ?thesis by (auto simp: fork truncate_rollout_to_last_n_fork_turns_def start Let_def)
qed

section \<open>Replaying the log\<close>

definition item_effect ::
  "history_env \<Rightarrow> truncation_policy \<Rightarrow> rstr \<Rightarrow> rollout_item \<Rightarrow> response_item list \<Rightarrow> response_item list" where
  "item_effect env policy summary_prefix item h =
     (case item of
        ResponseItem i \<Rightarrow> h @ recorded policy [i]
      | Compacted _ (Some replacement) \<Rightarrow> replacement
      | Compacted summary_text None \<Rightarrow>
          the (build_compacted_history [] (collect_user_messages (hook_xml env) summary_prefix h) summary_text)
      | EventMsg (ThreadRolledBack n) \<Rightarrow> items_after_drop env n h
      | _ \<Rightarrow> h)"

lemma build_compacted_total: "\<exists>out. build_compacted_history h ms t = Some out"
  using select_messages_total [of "rev ms" COMPACT_USER_MESSAGE_MAX_TOKENS]
  by (auto simp: build_compacted_history_def build_compacted_history_with_limit_def)

lemma replay_items_effect:
  "\<exists>cm' f'. replay_items env policy summary_prefix items (cm, f) = Some (cm', f') \<and>
     cm_items cm' = fold (item_effect env policy summary_prefix) items (cm_items cm)"
proof (induction items arbitrary: cm f)
  case (Cons item items)
  let ?e = "item_effect env policy summary_prefix item (cm_items cm)"
  let ?step = "case item of
      ResponseItem i \<Rightarrow> map_option (\<lambda>h. (h, f)) (record_items [i] policy cm)
    | Compacted _ (Some replacement_history) \<Rightarrow> Some (replace_items replacement_history cm, f)
    | Compacted summary_text None \<Rightarrow>
        map_option (\<lambda>rebuilt. (replace_items rebuilt cm, True))
          (build_compacted_history [] (collect_user_messages (hook_xml env) summary_prefix (cm_items cm)) summary_text)
    | EventMsg (ThreadRolledBack num_turns) \<Rightarrow> map_option (\<lambda>h. (h, f)) (drop_last_n_user_turns env num_turns cm)
    | _ \<Rightarrow> Some (cm, f)"
  have "\<exists>cm' f'. ?step = Some (cm', f') \<and> cm_items cm' = ?e"
  proof (cases item)
    case (ResponseItem i)
    then show ?thesis by (simp add: record_items_eq item_effect_def)
  next
    case (Compacted t r)
    then show ?thesis
      using build_compacted_total [of "[]" "collect_user_messages (hook_xml env) summary_prefix (cm_items cm)" t]
      by (cases r) (auto simp: item_effect_def replace_items_def)
  next
    case (EventMsg e)
    then show ?thesis
      using items_after_drop_eq [of env _ cm] by (cases e) (fastforce simp: item_effect_def)+
  qed (simp_all add: item_effect_def)
  then obtain cm1 f1 where step: "?step = Some (cm1, f1)" "cm_items cm1 = ?e" by blast
  have "replay_items env policy summary_prefix (item # items) (cm, f) = replay_items env policy summary_prefix items (cm1, f1)"
    using step(1) by simp
  then show ?case using Cons.IH [of cm1 f1] step(2) by simp
qed simp

section \<open>The backward scan\<close>

definition is_rollback :: "rollout_item \<Rightarrow> bool" where
  "is_rollback item = (case item of EventMsg (ThreadRolledBack _) \<Rightarrow> True | _ \<Rightarrow> False)"

definition is_checkpoint :: "rollout_item \<Rightarrow> bool" where
  "is_checkpoint item = (case item of Compacted _ (Some _) \<Rightarrow> True | _ \<Rightarrow> False)"

definition is_compaction_entry :: "rollout_item \<Rightarrow> bool" where
  "is_compaction_entry item = (case item of Compacted _ _ \<Rightarrow> True | _ \<Rightarrow> False)"

definition active_base :: "replay_scan \<Rightarrow> response_item list option" where
  "active_base st = Option.bind (active_segment st) seg_base"

definition no_base :: "replay_scan \<Rightarrow> bool" where
  "no_base st \<longleftrightarrow> scan_base st = None \<and> suffix_from st = 0 \<and> active_base st = None"

text \<open>What is known of the newest checkpoint when the log from position \<open>k\<close> on has been scanned.\<close>

definition base_inv :: "nat \<Rightarrow> rollout_item list \<Rightarrow> replay_scan \<Rightarrow> bool" where
  "base_inv k suf st \<longleftrightarrow> pending_rollback_turns st = 0 \<and>
     (\<not> list_ex is_checkpoint suf \<and> no_base st \<or>
     (\<exists>xs m h ys. suf = xs @ Compacted m (Some h) # ys \<and> \<not> list_ex is_checkpoint ys \<and> suffix_from st \<le> k + length xs + 1 \<and>
        (scan_base st = Some h \<or> scan_base st = None \<and> active_base st = Some h)))"

lemma get_segment_base [simp]: "seg_base (get_segment st) = active_base st"
  by (cases "active_segment st") (simp_all add: get_segment_def active_base_def default_segment_def)

lemma finalize_fields:
  "scan_base (finalize_active_segment seg st) =
     (if pending_rollback_turns st = 0 \<and> scan_base st = None then seg_base seg else scan_base st)"
  "suffix_from (finalize_active_segment seg st) = suffix_from st"
  "active_segment (finalize_active_segment seg st) = active_segment st"
  "pending_rollback_turns st = 0 \<Longrightarrow> pending_rollback_turns (finalize_active_segment seg st) = 0"
  by (auto simp: finalize_active_segment_def Let_def)

text \<open>An item other than a checkpoint moves a base at most from the active segment into the result.\<close>

definition base_kept :: "replay_scan \<Rightarrow> replay_scan \<Rightarrow> bool" where
  "base_kept st st' \<longleftrightarrow>
     suffix_from st' = suffix_from st \<and>
     (scan_base st' = scan_base st \<and> active_base st' = active_base st \<or>
      active_base st' = None \<and> scan_base st' = (if pending_rollback_turns st = 0 \<and> scan_base st = None then active_base st else scan_base st))"

lemma scan_item_base:
  assumes "\<not> is_checkpoint x"
  shows "base_kept st (scan_item env (k, x) st) \<and>
    (\<not> is_rollback x \<and> pending_rollback_turns st = 0 \<longrightarrow> pending_rollback_turns (scan_item env (k, x) st) = 0)"
proof (cases x)
  case (EventMsg e)
  show ?thesis
    by (cases e; cases "active_segment st")
      (auto simp: EventMsg scan_item_def scan_event_def base_kept_def finalize_fields is_rollback_def active_base_def get_segment_def
        default_segment_def Let_def)
qed (use assms in \<open>auto simp: scan_item_def scan_compacted_def scan_turn_context_def base_kept_def is_checkpoint_def
       active_base_def get_segment_def default_segment_def Let_def split: option.splits\<close>)

lemma scan_item_checkpoint:
  "scan_item env (k, Compacted m (Some h)) st = scan_compacted k (Some h) st"
  "scan_base (scan_compacted k (Some h) st) = scan_base st"
  "pending_rollback_turns (scan_compacted k (Some h) st) = pending_rollback_turns st"
  "active_base (scan_compacted k (Some h) st) = (if active_base st = None then Some h else active_base st)"
  "suffix_from (scan_compacted k (Some h) st) = (if active_base st = None then k + 1 else suffix_from st)"
  by (auto simp: scan_item_def scan_compacted_def Let_def active_base_def get_segment_def default_segment_def split: option.splits)

lemma base_kept_no_base: "base_kept st st' \<Longrightarrow> no_base st \<Longrightarrow> no_base st'"
  by (auto simp: base_kept_def no_base_def)

lemma base_invI:
  "pending_rollback_turns st = 0 \<Longrightarrow> suf = xs @ Compacted m (Some h) # ys \<Longrightarrow> \<not> list_ex is_checkpoint ys \<Longrightarrow>
   suffix_from st \<le> k + length xs + 1 \<Longrightarrow> scan_base st = Some h \<or> scan_base st = None \<and> active_base st = Some h \<Longrightarrow> base_inv k suf st"
  unfolding base_inv_def by blast

lemma base_invE:
  assumes "base_inv k suf st"
  obtains (absent) "pending_rollback_turns st = 0" "\<not> list_ex is_checkpoint suf" "no_base st"
  | (present) xs m h ys where "pending_rollback_turns st = 0" "suf = xs @ Compacted m (Some h) # ys" "\<not> list_ex is_checkpoint ys"
      "suffix_from st \<le> k + length xs + 1" "scan_base st = Some h \<or> scan_base st = None \<and> active_base st = Some h"
  using assms that unfolding base_inv_def by metis

lemma base_inv_other:
  assumes inv: "base_inv (Suc k) suf st" and x: "\<not> is_rollback x" "\<not> is_checkpoint x"
  shows "base_inv k (x # suf) (scan_item env (k, x) st)"
proof -
  have kept: "base_kept st (scan_item env (k, x) st)" and p: "pending_rollback_turns (scan_item env (k, x) st) = 0"
    using scan_item_base [OF x(2), of st env k] x inv by (auto simp: base_inv_def)
  from inv show ?thesis
  proof (cases rule: base_invE)
    case absent
    then show ?thesis using p x(2) base_kept_no_base [OF kept] by (simp add: base_inv_def)
  next
    case (present xs m h ys)
    show ?thesis
      by (rule base_invI [OF p, of _ "x # xs" m h ys]) (use present kept in \<open>auto simp: base_kept_def\<close>)
  qed
qed

lemma base_inv_checkpoint:
  assumes "base_inv (Suc k) suf st"
  shows "base_inv k (Compacted m (Some h) # suf) (scan_item env (k, Compacted m (Some h)) st)"
  using assms
proof (cases rule: base_invE)
  case absent
  show ?thesis
    by (rule base_invI [of _ _ "[]" m h suf]) (use absent in \<open>auto simp: scan_item_checkpoint no_base_def\<close>)
next
  case (present xs m' h' ys)
  show ?thesis
    by (rule base_invI [of _ _ "Compacted m (Some h) # xs" m' h' ys]) (use present in \<open>auto simp: scan_item_checkpoint\<close>)
qed

lemma base_inv_step:
  "base_inv (Suc k) suf st \<Longrightarrow> \<not> is_rollback x \<Longrightarrow> base_inv k (x # suf) (scan_item env (k, x) st)"
  using base_inv_other [of k suf st x] base_inv_checkpoint [of k suf st]
  by (cases "is_checkpoint x") (auto simp: is_checkpoint_def split: rollout_item.splits option.splits)

lemma scan_loop_no_base:
  "\<not> list_ex is_checkpoint (map snd xs) \<Longrightarrow> no_base st \<Longrightarrow> no_base (scan_loop env xs st)"
proof (induction xs arbitrary: st)
  case (Cons x xs)
  then show ?case
    using scan_item_base [of "snd x" st env "fst x"] base_kept_no_base by (auto simp: Let_def)
qed simp

lemma scan_loop_base_inv:
  "\<not> list_ex is_rollback pre \<Longrightarrow> base_inv (length pre) suf st \<Longrightarrow>
   \<exists>pre' suf'. pre @ suf = pre' @ suf' \<and> base_inv (length pre') suf' (scan_loop env (rev (enumerate 0 pre)) st) \<and>
     (pre' = [] \<or> scan_complete (scan_loop env (rev (enumerate 0 pre)) st))"
proof (induction pre arbitrary: suf st rule: rev_induct)
  case Nil
  then show ?case by (intro exI [of _ "[]"] exI [of _ suf]) simp
next
  case (snoc x pre)
  let ?st = "scan_item env (length pre, x) st"
  have inv: "base_inv (length pre) (x # suf) ?st" using snoc.prems base_inv_step [of "length pre"] by simp
  have loop: "scan_loop env (rev (enumerate 0 (pre @ [x]))) st = (if scan_complete ?st then ?st else scan_loop env (rev (enumerate 0 pre)) ?st)"
    by (simp add: enumerate_append_eq Let_def)
  show ?case
  proof (cases "scan_complete ?st")
    case True
    then show ?thesis using inv unfolding loop by (intro exI [of _ pre] exI [of _ "x # suf"]) simp
  next
    case False
    then show ?thesis using snoc.IH [OF _ inv] snoc.prems(1) unfolding loop by simp
  qed
qed

definition final_segment :: "replay_scan \<Rightarrow> replay_scan" where
  "final_segment st =
     (case active_segment st of Some seg \<Rightarrow> finalize_active_segment seg (st\<lparr>active_segment := None\<rparr>) | None \<Rightarrow> st)"

lemma final_segment_fields:
  "suffix_from (final_segment st) = suffix_from st"
  "pending_rollback_turns st = 0 \<Longrightarrow>
     scan_base (final_segment st) = (if scan_base st = None then active_base st else scan_base st)"
  "no_base st \<Longrightarrow> no_base (final_segment st)"
  by (auto simp: final_segment_def finalize_fields active_base_def no_base_def split: option.splits)

definition scan_start :: replay_scan where
  "scan_start =
     \<lparr>scan_base = None, scan_settings = None, scan_reference = NeverSet, pending_rollback_turns = 0, suffix_from = 0, active_segment = None\<rparr>"

lemma scan_rollout_final:
  "scan_rollout env items = final_segment (scan_loop env (rev (enumerate 0 items)) scan_start)"
  by (simp add: scan_rollout_def final_segment_def scan_start_def Let_def)

lemma scan_rollout_no_checkpoint:
  assumes "\<not> list_ex is_checkpoint items"
  shows "scan_base (scan_rollout env items) = None \<and> suffix_from (scan_rollout env items) = 0"
proof -
  have "\<not> list_ex is_checkpoint (map snd (rev (enumerate 0 items)))" using assms by (simp add: rev_map [symmetric] list_ex_iff)
  moreover have "no_base scan_start" by (simp add: scan_start_def no_base_def active_base_def)
  ultimately have "no_base (scan_rollout env items)"
    unfolding scan_rollout_final by (intro final_segment_fields(3) scan_loop_no_base)
  then show ?thesis by (simp add: no_base_def)
qed

lemma scan_rollout_checkpoint:
  assumes "\<not> list_ex is_rollback items" "list_ex is_checkpoint items"
  obtains xs m h ys where "items = xs @ Compacted m (Some h) # ys" "\<not> list_ex is_checkpoint ys"
    "scan_base (scan_rollout env items) = Some h" "suffix_from (scan_rollout env items) \<le> length xs + 1"
proof -
  let ?st = "scan_loop env (rev (enumerate 0 items)) scan_start"
  have "base_inv (length items) [] scan_start" by (simp add: scan_start_def base_inv_def no_base_def active_base_def)
  from scan_loop_base_inv [OF assms(1) this] obtain pre suf where ps: "items = pre @ suf" "base_inv (length pre) suf ?st"
    "pre = [] \<or> scan_complete ?st" by (metis append_Nil2)
  have "\<not> (\<not> list_ex is_checkpoint suf \<and> no_base ?st)" using ps(1,3) assms(2) by (auto simp: scan_complete_def no_base_def)
  with ps(2) obtain xs m h ys where x: "suf = xs @ Compacted m (Some h) # ys" "\<not> list_ex is_checkpoint ys"
    "suffix_from ?st \<le> length pre + length xs + 1" "scan_base ?st = Some h \<or> scan_base ?st = None \<and> active_base ?st = Some h"
    "pending_rollback_turns ?st = 0" unfolding base_inv_def by blast
  show thesis
    by (rule that [of "pre @ xs" m h ys]) (use ps(1) x final_segment_fields [of ?st] in \<open>auto simp: scan_rollout_final\<close>)
qed

lemma fold_checkpoint:
  "fold (item_effect env policy summary_prefix) (xs @ Compacted m (Some h) # ys) b = fold (item_effect env policy summary_prefix) ys h"
  by (simp add: item_effect_def)

lemma reconstruct_effect:
  assumes "\<not> list_ex is_rollback items \<or> \<not> list_ex is_checkpoint items"
  shows "\<exists>r. reconstruct_history_from_rollout env policy summary_prefix items = Some r \<and>
    rebuilt_history r = fold (item_effect env policy summary_prefix) items []"
proof -
  let ?st = "scan_rollout env items" and ?f = "fold (item_effect env policy summary_prefix)"
  let ?h = "(case scan_base ?st of Some base \<Rightarrow> replace_items base new_context_manager | None \<Rightarrow> new_context_manager) ::
    turn_context_item context_manager"
  have "?f (drop (suffix_from ?st) items) (cm_items ?h) = ?f items []"
  proof (cases "list_ex is_checkpoint items")
    case True
    with assms obtain xs m h ys where c: "items = xs @ Compacted m (Some h) # ys" "scan_base ?st = Some h"
      "suffix_from ?st \<le> length xs + 1" using scan_rollout_checkpoint [of items env] by metis
    consider "drop (suffix_from ?st) items = ys" | zs where "drop (suffix_from ?st) items = zs @ Compacted m (Some h) # ys"
      using c(3) unfolding c(1) by (cases "suffix_from (scan_rollout env (xs @ Compacted m (Some h) # ys)) = length xs + 1") auto
    moreover have all: "?f items [] = ?f ys h" unfolding c(1) by (rule fold_checkpoint)
    ultimately show ?thesis
    proof cases
      case 1
      from all show ?thesis unfolding 1 c(2) by (simp add: replace_items_def)
    next
      case (2 zs)
      show ?thesis unfolding 2 fold_checkpoint by (rule all [symmetric])
    qed
  next
    case False
    then show ?thesis using scan_rollout_no_checkpoint [OF False, of env] by (simp add: new_context_manager_def)
  qed
  moreover obtain cm f where "replay_items env policy summary_prefix (drop (suffix_from ?st) items) (?h, False) = Some (cm, f)"
    "cm_items cm = ?f (drop (suffix_from ?st) items) (cm_items ?h)"
    using replay_items_effect [of env policy summary_prefix "drop (suffix_from ?st) items" ?h False] by metis
  ultimately show ?thesis by (simp add: reconstruct_history_from_rollout_def Let_def)
qed

text \<open>
  C12: A resumed thread continues with the history it had: when nothing was rolled back, or no compaction
  stored a replacement, looking backwards for the newest checkpoint and replaying only what follows
  gives the history that replaying the whole log from the start gives.
\<close>

theorem reconstruct_is_replay:
  assumes "\<not> list_ex is_rollback items \<or> \<not> list_ex is_checkpoint items"
  shows "\<exists>r cm f. reconstruct_history_from_rollout env policy summary_prefix items = Some r \<and>
    replay_items env policy summary_prefix items (new_context_manager, False) = Some (cm, f) \<and> rebuilt_history r = cm_items cm"
  using reconstruct_effect [OF assms, of env policy summary_prefix] replay_items_effect [of env policy summary_prefix items new_context_manager False]
  by (auto simp: new_context_manager_def)

lemma plain_text_not_contextual:
  "is_contextual_user_message_content (\<lambda>_. None) [InputText (lit ''A'')] = False"
  "is_contextual_user_message_content (\<lambda>_. None) [InputText (lit ''B'')] = False"
  by (simp_all add: is_contextual_user_message_content_def is_contextual_user_fragment_def parse_hook_prompt_fragment_def
      is_standard_contextual_user_text_def CONTEXTUAL_USER_FRAGMENTS_def matches_text_def legacy_defs marker_defs matches_marked_text_def
      additional_context_matches_def get_to_def get_from_def is_some_and_def eq_ignore_ascii_case_def to_ascii_lower_def len_utf8_def
      trim_defs is_whitespace_def starts_with_def ends_with_def strip_prefix_def rust_eval)

theorem reconstruct_is_replay_witness:
  "\<exists>r cm f. reconstruct_history_from_rollout
       (\<lparr>hook_xml = \<lambda>_. None, inter_agent_json = \<lambda>_. None, serialized_len = \<lambda>_. None, image_size = \<lambda>_. None\<rparr>) (Bytes 100) (lit ''S'')
       [ResponseItem (user_message (lit ''A'')), Compacted (lit ''S'') (Some [user_message (lit ''S'')]), ResponseItem (user_message (lit ''B''))] = Some r \<and>
     replay_items
       (\<lparr>hook_xml = \<lambda>_. None, inter_agent_json = \<lambda>_. None, serialized_len = \<lambda>_. None, image_size = \<lambda>_. None\<rparr>) (Bytes 100) (lit ''S'')
       [ResponseItem (user_message (lit ''A'')), Compacted (lit ''S'') (Some [user_message (lit ''S'')]), ResponseItem (user_message (lit ''B''))]
       (new_context_manager, False) = Some (cm, f) \<and>
     rebuilt_history r = cm_items cm"
  by (rule reconstruct_is_replay) (simp add: is_rollback_def)

lemma rebuilt_history_eq:
  "map_option rebuilt_history (reconstruct_history_from_rollout env policy summary_prefix items) =
   map_option (cm_items \<circ> fst) (replay_items env policy summary_prefix (drop (suffix_from (scan_rollout env items)) items)
     (case scan_base (scan_rollout env items) of Some base \<Rightarrow> replace_items base new_context_manager | None \<Rightarrow> new_context_manager, False))"
  by (simp add: reconstruct_history_from_rollout_def Let_def option.map_comp comp_def case_prod_unfold)

text \<open>
  A rollback of the turn in which the thread was compacted loses the turns before it: the replay starts
  after the compaction, but without its replacement. Replaying the whole log keeps the first message.
\<close>

lemma rolled_back_compaction_loses_turns:
  fixes env :: history_env
  defines "env \<equiv> \<lparr>hook_xml = \<lambda>_. None, inter_agent_json = \<lambda>_. None, serialized_len = \<lambda>_. None, image_size = \<lambda>_. None\<rparr>"
  defines "items \<equiv> [ResponseItem (user_message (lit ''A'')), EventMsg (TurnStarted (lit ''t'')), ResponseItem (user_message (lit ''B'')),
    Compacted (lit ''S'') (Some [user_message (lit ''A''), user_message (lit ''B'')]), EventMsg (TurnComplete (lit ''t'')), EventMsg (ThreadRolledBack 1)]"
  shows "map_option rebuilt_history (reconstruct_history_from_rollout env (Bytes 100) (lit ''S'') items) = Some []"
    and "map_option (cm_items \<circ> fst) (replay_items env (Bytes 100) (lit ''S'') items (new_context_manager, False)) = Some [user_message (lit ''A'')]"
proof -
  have b: "is_user_turn_boundary env (user_message (lit ''A''))" "is_user_turn_boundary env (user_message (lit ''B''))"
    by (simp_all add: is_user_turn_boundary_def user_message_def env_def plain_text_not_contextual)
  have scan: "scan_base (scan_rollout env items) = None \<and> suffix_from (scan_rollout env items) = 4"
    by (simp add: items_def scan_rollout_def scan_item_def scan_event_def scan_compacted_def get_segment_def default_segment_def
        turn_ids_are_compatible_def finalize_active_segment_def scan_complete_def usat_add_def usize_max_def b Let_def)
  show "map_option rebuilt_history (reconstruct_history_from_rollout env (Bytes 100) (lit ''S'') items) = Some []"
    unfolding rebuilt_history_eq using scan
    by (simp add: items_def new_context_manager_def drop_last_n_user_turns_def user_message_positions_def replace_items_def List.map_filter_def)
  have "items_after_drop env 1 [user_message (lit ''A''), user_message (lit ''B'')] = [user_message (lit ''A'')]"
    using b by (simp add: items_after_drop_def drop_last_n_user_turns_def user_message_positions_def replace_items_def List.map_filter_def
        trim_pre_turn_context_updates.simps user_message_def is_user_turn_boundary_def lit_def Let_def)
  then show "map_option (cm_items \<circ> fst) (replay_items env (Bytes 100) (lit ''S'') items (new_context_manager, False)) = Some [user_message (lit ''A'')]"
    using replay_items_effect [of env "Bytes 100" "lit ''S''" items new_context_manager False] by (auto simp: items_def item_effect_def)
qed

section \<open>The turns of a rebuilt thread\<close>

lemma after_drop_rolled_back: "\<exists>mid rest. rolled_back env (Suc m) h (items_after_drop env (Suc m) h) mid rest"
proof -
  let ?k = "\<lparr>cm_items = h, history_version = 0, token_info = None, reference_context_item = None\<rparr> :: unit context_manager"
  obtain out mid rest where o: "rolled_back env (Suc m) h out mid rest" "map_option cm_items (drop_last_n_user_turns env (Suc m) ?k) = Some out"
    using drop_last_n_rolled_back [of env m ?k] by auto
  then have "items_after_drop env (Suc m) h = out" by (auto simp: items_after_drop_def)
  then show ?thesis using o(1) by blast
qed

lemma items_after_drop_boundaries:
  "filter (is_user_turn_boundary env) (items_after_drop env n h) = take (turns env h - n) (filter (is_user_turn_boundary env) h)"
proof (cases n)
  case 0
  then show ?thesis by (simp add: items_after_drop_def drop_last_n_user_turns_def turns_def)
next
  case (Suc m)
  define out where "out = items_after_drop env n h"
  obtain mid rest where h: "h = out @ mid @ rest" "turns env out = turns env h - n"
    using after_drop_rolled_back [of env m h] unfolding Suc out_def rolled_back_def by blast
  have "filter (is_user_turn_boundary env) h = filter (is_user_turn_boundary env) out @ filter (is_user_turn_boundary env) (mid @ rest)"
    by (simp add: h(1))
  then show ?thesis unfolding out_def [symmetric] h(2) [symmetric] by (simp add: turns_def)
qed

lemma drop_turns_boundaries:
  "filter (is_user_turn_boundary env) (map snd (drop_turns env n h)) =
   take (turns env (map snd h) - n) (filter (is_user_turn_boundary env) (map snd h))"
proof (cases "n = 0 \<or> turns env (map snd h) = 0")
  case True
  then show ?thesis by (auto simp: drop_turns_def turns_def filter_map)
next
  case False
  then obtain a p x b where h: "h = a @ (p, x) # b" "drop_turns env n h = a" "turns env (map snd a) = turns env (map snd h) - n"
    using drop_turns_split [of n env h] by (metis neq0_conv)
  show ?thesis unfolding h(2) h(3) [symmetric] by (simp add: h(1) turns_def)
qed

lemma recorded_boundaries:
  "filter (is_user_turn_boundary env) (recorded policy [i]) = filter (is_user_turn_boundary env) [i]"
  using process_item_total [of i policy]
  by (cases i) (auto simp: recorded_def is_api_message_def process_item_def is_user_turn_boundary_def lit_def Let_def)

lemma item_effect_boundaries:
  assumes "filter (is_user_turn_boundary env) h = filter (is_user_turn_boundary env) (map snd e)" "\<not> is_compaction_entry x"
  shows "filter (is_user_turn_boundary env) (item_effect env policy summary_prefix x h) =
    filter (is_user_turn_boundary env) (map snd (effective_step env (k, x) e))"
proof -
  have "turns env h = turns env (map snd e)" using assms(1) by (simp add: turns_def)
  then show ?thesis
    using assms
    by (auto simp: item_effect_def effective_step_def recorded_boundaries items_after_drop_boundaries drop_turns_boundaries
        is_compaction_entry_def simp del: filter.simps split: rollout_item.splits event_msg.splits)
qed

lemma replay_boundaries:
  assumes "\<not> list_ex is_compaction_entry items"
  shows "filter (is_user_turn_boundary env) (fold (item_effect env policy summary_prefix) items []) =
    filter (is_user_turn_boundary env) (map snd (effective env items))"
  using assms
proof (induction items rule: rev_induct)
  case (snoc x xs)
  have "effective env (xs @ [x]) = effective_step env (length xs, x) (effective env xs)"
    by (simp add: effective_def enumerate_append_eq)
  then show ?case using snoc item_effect_boundaries by simp
qed (simp add: effective_def)

text \<open>
  C26: The turns of a resumed thread are those its log describes: without compactions the messages that
  start a turn in the rebuilt history are exactly the ones left when every rollback has removed its turns.
\<close>

theorem rebuilt_turns_match_thread:
  assumes "\<not> list_ex is_compaction_entry items"
  shows "\<exists>r. reconstruct_history_from_rollout env policy summary_prefix items = Some r \<and>
    filter (is_user_turn_boundary env) (rebuilt_history r) = filter (is_user_turn_boundary env) (map snd (effective env items))"
proof -
  have "\<not> list_ex is_checkpoint items"
    using assms by (auto simp: list_ex_iff is_checkpoint_def is_compaction_entry_def split: rollout_item.splits)
  then show ?thesis
    using reconstruct_effect [of items env policy summary_prefix] replay_boundaries [OF assms] by auto
qed

theorem rebuilt_turns_match_thread_witness:
  "\<exists>r. reconstruct_history_from_rollout
       (\<lparr>hook_xml = \<lambda>_. None, inter_agent_json = \<lambda>_. None, serialized_len = \<lambda>_. None, image_size = \<lambda>_. None\<rparr>) (Bytes 100) (lit ''S'')
       [ResponseItem (user_message (lit ''A'')), ResponseItem (user_message (lit ''B'')), EventMsg (ThreadRolledBack 1)] = Some r \<and>
     filter (is_user_turn_boundary (\<lparr>hook_xml = \<lambda>_. None, inter_agent_json = \<lambda>_. None, serialized_len = \<lambda>_. None, image_size = \<lambda>_. None\<rparr>)) (rebuilt_history r) = [user_message (lit ''A'')]"
proof -
  let ?env = "\<lparr>hook_xml = \<lambda>_. None, inter_agent_json = \<lambda>_. None, serialized_len = \<lambda>_. None, image_size = \<lambda>_. None\<rparr>"
  let ?items = "[ResponseItem (user_message (lit ''A'')), ResponseItem (user_message (lit ''B'')), EventMsg (ThreadRolledBack 1)]"
  have b: "is_user_turn_boundary ?env (user_message (lit ''A''))" "is_user_turn_boundary ?env (user_message (lit ''B''))"
    by (simp_all add: is_user_turn_boundary_def user_message_def plain_text_not_contextual)
  then have "filter (is_user_turn_boundary ?env) (map snd (effective ?env ?items)) = [user_message (lit ''A'')]"
    by (simp add: effective_def effective_step_def drop_turns_def turns_def user_message_positions_def List.map_filter_def)
  then show ?thesis using rebuilt_turns_match_thread [of ?items ?env "Bytes 100" "lit ''S''"] by (simp add: is_compaction_entry_def)
qed

text \<open>
  The positions of the user's messages are cut by the number of turns rolled back, although instructions of
  other agents are turns of a rollback too: rolling back such an instruction loses the message before it.
\<close>

lemma user_positions_lose_message:
  fixes env :: history_env
  defines "env \<equiv> \<lparr>hook_xml = \<lambda>_. None, inter_agent_json = \<lambda>_. Some True, serialized_len = \<lambda>_. None, image_size = \<lambda>_. None\<rparr>"
  defines "items \<equiv> [ResponseItem (user_message (lit ''A'')), ResponseItem (Message None (lit ''assistant'') [OutputText (lit ''B'')] None),
    EventMsg (ThreadRolledBack 1)]"
  shows "user_message_positions_in_rollout env items = []"
    and "positions_of (is_real_user_message_boundary env) (effective env items) = [0]"
proof -
  have u: "is_real_user_message_boundary env (user_message (lit ''A''))"
    "\<not> is_real_user_message_boundary env (Message None (lit ''assistant'') [OutputText (lit ''B'')] None)"
    by (simp_all add: real_user_message_boundary user_message_def env_def plain_text_not_contextual)
  have b: "is_user_turn_boundary env (user_message (lit ''A''))"
    "is_user_turn_boundary env (Message None (lit ''assistant'') [OutputText (lit ''B'')] None)"
    by (auto simp: is_user_turn_boundary_def user_message_def env_def plain_text_not_contextual is_message_content_def from_message_content_def)
  show "user_message_positions_in_rollout env items = []"
    by (simp add: user_message_positions_in_rollout_def user_position_step_def items_def u)
  show "positions_of (is_real_user_message_boundary env) (effective env items) = [0]"
    by (simp add: effective_def effective_step_def drop_turns_def turns_def user_message_positions_def List.map_filter_def items_def b positions_of_def u)
qed

end
