(* ===== verification/Spec2Isabelle.thy ===== *)
theory Spec2Isabelle
  imports Streaming_Correct Turn_Diff Invocation Head_Tail_Buffer Utf8_Stream Approval_Session Rollout
begin

text \<open>
  A verification development for the Rust workspace under \<^verbatim>\<open>src/codex-rs\<close>, an agent that lets a
  language model edit files and run commands. The development covers the code between the text
  of the model and the machine: how patches are read and applied, how the text of an answer is
  taken apart while it arrives, which commands may run, and what the model is told of the
  conversation so far.

  \<^bold>\<open>Conventions.\<close> \<open>Rust_Prelude\<close> holds the generic part. A Rust string is the list of its code
  points (\<open>rstr\<close>, with \<open>lit\<close> for literals); bytes are \<open>8 word\<close>; \<^verbatim>\<open>usize\<close> and \<^verbatim>\<open>i64\<close> arithmetic
  that the code saturates is written out with its bounds. A \<^verbatim>\<open>Result\<close> is a sum whose left side is
  the error; an outer \<open>None\<close> is a panic or a loop that does not end, and is proved not to occur
  where the code is called. Mutable state is passed explicitly in records with the fields of the
  code. Code of other packages is a parameter: the text differ, SHA-1, tree-sitter, shlex, JSON,
  XML, the image decoder, the Starlark interpreter, and the operations of the file system, any of
  which may fail.

  \<^bold>\<open>Patches\<close> (\<^verbatim>\<open>apply-patch/src\<close>, \<^verbatim>\<open>utils/absolute-path/src\<close>, \<^verbatim>\<open>core/src/turn_diff_tracker.rs\<close>).
  \<^item> \<open>Seek_Sequence\<close>: \<^verbatim>\<open>seek_sequence\<close>, behind the locale \<open>line_seeker\<close>, which states what a client may
    rely on: a hit is a lenient match inside the file.
  \<^item> \<open>Patch_Parser\<close>, \<open>Patch_Grammar\<close>: the batch parser of \<^verbatim>\<open>parser.rs\<close>, and a syntax tree with a
    printer. \<open>Chunk_Stream\<close>, \<open>Streaming_Parser\<close>, \<open>Streaming_Correct\<close>: \<^verbatim>\<open>streaming_parser.rs\<close>; its
    reachable states, that it reads the lines of its input however that is cut, and its agreement
    with the batch parser on every printed patch.
  \<^item> \<open>Replacements\<close>: computing and performing the edits of an update hunk; the in-place loop equals
    a splice, and one plain chunk per changed region turns the text of the old file into that of the
    new one, unless the new one ends in a blank line.
  \<^item> \<open>Absolute_Path\<close>: resolution of paths on Unix, equal to walking the segments, from the home directory after \<^verbatim>\<open>~\<close>.
  \<^item> \<open>Apply_Patch\<close>, \<open>Applied_Delta\<close>, \<open>Hunk_Effects\<close>: the file operations of \<^verbatim>\<open>lib.rs\<close> with the delta
    they report. If no file is moved onto itself, an exact delta replays to what the files became,
    also after a failure, and on success the effect is that of an abstract semantics of hunks.
  \<^item> \<open>Invocation\<close>: recognising a call of \<^verbatim>\<open>apply_patch\<close> and previewing it. \<open>Turn_Diff\<close>: the tracker of a
    turn, its invariant over any sequence of patches, and when it shows a diff.

  \<^bold>\<open>Text of answers and commands\<close> (\<^verbatim>\<open>utils/stream-parser/src\<close>, \<^verbatim>\<open>core/src/unified_exec\<close>).
  \<^item> \<open>Stream_Text\<close>: the trait of the streaming parsers as the locale \<open>stream_text_parser\<close>: pushing a
    concatenation is pushing its parts. \<open>Inline_Tags\<close>, \<open>Tagged_Lines\<close>, \<open>Assistant_Text\<close> interpret it for
    hidden tags, tagged blocks, citations, plans and their combination, and show round trips and
    a whole-text reference. The loop of the inline parser is a \<open>partial_function\<close>; it is proved to
    end for every input. \<open>Utf8_Stream\<close> decodes bytes in front of any such parser and rolls back a
    chunk that cannot become valid.
  \<^item> \<open>Head_Tail_Buffer\<close>: the bounded buffer of command output.

  \<^bold>\<open>Commands\<close> (\<^verbatim>\<open>shell-command/src/command_safety\<close>, \<^verbatim>\<open>execpolicy/src\<close>, \<^verbatim>\<open>core/src/exec_policy.rs\<close>).
  \<^item> \<open>Command_Safety\<close>: the safelist and the danger heuristics.
  \<^item> \<open>Exec_Policy\<close>: rules, policies, overlays and network domains; the locale \<open>exec_rule\<close> is the
    interface of a rule. The decision on a command is the strictest of its applicable rules.
  \<^item> \<open>Policy_Sources\<close>: the builtins of rules files, the rules of \<^verbatim>\<open>requirements.toml\<close>, and loading. The
    locale \<open>fallible_loop\<close> carries the invariant of a policy through every loop over calls and
    files. \<open>Policy_Amend\<close>: writing an approved rule to a file, and that reloading the file gives the
    policy in memory.
  \<^item> \<open>Exec_Approval\<close>: from the rules, the heuristics and the approval policy to running, asking or
    refusing. \<open>Approval_Session\<close>: what an accepted amendment achieves, and the invariant of every
    reachable session.

  \<^bold>\<open>The conversation\<close> (\<^verbatim>\<open>core/src/context_manager\<close>, \<^verbatim>\<open>core/src/context\<close>, \<^verbatim>\<open>core/src/event_mapping.rs\<close>,
  \<^verbatim>\<open>protocol/src\<close>, \<^verbatim>\<open>utils/string\<close>, \<^verbatim>\<open>utils/output-truncation\<close>).
  \<^item> \<open>Text_Truncation\<close>: shortening a text in the middle and tool outputs to a budget. Exactly the
    longest ends that fit are kept; slicing never splits a character.
  \<^item> \<open>Response_Items\<close>: the items of a conversation and the passes of \<^verbatim>\<open>normalize.rs\<close>. The insertions from
    the back are one forward pass; afterwards calls and outputs are paired; removing an item takes
    exactly its counterpart along.
  \<^item> \<open>Context_Fragments\<close>: the messages the program injects, and how they are recognised again; every
    rendered fragment whose key can be read back is recognised.
  \<^item> \<open>User_Input\<close>: user input to content items and back, and the text elements of the flattened
    message.
  \<^item> \<open>Context_History\<close>: \<^verbatim>\<open>ContextManager\<close> with recording, the prompt, removal, rollback and the token
    accounts. The prompt is paired up and a fixed point; a rollback drops exactly the turns asked
    for and the context updates before them.
  \<^item> \<open>Compaction\<close>: replacing a history by the recent words of the user and a summary
    (\<^verbatim>\<open>core/src/compact.rs\<close>). The newest messages within the budget are kept; the initial context goes
    before the last message of the user.
  \<^item> \<open>Rollout\<close>: the log of a thread (\<^verbatim>\<open>core/src/thread_rollout_truncation.rs\<close>,
    \<^verbatim>\<open>core/src/session/rollout_reconstruction.rs\<close>): fork points and the history of a resumed thread. Both agree
    with the thread that the log describes, the history also when only the part after the newest
    checkpoint is replayed.

  \<^bold>\<open>How the parts meet.\<close> A patch arrives as deltas (\<open>push_delta\<close>), is recognised in a command
  (\<open>maybe_parse_apply_patch_verified\<close>), previewed, applied (\<open>apply_patch\<close>) and tracked
  (\<open>track_delta\<close>); the equivalence, preview and tracking theorems connect these stages. Any other
  command goes through \<open>create_exec_approval_requirement_for_command\<close> with the policy that
  \<open>load_manager\<close> read and the approvals of the session have amended. Outputs and messages are shortened
  and recorded in the history (\<open>record_items\<close>), from which the next prompt is made (\<open>for_prompt\<close>); a
  rollback finds the turns by telling injected context from the user's own words. What happened is
  logged; \<open>reconstruct_history_from_rollout\<close> turns the log back into a history when the thread is resumed.

  \<^bold>\<open>Bounds.\<close> No theorem is restricted to inputs of a bounded size and no definition takes fuel.
  Loops are structural, have a termination proof, or are shown to return. Integers have the width
  of the code where it saturates or wraps; elsewhere lengths are natural numbers, since a Rust slice
  cannot exceed \<^verbatim>\<open>isize::MAX\<close> elements. Failing file operations are parameters of the operations,
  so the theorems hold for every pattern of failures. The build is the one for Unix.

  \<^bold>\<open>Deviations of the code\<close> are stated as closed examples next to the property they limit, among
  them \<open>eof_chunk_change_lost\<close>, \<open>self_move_deletes_file\<close>, \<open>two_updates_preview_differs\<close>,
  \<open>exact_rule_hides_overlay\<close>, \<open>broken_rules_file_drops_requirements\<close>, \<open>unreadable_key_is_a_turn\<close>,
  \<open>removal_versions\<close>, \<open>truncation_exceeds_budget\<close>, \<open>rolled_back_compaction_loses_turns\<close> and
  \<open>user_positions_lose_message\<close>. Where such an example limits a property, the property names the condition.

  \<^bold>\<open>Not modelled.\<close> The terminal interface, the app server, the command line, the providers, MCP,
  persistence, accounts, telemetry and the cloud services are input and output around other
  packages; the sandboxes and process execution are calls of the operating system; the shell
  parsers rest on generated grammars; configuration and protocol types are serialisation, of
  which the parts that the modelled code reads are included with it. Concurrent sessions are not
  modelled: the advisory lock on a rules file and the semaphore of the policy manager make their
  updates sequential.
\<close>

end
